(* ===== verification/Prelude.thy ===== *)
theory Prelude
  imports Main "HOL-Library.Word" "HOL-Library.Monad_Syntax"
begin

unbundle bit_operations_syntax

section \<open>Machine words, byte memory and the fault monad\<close>

text \<open>
  What every component shares: the C integer types as words, memory areas as functions from
  byte offsets, little-endian field access, and the option monad in which \<open>None\<close> is an access
  outside the object or the disk (undefined behaviour of the C code). The predicate \<open>ok\<close> is
  the total-correctness reading of that monad: the computation does not fault, and its result
  satisfies the postcondition.
\<close>

named_theorems mem_simps \<open>reads of little-endian fields from a memory area that was written\<close>
named_theorems layout_defs \<open>definitions of the on-disk structures\<close>

type_synonym u8 = "8 word"
type_synonym u16 = "16 word"
type_synonym u32 = "32 word"

text \<open>A memory area is read at a byte offset from its start.\<close>

type_synonym mem = "nat \<Rightarrow> u8"

subsection \<open>Little-endian fields\<close>

definition of2 :: "u8 \<Rightarrow> u8 \<Rightarrow> u16" where
  "of2 a b = ucast a OR push_bit 8 (ucast b)"

definition of4 :: "u8 \<Rightarrow> u8 \<Rightarrow> u8 \<Rightarrow> u8 \<Rightarrow> u32" where
  "of4 a b c d = ucast a OR push_bit 8 (ucast b) OR push_bit 16 (ucast c) OR push_bit 24 (ucast d)"

definition b16 :: "u16 \<Rightarrow> u8 list" where
  "b16 v = [ucast v, ucast (drop_bit 8 v)]"

definition b32 :: "u32 \<Rightarrow> u8 list" where
  "b32 v = [ucast v, ucast (drop_bit 8 v), ucast (drop_bit 16 v), ucast (drop_bit 24 v)]"

definition get16 :: "mem \<Rightarrow> nat \<Rightarrow> u16" where
  "get16 m i = of2 (m i) (m (i + 1))"

definition get32 :: "mem \<Rightarrow> nat \<Rightarrow> u32" where
  "get32 m i = of4 (m i) (m (i + 1)) (m (i + 2)) (m (i + 3))"

text \<open>Bytes \<open>bs\<close> stored at offset \<open>off\<close>: the effect of a \<open>memcpy\<close> of a structure.\<close>

definition blit :: "mem \<Rightarrow> nat \<Rightarrow> u8 list \<Rightarrow> mem" where
  "blit m off bs = (\<lambda>i. if off \<le> i \<and> i < off + length bs then bs ! (i - off) else m i)"

lemma of2_b16 [simp]: "of2 (ucast v) (ucast (drop_bit 8 v)) = v"
  unfolding of2_def by (rule bit_word_eqI) (auto simp: bit_simps)

lemma of4_b32 [simp]:
  "of4 (ucast v) (ucast (drop_bit 8 v)) (ucast (drop_bit 16 v)) (ucast (drop_bit 24 v)) = v"
proof (rule bit_word_eqI)
  fix n
  assume "n < LENGTH(32)"
  then have "n < 8 \<or> (8 \<le> n \<and> n < 16) \<or> (16 \<le> n \<and> n < 24) \<or> (24 \<le> n \<and> n < 32)"
    by auto
  then show "bit (of4 (ucast v) (ucast (drop_bit 8 v)) (ucast (drop_bit 16 v))
      (ucast (drop_bit 24 v))) n \<longleftrightarrow> bit v n"
    unfolding of4_def by (elim disjE) (auto simp: bit_simps)
qed

lemma length_b16 [simp]: "length (b16 v) = 2"
  by (simp add: b16_def)

lemma length_b32 [simp]: "length (b32 v) = 4"
  by (simp add: b32_def)

lemma blit_outside: "i < off \<or> off + length bs \<le> i \<Longrightarrow> blit m off bs i = m i"
  by (auto simp: blit_def)

lemma blit_inside: "off \<le> i \<Longrightarrow> i < off + length bs \<Longrightarrow> blit m off bs i = bs ! (i - off)"
  by (simp add: blit_def)

lemma blit_Nil [simp]: "blit m off [] = m"
  by (rule ext) (auto simp: blit_def)

lemma get16_blit_inside:
  "off \<le> i \<Longrightarrow> i + 2 \<le> off + length bs \<Longrightarrow>
    get16 (blit m off bs) i = of2 (bs ! (i - off)) (bs ! (i - off + 1))"
  by (simp add: get16_def blit_def Suc_diff_le)

lemma get32_blit_inside:
  "off \<le> i \<Longrightarrow> i + 4 \<le> off + length bs \<Longrightarrow> get32 (blit m off bs) i =
    of4 (bs ! (i - off)) (bs ! (i - off + 1)) (bs ! (i - off + 2)) (bs ! (i - off + 3))"
  by (simp add: get32_def blit_def Suc_diff_le)

lemma get16_blit_same [mem_simps]: "get16 (blit m off (b16 v)) off = v"
  by (simp add: get16_blit_inside) (simp add: b16_def)

lemma get32_blit_same [mem_simps]: "get32 (blit m off (b32 v)) off = v"
  by (simp add: get32_blit_inside) (simp add: b32_def numeral_2_eq_2 numeral_3_eq_3)

lemma get16_blit_outside [mem_simps]:
  "i + 2 \<le> off \<or> off + length bs \<le> i \<Longrightarrow> get16 (blit m off bs) i = get16 m i"
  by (auto simp: get16_def blit_def)

lemma get32_blit_outside [mem_simps]:
  "i + 4 \<le> off \<or> off + length bs \<le> i \<Longrightarrow> get32 (blit m off bs) i = get32 m i"
  by (auto simp: get32_def blit_def)

text \<open>Two areas that agree on the bytes of a field agree on the field.\<close>

lemma get16_cong: "(\<And>k. k < 2 \<Longrightarrow> m (i + k) = m' (j + k)) \<Longrightarrow> get16 m i = get16 m' j"
proof -
  assume *: "\<And>k. k < 2 \<Longrightarrow> m (i + k) = m' (j + k)"
  show ?thesis
    using * [of 0] * [of 1] by (simp add: get16_def)
qed

lemma get32_cong: "(\<And>k. k < 4 \<Longrightarrow> m (i + k) = m' (j + k)) \<Longrightarrow> get32 m i = get32 m' j"
proof -
  assume *: "\<And>k. k < 4 \<Longrightarrow> m (i + k) = m' (j + k)"
  show ?thesis
    using * [of 0] * [of 1] * [of 2] * [of 3] by (simp add: get32_def)
qed

lemma get16_field_cong:
  assumes "\<And>k. k < n \<Longrightarrow> m (i + k) = m' (j + k)" and "c + 2 \<le> n"
  shows "get16 m (i + c) = get16 m' (j + c)"
proof (rule get16_cong)
  fix k :: nat
  assume "k < 2"
  with assms(2) have "c + k < n" by simp
  from assms(1) [OF this] show "m (i + c + k) = m' (j + c + k)" by (simp add: add.assoc)
qed

lemma get32_field_cong:
  assumes "\<And>k. k < n \<Longrightarrow> m (i + k) = m' (j + k)" and "c + 4 \<le> n"
  shows "get32 m (i + c) = get32 m' (j + c)"
proof (rule get32_cong)
  fix k :: nat
  assume "k < 4"
  with assms(2) have "c + k < n" by simp
  from assms(1) [OF this] show "m (i + c + k) = m' (j + c + k)" by (simp add: add.assoc)
qed

lemma concat_fixed_nth:
  "(\<And>x. x \<in> set xs \<Longrightarrow> length (f x) = n) \<Longrightarrow> k < length xs \<Longrightarrow> j < n \<Longrightarrow>
    concat (map f xs) ! (n * k + j) = f (xs ! k) ! j"
proof (induction xs arbitrary: k)
  case Nil
  then show ?case by simp
next
  case (Cons x xs)
  show ?case
  proof (cases k)
    case 0
    with Cons.prems show ?thesis by (simp add: nth_append)
  next
    case (Suc k')
    then have "concat (map f xs) ! (n * k' + j) = f (xs ! k') ! j"
      using Cons by simp
    with Suc Cons.prems(1) show ?thesis by (simp add: nth_append algebra_simps)
  qed
qed

lemma length_concat_fixed:
  "(\<And>x. x \<in> set xs \<Longrightarrow> length (f x) = n) \<Longrightarrow> length (concat (map f xs)) = n * length xs"
  by (induction xs) auto

lemma nth_list_upd: "g < length xs \<Longrightarrow> xs[i := x] ! g = (if g = i then x else xs ! g)"
  by (cases "g = i") simp_all

lemma mult_add_mod: "k < n \<Longrightarrow> (n * m + k) mod n = (k :: nat)"
  by simp

lemma mult_add_div: "k < n \<Longrightarrow> (n * m + k) div n = (m :: nat)"
  by simp

lemma of_nat_u32_eq_iff:
  "x < 2 ^ 32 \<Longrightarrow> y < 2 ^ 32 \<Longrightarrow> (of_nat x = (of_nat y :: u32)) \<longleftrightarrow> x = y"
  by (simp add: word_of_nat_eq_iff take_bit_nat_eq_self)

lemma unat_ucast_u8_u16 [simp]: "unat (ucast (x :: u8) :: u16) = unat x"
  using unsigned_less [of x, where 'a = nat] by (simp add: unsigned_ucast_eq take_bit_nat_eq_self)

lemma unat_ucast_u8_u32 [simp]: "unat (ucast (x :: u8) :: u32) = unat x"
  using unsigned_less [of x, where 'a = nat] by (simp add: unsigned_ucast_eq take_bit_nat_eq_self)

lemma unat_ucast_u16_u32 [simp]: "unat (ucast (x :: u16) :: u32) = unat x"
  using unsigned_less [of x, where 'a = nat] by (simp add: unsigned_ucast_eq take_bit_nat_eq_self)

lemma unat_u8_less: "unat (x :: u8) < 256"
  using unsigned_less [of x, where 'a = nat] by simp

lemma unat_u16_less: "unat (x :: u16) < 65536"
  using unsigned_less [of x, where 'a = nat] by simp

lemma unat_u32_less: "unat (x :: u32) < 4294967296"
  using unsigned_less [of x, where 'a = nat] by simp

lemma unat_of_nat_u32: "x < 2 ^ 32 \<Longrightarrow> unat (of_nat x :: u32) = x"
  by (simp add: unat_of_nat)

subsection \<open>The fault monad\<close>

text \<open>
  \<open>ok m P\<close>: the computation \<open>m\<close> does not fault and its result satisfies \<open>P\<close>. The rules
  below turn it into a weakest-precondition calculus over the \<open>do\<close> blocks of the model.
\<close>

definition ok :: "'a option \<Rightarrow> ('a \<Rightarrow> bool) \<Rightarrow> bool" where
  "ok m P \<longleftrightarrow> (\<exists>x. m = Some x \<and> P x)"

lemma ok_Some [simp]: "ok (Some x) P \<longleftrightarrow> P x"
  by (simp add: ok_def)

lemma ok_None [simp]: "\<not> ok None P"
  by (simp add: ok_def)

lemma ok_bind: "ok (m \<bind> f) P \<longleftrightarrow> ok m (\<lambda>x. ok (f x) P)"
  by (cases m) simp_all

lemma ok_prod: "ok (case_prod f x) P \<longleftrightarrow> (case x of (a, b) \<Rightarrow> ok (f a b) P)"
  by (cases x) simp

lemmas ok_do = ok_bind ok_prod

lemma ok_mono: "ok m P \<Longrightarrow> (\<And>x. P x \<Longrightarrow> Q x) \<Longrightarrow> ok m Q"
  by (auto simp: ok_def)

lemma ok_bindI: "ok m P \<Longrightarrow> (\<And>x. P x \<Longrightarrow> ok (f x) Q) \<Longrightarrow> ok (m \<bind> f) Q"
  by (auto simp: ok_def)

lemma okD: "ok m P \<Longrightarrow> m = Some x \<Longrightarrow> P x"
  by (simp add: ok_def)

lemma ok_conj: "ok m P \<Longrightarrow> ok m Q \<Longrightarrow> ok m (\<lambda>x. P x \<and> Q x)"
  by (auto simp: ok_def)

lemma okE:
  assumes "ok m P"
  obtains x where "m = Some x" "P x"
  using assms by (auto simp: ok_def)

definition guard :: "bool \<Rightarrow> unit option" where
  "guard b = (if b then Some () else None)"

lemma guard_simps [simp]: "guard True = Some ()" "guard False = None"
  by (simp_all add: guard_def)

lemma ok_guard [simp]: "ok (guard b) P \<longleftrightarrow> b \<and> P ()"
  by (cases b) simp_all

text \<open>An array read or write at an index: a fault outside the array.\<close>

definition arr_get :: "'a list \<Rightarrow> nat \<Rightarrow> 'a option" where
  "arr_get xs i = (if i < length xs then Some (xs ! i) else None)"

definition arr_put :: "'a list \<Rightarrow> nat \<Rightarrow> 'a \<Rightarrow> 'a list option" where
  "arr_put xs i x = (if i < length xs then Some (xs[i := x]) else None)"

lemma arr_get_Some [simp]: "i < length xs \<Longrightarrow> arr_get xs i = Some (xs ! i)"
  by (simp add: arr_get_def)

lemma arr_put_Some [simp]: "i < length xs \<Longrightarrow> arr_put xs i x = Some (xs[i := x])"
  by (simp add: arr_put_def)

lemma ok_arr_get [simp]: "ok (arr_get xs i) P \<longleftrightarrow> i < length xs \<and> P (xs ! i)"
  by (simp add: arr_get_def)

lemma ok_arr_put [simp]: "ok (arr_put xs i x) P \<longleftrightarrow> i < length xs \<and> P (xs[i := x])"
  by (simp add: arr_put_def)

end
