(* ===== verification/CString.thy ===== *)
theory CString
  imports Prelude
begin

section \<open>The freestanding C library: \<open>lib/string.c\<close>\<close>

text \<open>
  The memory and string routines the kernel and the user programs share. All pointers point
  into one memory, so the overlap of source and destination is visible. A counted \<open>for\<close> loop
  is a fold over its index list; a loop that ends only at a NUL byte is a
  partial function, whose value \<open>None\<close> means that it never returns.
\<close>

subsection \<open>Counted loops\<close>

definition memset :: "mem \<Rightarrow> nat \<Rightarrow> int \<Rightarrow> nat \<Rightarrow> mem" where
  "memset m s c n = fold (\<lambda>i buf. buf(s + i := word_of_int c)) [0..<n] m"

text \<open>The body of the copying loops: one byte, at the same index of both areas.\<close>

definition copy_byte :: "nat \<Rightarrow> nat \<Rightarrow> nat \<Rightarrow> mem \<Rightarrow> mem" where
  "copy_byte dest src i buf = buf(dest + i := buf (src + i))"

definition memcpy :: "mem \<Rightarrow> nat \<Rightarrow> nat \<Rightarrow> nat \<Rightarrow> mem" where
  "memcpy m dest src n = fold (copy_byte dest src) [0..<n] m"

definition memmove :: "mem \<Rightarrow> nat \<Rightarrow> nat \<Rightarrow> nat \<Rightarrow> mem" where
  "memmove m dest src n =
     (if dest < src
      then fold (copy_byte dest src) [0..<n] m
      else fold (\<lambda>i. copy_byte dest src (i - 1)) (rev [1..<n + 1]) m)"

text \<open>\<open>memcpy\<close> where the source is another object (\<open>restrict\<close> pointers).\<close>

definition memcpy_into :: "mem \<Rightarrow> nat \<Rightarrow> mem \<Rightarrow> nat \<Rightarrow> nat \<Rightarrow> mem" where
  "memcpy_into dest d src s n = fold (\<lambda>i buf. buf(d + i := src (s + i))) [0..<n] dest"

text \<open>The areas compared by \<open>memcmp\<close> may live in different objects.\<close>

fun memcmp :: "mem \<Rightarrow> nat \<Rightarrow> mem \<Rightarrow> nat \<Rightarrow> nat \<Rightarrow> int" where
  "memcmp buf1 p buf2 q 0 = 0"
| "memcmp buf1 p buf2 q (Suc n) =
     (if buf1 p < buf2 q then -1
      else if buf1 p > buf2 q then 1
      else memcmp buf1 (Suc p) buf2 (Suc q) n)"

lemma memset_apply:
  "memset m s c n a = (if s \<le> a \<and> a < s + n then word_of_int c else m a)"
  unfolding memset_def by (induction n) auto

lemma memcpy_into_apply:
  "memcpy_into dest d src s n a = (if d \<le> a \<and> a < d + n then src (s + (a - d)) else dest a)"
  unfolding memcpy_into_def by (induction n) auto

lemma copy_forward_apply:
  assumes "dest \<le> src \<or> src + n \<le> dest"
  shows "fold (copy_byte dest src) [0..<n] m a =
     (if dest \<le> a \<and> a < dest + n then m (src + (a - dest)) else m a)"
  using assms
proof (induction n arbitrary: a)
  case 0
  then show ?case by auto
next
  case (Suc n)
  then have "dest \<le> src \<or> src + n \<le> dest" by auto
  note IH = Suc.IH [OF this]
  have step: "fold (copy_byte dest src) [0..<Suc n] m =
      copy_byte dest src n (fold (copy_byte dest src) [0..<n] m)"
    by simp
  show ?case
    using Suc.prems unfolding step copy_byte_def [of _ _ n] fun_upd_apply IH by auto
qed

lemma copy_backward_apply:
  assumes "src \<le> dest"
  shows "fold (\<lambda>i. copy_byte dest src (i - 1)) (rev [1..<n + 1]) m a =
     (if dest \<le> a \<and> a < dest + n then m (src + (a - dest)) else m a)"
proof (induction n arbitrary: m a)
  case 0
  show ?case by auto
next
  case (Suc n)
  have step: "fold (\<lambda>i. copy_byte dest src (i - 1)) (rev [1..<Suc n + 1]) m =
      fold (\<lambda>i. copy_byte dest src (i - 1)) (rev [1..<n + 1]) (copy_byte dest src n m)"
    by simp
  show ?case
    using assms unfolding step Suc.IH by (auto simp: copy_byte_def)
qed

lemma memcmp_eq_0_iff:
  "memcmp b1 p b2 q n = 0 \<longleftrightarrow> (\<forall>i<n. b1 (p + i) = b2 (q + i))"
proof (induction n arbitrary: p q)
  case 0
  show ?case by simp
next
  case (Suc n)
  have "(\<forall>i<Suc n. b1 (p + i) = b2 (q + i)) \<longleftrightarrow>
      b1 p = b2 q \<and> (\<forall>i<n. b1 (Suc p + i) = b2 (Suc q + i))"
    by (auto simp: less_Suc_eq_0_disj)
  then show ?case
    by (auto simp: Suc.IH)
qed

lemma memcmp_sign: "memcmp b1 p b2 q n \<in> {-1, 0, 1}"
  by (induction n arbitrary: p q) auto

lemma memcmp_swap: "memcmp b2 q b1 p n = - memcmp b1 p b2 q n"
  by (induction n arbitrary: p q) auto

subsection \<open>NUL-terminated strings\<close>

partial_function (option) strlen_from :: "mem \<Rightarrow> nat \<Rightarrow> nat \<Rightarrow> nat option" where
  "strlen_from m str len =
     (if m (str + len) \<noteq> 0 then strlen_from m str (len + 1) else Some len)"

definition strlen :: "mem \<Rightarrow> nat \<Rightarrow> nat option" where
  "strlen m str = strlen_from m str 0"

text \<open>The assignment loop of \<open>strcpy\<close> tests the byte it has just copied.\<close>

partial_function (option) strcpy :: "mem \<Rightarrow> nat \<Rightarrow> nat \<Rightarrow> mem option" where
  "strcpy m dest src =
     (let c = m src; m' = m(dest := c)
      in if c \<noteq> 0 then strcpy m' (dest + 1) (src + 1) else Some m')"

definition strcat :: "mem \<Rightarrow> nat \<Rightarrow> nat \<Rightarrow> mem option" where
  "strcat m dest src = do {
     len \<leftarrow> strlen_from m dest 0;
     strcpy m (dest + len) src
   }"

definition append :: "mem \<Rightarrow> nat \<Rightarrow> nat \<Rightarrow> nat \<Rightarrow> (int \<times> mem) option" where
  "append m dest src bufsize = do {
     dlen \<leftarrow> strlen m dest;
     slen \<leftarrow> strlen m src;
     if dlen + slen + 1 > bufsize then Some (-1, m)
     else Some (0, memcpy m (dest + dlen) src (slen + 1))
   }"

text \<open>
  \<open>split\<close>: \<open>out\<close> is the list of token addresses written so far, so \<open>count\<close> is its length.
  The null-pointer tests of the code are the caller's.
\<close>

partial_function (option) split_from ::
    "mem \<Rightarrow> u8 \<Rightarrow> nat \<Rightarrow> nat \<Rightarrow> nat list \<Rightarrow> (nat list \<times> mem) option" where
  "split_from m delim max_tokens p out =
     (if m p \<noteq> 0 \<and> length out < max_tokens
      then if m p = delim
        then let m' = m(p := 0)
          in split_from m' delim max_tokens (p + 1)
               (if m' (p + 1) \<noteq> 0 then out @ [p + 1] else out)
        else split_from m delim max_tokens (p + 1) out
      else Some (out, m))"

definition split :: "mem \<Rightarrow> nat \<Rightarrow> u8 \<Rightarrow> nat \<Rightarrow> (nat list \<times> mem) option" where
  "split m str delim max_tokens =
     (if max_tokens = 0 then Some ([], m) else split_from m delim max_tokens str [str])"

text \<open>\<open>cstr m s xs\<close>: the bytes \<open>xs\<close>, none of them NUL, stand at \<open>s\<close> and a NUL follows.\<close>

definition cstr :: "mem \<Rightarrow> nat \<Rightarrow> u8 list \<Rightarrow> bool" where
  "cstr m s xs \<longleftrightarrow> (\<forall>i<length xs. m (s + i) = xs ! i \<and> xs ! i \<noteq> 0) \<and> m (s + length xs) = 0"

lemma cstr_Nil [simp]: "cstr m s [] \<longleftrightarrow> m s = 0"
  by (simp add: cstr_def)

lemma cstr_Cons [simp]: "cstr m s (x # xs) \<longleftrightarrow> m s = x \<and> x \<noteq> 0 \<and> cstr m (Suc s) xs"
  unfolding cstr_def by (auto simp: less_Suc_eq_0_disj)

lemma cstr_cong:
  "(\<And>i. i \<le> length xs \<Longrightarrow> m (s + i) = m' (s' + i)) \<Longrightarrow> cstr m s xs = cstr m' s' xs"
  by (auto simp: cstr_def)

lemma strlen_from_cstr: "cstr m (s + k) xs \<Longrightarrow> strlen_from m s k = Some (k + length xs)"
proof (induction xs arbitrary: k)
  case Nil
  then show ?case by (simp add: strlen_from.simps [of m s k])
next
  case (Cons x xs)
  from Cons.prems have "cstr m (s + (k + 1)) xs" and "m (s + k) \<noteq> 0" by auto
  then show ?case
    using Cons.IH [of "k + 1"] by (simp add: strlen_from.simps [of m s k])
qed

lemma strlen_cstr: "cstr m s xs \<Longrightarrow> strlen m s = Some (length xs)"
  using strlen_from_cstr [of m s 0 xs] by (simp add: strlen_def)

lemma strcpy_cstr:
  assumes "cstr m src xs" and "dest + length xs < src \<or> src + length xs < dest"
  shows "strcpy m dest src = Some (\<lambda>a. if dest \<le> a \<and> a \<le> dest + length xs
           then m (src + (a - dest)) else m a)"
  using assms
proof (induction xs arbitrary: m dest src)
  case Nil
  then show ?case by (subst strcpy.simps) (auto simp: fun_eq_iff)
next
  case (Cons x xs)
  let ?m = "m(dest := m src)"
  have "cstr ?m (src + 1) xs"
    using Cons.prems by (subst cstr_cong [of xs _ _ m "src + 1"]) auto
  moreover have "dest + 1 + length xs < src + 1 \<or> src + 1 + length xs < dest + 1"
    using Cons.prems(2) by auto
  ultimately have "strcpy ?m (dest + 1) (src + 1) =
      Some (\<lambda>a. if dest + 1 \<le> a \<and> a \<le> dest + 1 + length xs
        then ?m (src + 1 + (a - (dest + 1))) else ?m a)"
    by (rule Cons.IH)
  moreover have "strcpy m dest src = strcpy ?m (dest + 1) (src + 1)"
    using Cons.prems(1) by (subst strcpy.simps) simp
  ultimately show ?case
    using Cons.prems(2)
    by (auto simp: fun_eq_iff Suc_le_eq Suc_diff_Suc trans_less_add2)
qed

text \<open>What \<open>append\<close> does on both branches.\<close>

lemma append_success:
  assumes "cstr m dest xs" "cstr m src ys" "length xs + length ys + 1 \<le> bufsize"
  shows "append m dest src bufsize = Some (0, memcpy m (dest + length xs) src (length ys + 1))"
  using assms by (simp add: append_def strlen_cstr)

lemma append_overflow:
  assumes "cstr m dest xs" "cstr m src ys" "bufsize < length xs + length ys + 1"
  shows "append m dest src bufsize = Some (-1, m)"
  using assms by (simp add: append_def strlen_cstr)

lemma cstr_append:
  assumes "cstr m dest xs" "cstr m src ys"
    and apart: "dest + length xs + length ys < src \<or> src + length ys < dest"
  shows "cstr (memcpy m (dest + length xs) src (length ys + 1)) dest (xs @ ys)"
proof -
  have "dest + length xs \<le> src \<or> src + (length ys + 1) \<le> dest + length xs"
    using apart by auto
  note copy = copy_forward_apply [OF this, folded memcpy_def]
  show ?thesis
    using assms(1,2) unfolding cstr_def copy by (auto simp: nth_append not_less dest!: le_Suc_ex)
qed

text \<open>\<open>split\<close> never writes more tokens than \<open>out\<close> can hold, and it returns on a string.\<close>

lemma split_from_bound:
  assumes ret: "split_from m delim k p out = Some r" and "length out \<le> k"
  shows "length (fst r) \<le> k"
proof -
  have "length out \<le> k \<longrightarrow> length (fst r) \<le> k"
  proof (rule split_from.raw_induct
      [where P = "\<lambda>m delim k p out r. length out \<le> k \<longrightarrow> length (fst r) \<le> k", OF _ ret])
    fix f m delim k p out r
    assume IH: "\<And>m delim k p out r. f m delim k p out = Some r \<Longrightarrow>
        length out \<le> k \<longrightarrow> length (fst r) \<le> k"
      and eq: "(if m p \<noteq> 0 \<and> length out < k
        then if m p = delim
          then let m' = m(p := 0)
            in f m' delim k (p + 1) (if m' (p + 1) \<noteq> 0 then out @ [p + 1] else out)
          else f m delim k (p + 1) out
        else Some (out, m)) = Some r"
    show "length out \<le> k \<longrightarrow> length (fst r) \<le> k"
      using eq by (auto simp: Let_def split: if_splits dest!: IH)
  qed
  with assms(2) show ?thesis by simp
qed

lemma split_from_returns: "cstr m p xs \<Longrightarrow> \<exists>r. split_from m delim k p out = Some r"
proof (induction xs arbitrary: m p out)
  case Nil
  then show ?case by (simp add: split_from.simps [of m delim k p out])
next
  case (Cons x xs)
  have "cstr (m(p := 0)) (Suc p) xs"
    using Cons.prems by (subst cstr_cong [of xs _ _ m "Suc p"]) auto
  then show ?case
    using Cons by (auto simp: split_from.simps [of m delim k p out] Let_def)
qed

end
