(* ===== verification/Disk.thy ===== *)
theory Disk
  imports CString
begin

section \<open>Block storage: \<open>drivers/disk.c\<close> and the image of the inserter\<close>

text \<open>
  The file system reaches its storage through \<open>read_blocks\<close> and \<open>write_blocks\<close>. The kernel
  links the ATA driver of \<open>drivers/disk.c\<close>, the build tool \<open>external-inserter.c\<close> links two
  functions of the same names over a 4 MiB image in memory. Both are modelled; the second
  refines the first, and the locale \<open>block_device\<close> states what both promise the file system.
\<close>

definition BLOCK_SIZE :: nat where "BLOCK_SIZE = 512"
definition HALF_BLOCK_SIZE :: nat where "HALF_BLOCK_SIZE = BLOCK_SIZE div 2"

text \<open>The disk has \<open>DISK_SPACE / BLOCK_SIZE\<close> sectors of 512 bytes.\<close>

definition DISK_SPACE :: nat where "DISK_SPACE = 4194304"
definition disk_sectors :: nat where "disk_sectors = DISK_SPACE div BLOCK_SIZE"

type_synonym disk = "u32 \<Rightarrow> mem"

lemmas disk_consts = BLOCK_SIZE_def HALF_BLOCK_SIZE_def DISK_SPACE_def disk_sectors_def

subsection \<open>The ATA driver\<close>

text \<open>
  The registers a command writes, in order: port and byte. The drive addresses the sector by
  the four address registers (28-bit LBA addressing).
\<close>

definition ata_command :: "u32 \<Rightarrow> u8 \<Rightarrow> u8 \<Rightarrow> (u16 \<times> u8) list" where
  "ata_command logical_block_address block_count cmd =
     [(0x1F6, 0xE0 OR ucast (drop_bit 24 logical_block_address AND 0xF)),
      (0x1F2, block_count),
      (0x1F3, ucast logical_block_address),
      (0x1F4, ucast (drop_bit 8 logical_block_address)),
      (0x1F5, ucast (drop_bit 16 logical_block_address)),
      (0x1F7, cmd)]"

definition lba_of_command :: "(u16 \<times> u8) list \<Rightarrow> u32" where
  "lba_of_command rs = of4 (snd (rs ! 2)) (snd (rs ! 3)) (snd (rs ! 4)) (snd (rs ! 0) AND 0xF)"

text \<open>
  One sector comes over the data port as \<open>HALF_BLOCK_SIZE\<close> 16-bit words, low byte first.
  An access past the end of the disk is a fault.
\<close>

definition move_word :: "mem \<Rightarrow> nat \<Rightarrow> nat \<Rightarrow> nat \<Rightarrow> mem \<Rightarrow> mem" where
  "move_word src s d j dst = dst(d + 2 * j := src (s + 2 * j), d + 2 * j + 1 := src (s + 2 * j + 1))"

definition read_sector :: "mem \<Rightarrow> nat \<Rightarrow> mem \<Rightarrow> mem" where
  "read_sector ptr base sector = fold (move_word sector 0 base) [0..<HALF_BLOCK_SIZE] ptr"

definition read_blocks :: "disk \<Rightarrow> mem \<Rightarrow> u32 \<Rightarrow> u8 \<Rightarrow> mem option" where
  "read_blocks d ptr logical_block_address block_count =
     (if unat logical_block_address + unat block_count \<le> disk_sectors
      then Some (fold (\<lambda>i buf. read_sector buf (BLOCK_SIZE * i) (d (logical_block_address + of_nat i)))
             [0..<unat block_count] ptr)
      else None)"

definition write_sector :: "mem \<Rightarrow> nat \<Rightarrow> mem \<Rightarrow> mem" where
  "write_sector ptr base sector = fold (move_word ptr base 0) [0..<HALF_BLOCK_SIZE] sector"

definition write_blocks :: "disk \<Rightarrow> mem \<Rightarrow> u32 \<Rightarrow> u8 \<Rightarrow> disk option" where
  "write_blocks d ptr logical_block_address block_count =
     (if unat logical_block_address + unat block_count \<le> disk_sectors
      then Some (fold (\<lambda>i d. d(logical_block_address + of_nat i :=
               write_sector ptr (BLOCK_SIZE * i) (d (logical_block_address + of_nat i))))
             [0..<unat block_count] d)
      else None)"

lemma lba_of_ata_command: "lba_of_command (ata_command lba cnt cmd) = lba AND 0x0FFFFFFF"
proof (rule bit_word_eqI)
  fix n
  assume "n < LENGTH(32)"
  then have "n < 8 \<or> (8 \<le> n \<and> n < 16) \<or> (16 \<le> n \<and> n < 24) \<or> n = 24 \<or> n = 25 \<or> n = 26 \<or> n = 27
      \<or> n = 28 \<or> n = 29 \<or> n = 30 \<or> n = 31"
    by auto
  moreover have "bit (0x0FFFFFFF :: u32) n \<longleftrightarrow> n < 28"
    using mask_eq_exp_minus_1 [of 28, where 'a = u32] bit_mask_iff [of 28 n, where 'a = u32]
      \<open>n < LENGTH(32)\<close> by simp
  moreover have "bit (0xF :: u8) k \<longleftrightarrow> k < 4" if "k < 8" for k
    using mask_eq_exp_minus_1 [of 4, where 'a = u8] bit_mask_iff [of 4 k, where 'a = u8] that by simp
  moreover have "bit (0xF :: u32) k \<longleftrightarrow> k < 4" if "k < 32" for k
    using mask_eq_exp_minus_1 [of 4, where 'a = u32] bit_mask_iff [of 4 k, where 'a = u32] that by simp
  ultimately show "bit (lba_of_command (ata_command lba cnt cmd)) n \<longleftrightarrow> bit (lba AND 0x0FFFFFFF) n"
    unfolding lba_of_command_def ata_command_def of4_def
    by (elim disjE) (auto simp: bit_simps)
qed


text \<open>The word-by-word transfers move the 512 bytes of the sector and nothing else.\<close>

lemma move_words_apply:
  "fold (move_word src s d) [0..<n] dst a =
     (if d \<le> a \<and> a < d + 2 * n then src (s + (a - d)) else dst a)"
proof (induction n)
  case 0
  show ?case by auto
next
  case (Suc n)
  have step: "fold (move_word src s d) [0..<Suc n] dst =
      move_word src s d n (fold (move_word src s d) [0..<n] dst)"
    by simp
  consider "a = d + 2 * n" | "a = d + 2 * n + 1" | "a < d + 2 * n" | "d + 2 * n + 1 < a"
    by linarith
  then show ?case
    unfolding step move_word_def [of _ _ _ n] fun_upd_apply Suc.IH by cases auto
qed

lemma read_sector_apply:
  "read_sector ptr base sector a =
     (if base \<le> a \<and> a < base + BLOCK_SIZE then sector (a - base) else ptr a)"
  by (simp add: read_sector_def move_words_apply disk_consts)

lemma write_sector_apply:
  "write_sector ptr base sector a = (if a < BLOCK_SIZE then ptr (base + a) else sector a)"
  by (simp add: write_sector_def move_words_apply disk_consts)

text \<open>The single-block transfers the file system uses, in closed form.\<close>

definition overlay :: "mem \<Rightarrow> mem \<Rightarrow> mem" where
  "overlay sector rest = (\<lambda>a. if a < BLOCK_SIZE then sector a else rest a)"

lemma overlay_in [simp]: "a < 512 \<Longrightarrow> overlay sector rest a = sector a"
  by (simp add: overlay_def BLOCK_SIZE_def)

lemma overlay_out [simp]: "512 \<le> a \<Longrightarrow> overlay sector rest a = rest a"
  by (simp add: overlay_def BLOCK_SIZE_def)

lemma overlay_overlay [simp]: "overlay s (overlay s' r) = overlay s r"
  by (simp add: overlay_def fun_eq_iff)

lemma overlay_overlay_left [simp]: "overlay (overlay s r') r = overlay s r"
  by (simp add: overlay_def fun_eq_iff)

lemma overlay_same [simp]: "overlay s s = s"
  by (simp add: overlay_def fun_eq_iff)

lemma read_blocks_1:
  "read_blocks d buf lba 1 = (if unat lba < disk_sectors then Some (overlay (d lba) buf) else None)"
proof -
  have "read_sector buf 0 (d lba) = overlay (d lba) buf"
    by (rule ext) (simp add: read_sector_apply overlay_def)
  then show ?thesis
    by (simp add: read_blocks_def Suc_le_eq)
qed

lemma write_blocks_1:
  "write_blocks d buf lba 1 =
     (if unat lba < disk_sectors then Some (d(lba := overlay buf (d lba))) else None)"
proof -
  have "write_sector buf 0 (d lba) = overlay buf (d lba)"
    by (rule ext) (simp add: write_sector_apply overlay_def)
  then show ?thesis
    by (simp add: write_blocks_def Suc_le_eq)
qed

subsection \<open>The interface of a block device\<close>

text \<open>
  What the file system relies on: a valid block can be read and written, a read fills the first
  512 bytes of the buffer and leaves the rest, a block reads back as it was written, and a write
  changes no other block.
\<close>

locale block_device =
  fixes rd :: "'d \<Rightarrow> mem \<Rightarrow> u32 \<Rightarrow> mem option"
    and wr :: "'d \<Rightarrow> mem \<Rightarrow> u32 \<Rightarrow> 'd option"
    and valid :: "u32 \<Rightarrow> bool"
  assumes rd_valid: "valid b \<Longrightarrow> \<exists>sector. \<forall>buf. rd d buf b = Some (overlay sector buf)"
    and wr_valid: "valid b \<Longrightarrow> \<exists>d'. wr d buf b = Some d'"
    and rd_wr_same: "wr d buf b = Some d' \<Longrightarrow> valid b \<Longrightarrow> rd d' buf' b = Some (overlay buf buf')"
    and rd_wr_other: "wr d buf b = Some d' \<Longrightarrow> valid b \<Longrightarrow> valid b' \<Longrightarrow> b' \<noteq> b \<Longrightarrow>
      rd d' buf' b' = rd d buf' b'"
begin

lemma write_read_back:
  assumes "valid b"
  shows "(wr d buf b \<bind> (\<lambda>d'. rd d' buf' b)) = Some (overlay buf buf')"
  using wr_valid [OF assms, of d buf] rd_wr_same [OF _ assms] by fastforce

lemma last_write_wins:
  assumes "valid b" and "wr d buf b = Some d1" and "wr d1 buf' b = Some d2"
    and "valid b'"
  shows "rd d2 r b' = (if b' = b then Some (overlay buf' r) else rd d r b')"
  using rd_wr_same [OF assms(3,1)] rd_wr_other [OF assms(2,1,4)] rd_wr_other [OF assms(3,1,4)]
  by auto

lemma writes_commute:
  assumes "valid a" "valid b" "a \<noteq> b"
    and "wr d x a = Some d1" "wr d1 y b = Some d2" "wr d y b = Some e1" "wr e1 x a = Some e2"
    and "valid c"
  shows "rd d2 r c = rd e2 r c"
proof -
  have "rd d2 r c = (if c = b then Some (overlay y r) else if c = a then Some (overlay x r) else rd d r c)"
    using assms rd_wr_same [OF assms(5,2)] rd_wr_other [OF assms(5,2,8)]
      rd_wr_same [OF assms(4,1)] rd_wr_other [OF assms(4,1,8)] by auto
  moreover have "rd e2 r c = (if c = a then Some (overlay x r) else if c = b then Some (overlay y r) else rd d r c)"
    using assms rd_wr_same [OF assms(7,1)] rd_wr_other [OF assms(7,1,8)]
      rd_wr_same [OF assms(6,2)] rd_wr_other [OF assms(6,2,8)] by auto
  ultimately show ?thesis using assms(3) by simp
qed

lemma write_back:
  assumes "valid b" "valid b'" "rd d buf b = Some m" "wr d m b = Some d'"
  shows "rd d' r b' = rd d r b'"
proof (cases "b' = b")
  case True
  obtain sector where "\<forall>buf. rd d buf b = Some (overlay sector buf)"
    using rd_valid [OF assms(1)] by blast
  with assms(3) have "m = overlay sector buf" and "rd d r b = Some (overlay sector r)" by auto
  then show ?thesis
    using rd_wr_same [OF assms(4,1)] True by simp
next
  case False
  then show ?thesis using rd_wr_other [OF assms(4,1,2)] by simp
qed

end

definition on_disk :: "u32 \<Rightarrow> bool" where
  "on_disk b \<longleftrightarrow> unat b < disk_sectors"

interpretation ata: block_device "\<lambda>d buf b. read_blocks d buf b 1" "\<lambda>d buf b. write_blocks d buf b 1" on_disk
proof (unfold_locales, goal_cases)
  case (1 b d)
  then show ?case by (auto simp: on_disk_def read_blocks_1)
next
  case (2 b d buf)
  then show ?case by (simp add: on_disk_def write_blocks_1)
next
  case (3 d buf b d' buf')
  then show ?case by (auto simp: on_disk_def read_blocks_1 write_blocks_1)
next
  case (4 d buf b d' b' buf')
  then show ?case by (auto simp: on_disk_def read_blocks_1 write_blocks_1)
qed

subsection \<open>The image of \<open>external-inserter.c\<close>\<close>

text \<open>
  The inserter keeps the whole disk as one byte array \<open>image_storage\<close>; its offsets are
  computed in 32-bit unsigned arithmetic.
\<close>

definition inserter_offset :: "u32 \<Rightarrow> nat \<Rightarrow> nat" where
  "inserter_offset logical_block_address i = unat (512 * (logical_block_address + of_nat i))"

definition inserter_read_blocks :: "mem \<Rightarrow> mem \<Rightarrow> u32 \<Rightarrow> u8 \<Rightarrow> mem" where
  "inserter_read_blocks image_storage ptr logical_block_address block_count =
     fold (\<lambda>i ptr. memcpy_into ptr (BLOCK_SIZE * i) image_storage
               (inserter_offset logical_block_address i) BLOCK_SIZE)
       [0..<unat block_count] ptr"

definition inserter_write_blocks :: "mem \<Rightarrow> mem \<Rightarrow> u32 \<Rightarrow> u8 \<Rightarrow> mem" where
  "inserter_write_blocks image_storage ptr logical_block_address block_count =
     fold (\<lambda>i image. memcpy_into image (inserter_offset logical_block_address i) ptr (BLOCK_SIZE * i) BLOCK_SIZE)
       [0..<unat block_count] image_storage"

text \<open>The image of a disk: its sectors one after the other.\<close>

definition image_of :: "disk \<Rightarrow> mem" where
  "image_of d = (\<lambda>a. d (of_nat (a div BLOCK_SIZE)) (a mod BLOCK_SIZE))"

lemma inserter_offset_eq:
  assumes "unat lba + i < disk_sectors"
  shows "inserter_offset lba i = 512 * (unat lba + i)"
proof -
  have "lba + of_nat i = of_nat (unat lba + i)" by simp
  then have "512 * (lba + of_nat i) = of_nat (512 * (unat lba + i))"
    by (metis of_nat_mult of_nat_numeral)
  then have "inserter_offset lba i = unat (of_nat (512 * (unat lba + i)) :: u32)"
    unfolding inserter_offset_def by (rule arg_cong)
  also have "\<dots> = 512 * (unat lba + i)"
    using assms by (intro unat_of_nat_u32) (simp add: disk_consts)
  finally show ?thesis .
qed

lemma memcpy_into_image:
  assumes "unat lba + i < disk_sectors"
  shows "memcpy_into ptr (BLOCK_SIZE * i) (image_of d) (inserter_offset lba i) BLOCK_SIZE =
    read_sector ptr (BLOCK_SIZE * i) (d (lba + of_nat i))"
proof (rule ext)
  fix a
  note unfolds = memcpy_into_apply read_sector_apply inserter_offset_eq [OF assms] BLOCK_SIZE_def
  show "memcpy_into ptr (BLOCK_SIZE * i) (image_of d) (inserter_offset lba i) BLOCK_SIZE a =
      read_sector ptr (BLOCK_SIZE * i) (d (lba + of_nat i)) a"
  proof (cases "512 * i \<le> a \<and> a < 512 * i + 512")
    case True
    then obtain k where k: "a = 512 * i + k" "k < 512"
      by (metis le_Suc_ex nat_add_left_cancel_less)
    then show ?thesis
      by (simp add: unfolds image_of_def mult_add_mod mult_add_div
          distrib_left [symmetric] del: distrib_left_numeral)
  next
    case False
    then show ?thesis by (auto simp: unfolds)
  qed
qed

lemma inserter_read_refines:
  assumes "unat lba + unat cnt \<le> disk_sectors"
  shows "read_blocks d ptr lba cnt = Some (inserter_read_blocks (image_of d) ptr lba cnt)"
proof -
  have "fold (\<lambda>i buf. read_sector buf (BLOCK_SIZE * i) (d (lba + of_nat i))) [0..<unat cnt] ptr =
      fold (\<lambda>i ptr. memcpy_into ptr (BLOCK_SIZE * i) (image_of d) (inserter_offset lba i) BLOCK_SIZE)
        [0..<unat cnt] ptr"
    using assms by (intro fold_cong) (auto simp: memcpy_into_image)
  with assms show ?thesis
    by (simp add: read_blocks_def inserter_read_blocks_def)
qed

lemma image_of_update:
  assumes "unat lba + i < disk_sectors" and "a < DISK_SPACE"
  shows "image_of (d(lba + of_nat i := write_sector ptr (BLOCK_SIZE * i) (d (lba + of_nat i)))) a =
    memcpy_into (image_of d) (inserter_offset lba i) ptr (BLOCK_SIZE * i) BLOCK_SIZE a"
proof -
  have lba: "lba + of_nat i = of_nat (unat lba + i)" by simp
  have "of_nat (a div 512) = (of_nat (unat lba + i) :: u32) \<longleftrightarrow> a div 512 = unat lba + i"
    using assms by (intro of_nat_u32_eq_iff) (auto simp: disk_consts)
  moreover have "a div 512 = unat lba + i \<longleftrightarrow> 512 * (unat lba + i) \<le> a \<and> a < 512 * (unat lba + i) + 512"
    by auto
  ultimately show ?thesis
    unfolding lba
    by (auto simp: memcpy_into_apply write_sector_apply image_of_def BLOCK_SIZE_def
        inserter_offset_eq [OF assms(1)] minus_mult_div_eq_mod [symmetric] simp del: of_nat_add)
qed

lemma inserter_write_refines:
  assumes "unat lba + unat cnt \<le> disk_sectors" and a: "a < DISK_SPACE"
    and d': "write_blocks d ptr lba cnt = Some d'"
  shows "image_of d' a = inserter_write_blocks (image_of d) ptr lba cnt a"
proof -
  define f where "f = (\<lambda>i d. d(lba + of_nat i :=
      write_sector ptr (BLOCK_SIZE * i) (d (lba + of_nat i))))"
  define g where "g = (\<lambda>i image.
      memcpy_into image (inserter_offset lba i) ptr (BLOCK_SIZE * i) BLOCK_SIZE)"
  have g_cong: "I a = J a \<Longrightarrow> g n I a = g n J a" for n I J
    by (simp add: g_def memcpy_into_apply)
  have step: "image_of (f n D) a = g n (image_of D) a" if "unat lba + n < disk_sectors" for n D
    unfolding f_def g_def using image_of_update [OF that a] .
  have "image_of (fold f [0..<n] d) a = fold g [0..<n] (image_of d) a" if "n \<le> unat cnt" for n
    using that
  proof (induction n)
    case 0
    show ?case by simp
  next
    case (Suc n)
    then have "unat lba + n < disk_sectors" using assms(1) by simp
    with Suc show ?case by (simp add: step cong: g_cong)
  qed
  with assms show ?thesis
    by (simp add: write_blocks_def inserter_write_blocks_def f_def [symmetric] g_def [symmetric]
        split: if_splits) (metis order_refl)
qed

end
