(* ===== verification/Ext2_Layout.thy ===== *)
theory Ext2_Layout
  imports Disk
begin

section \<open>The on-disk structures of the file system\<close>

text \<open>
  The constants and packed structures of \<open>header/filesystem/ext2.h\<close>, their bytes, and the
  small routines of \<open>filesystem/ext2.c\<close> that compute on them. Each structure is a record with
  an encoder into its packed bytes and a decoder from a memory area; the round trips are what
  makes a value that was written to a block the value that is read from it.
\<close>

subsection \<open>Constants\<close>

definition EXT2_S_IFREG :: u16 where "EXT2_S_IFREG = 0x8000"
definition EXT2_S_IFDIR :: u16 where "EXT2_S_IFDIR = 0x4000"
definition EXT2_FT_REG_FILE :: u8 where "EXT2_FT_REG_FILE = 1"
definition EXT2_FT_DIR :: u8 where "EXT2_FT_DIR = 2"
definition EXT2_SUPER_MAGIC :: u16 where "EXT2_SUPER_MAGIC = 0xEF53"

text \<open>Sizes of the packed structures.\<close>

definition sizeof_superblock :: nat where "sizeof_superblock = 44"
definition sizeof_bgd :: nat where "sizeof_bgd = 32"
definition sizeof_inode :: nat where "sizeof_inode = 70"
definition sizeof_dirent :: nat where "sizeof_dirent = 9"

text \<open>
  The macro \<open>GROUPS_COUNT\<close> has no outer parentheses, so in \<open>BLOCKS_PER_GROUP\<close> its text
  \<open>(BLOCK_SIZE / sizeof(...)) / 2u\<close> divides twice: a group has 256 blocks, not the
  \<open>8192 / 8\<close> that would cover the disk.
\<close>

definition INODES_PER_TABLE :: nat where "INODES_PER_TABLE = BLOCK_SIZE div sizeof_inode"
definition GROUPS_COUNT :: nat where "GROUPS_COUNT = (BLOCK_SIZE div sizeof_bgd) div 2"
definition BLOCKS_PER_GROUP :: nat where
  "BLOCKS_PER_GROUP = DISK_SPACE div BLOCK_SIZE div (BLOCK_SIZE div sizeof_bgd) div 2"
definition INODES_TABLE_BLOCK_COUNT :: nat where "INODES_TABLE_BLOCK_COUNT = 16"
definition INODES_PER_GROUP :: nat where
  "INODES_PER_GROUP = INODES_PER_TABLE * INODES_TABLE_BLOCK_COUNT"

lemma ext2_consts [simp]:
  "BLOCK_SIZE = 512" "disk_sectors = 8192" "DISK_SPACE = 4194304"
  "sizeof_superblock = 44" "sizeof_bgd = 32" "sizeof_inode = 70" "sizeof_dirent = 9"
  "INODES_PER_TABLE = 7" "GROUPS_COUNT = 8" "BLOCKS_PER_GROUP = 256"
  "INODES_TABLE_BLOCK_COUNT = 16" "INODES_PER_GROUP = 112"
  by (simp_all add: disk_consts sizeof_superblock_def sizeof_bgd_def sizeof_inode_def
      sizeof_dirent_def INODES_PER_TABLE_def GROUPS_COUNT_def BLOCKS_PER_GROUP_def
      INODES_TABLE_BLOCK_COUNT_def INODES_PER_GROUP_def)

lemmas mode_consts = EXT2_S_IFREG_def EXT2_S_IFDIR_def EXT2_FT_REG_FILE_def EXT2_FT_DIR_def

subsection \<open>Superblock\<close>

record superblock =
  s_inodes_count :: u32
  s_blocks_count :: u32
  s_r_blocks_count :: u32
  s_free_blocks_count :: u32
  s_free_inodes_count :: u32
  s_first_data_block :: u32
  s_first_ino :: u32
  s_blocks_per_group :: u32
  s_frags_per_group :: u32
  s_inodes_per_group :: u32
  s_magic :: u16
  s_prealloc_blocks :: u8
  s_prealloc_dir_blocks :: u8

definition enc_superblock :: "superblock \<Rightarrow> u8 list" where
  "enc_superblock sb =
     b32 (s_inodes_count sb) @ b32 (s_blocks_count sb) @ b32 (s_r_blocks_count sb) @
     b32 (s_free_blocks_count sb) @ b32 (s_free_inodes_count sb) @ b32 (s_first_data_block sb) @
     b32 (s_first_ino sb) @ b32 (s_blocks_per_group sb) @ b32 (s_frags_per_group sb) @
     b32 (s_inodes_per_group sb) @ b16 (s_magic sb) @
     [s_prealloc_blocks sb, s_prealloc_dir_blocks sb]"

definition dec_superblock :: "mem \<Rightarrow> superblock" where
  "dec_superblock m =
     \<lparr> s_inodes_count = get32 m 0, s_blocks_count = get32 m 4, s_r_blocks_count = get32 m 8,
       s_free_blocks_count = get32 m 12, s_free_inodes_count = get32 m 16,
       s_first_data_block = get32 m 20, s_first_ino = get32 m 24, s_blocks_per_group = get32 m 28,
       s_frags_per_group = get32 m 32, s_inodes_per_group = get32 m 36, s_magic = get16 m 40,
       s_prealloc_blocks = m 42, s_prealloc_dir_blocks = m 43 \<rparr>"

lemma length_enc_superblock [simp]: "length (enc_superblock sb) = 44"
  by (simp add: enc_superblock_def)

lemma superblock_roundtrip: "dec_superblock (blit m 0 (enc_superblock sb)) = sb"
  by (simp add: dec_superblock_def get32_blit_inside get16_blit_inside blit_inside)
    (simp add: enc_superblock_def b32_def b16_def)

lemma dec_superblock_cong: "(\<And>k. k < 44 \<Longrightarrow> m k = m' k) \<Longrightarrow> dec_superblock m = dec_superblock m'"
  by (simp add: dec_superblock_def get32_def get16_def)

subsection \<open>Block group descriptors\<close>

record bgd =
  bg_block_bitmap :: u32
  bg_inode_bitmap :: u32
  bg_inode_table :: u32
  bg_free_blocks_count :: u16
  bg_free_inodes_count :: u16
  bg_used_dirs_count :: u16
  bg_pad :: u16
  bg_reserved :: "u32 \<times> u32 \<times> u32"

definition enc_bgd :: "bgd \<Rightarrow> u8 list" where
  "enc_bgd d =
     b32 (bg_block_bitmap d) @ b32 (bg_inode_bitmap d) @ b32 (bg_inode_table d) @
     b16 (bg_free_blocks_count d) @ b16 (bg_free_inodes_count d) @ b16 (bg_used_dirs_count d) @
     b16 (bg_pad d) @
     b32 (fst (bg_reserved d)) @ b32 (fst (snd (bg_reserved d))) @ b32 (snd (snd (bg_reserved d)))"

definition dec_bgd :: "mem \<Rightarrow> nat \<Rightarrow> bgd" where
  "dec_bgd m i =
     \<lparr> bg_block_bitmap = get32 m i, bg_inode_bitmap = get32 m (i + 4),
       bg_inode_table = get32 m (i + 8), bg_free_blocks_count = get16 m (i + 12),
       bg_free_inodes_count = get16 m (i + 14), bg_used_dirs_count = get16 m (i + 16),
       bg_pad = get16 m (i + 18),
       bg_reserved = (get32 m (i + 20), get32 m (i + 24), get32 m (i + 28)) \<rparr>"

lemma length_enc_bgd [simp]: "length (enc_bgd d) = 32"
  by (simp add: enc_bgd_def)

lemma bgd_roundtrip: "dec_bgd (blit m i (enc_bgd d)) i = d"
  by (simp add: dec_bgd_def get32_blit_inside get16_blit_inside)
    (simp add: enc_bgd_def b32_def b16_def)

lemma dec_bgd_cong:
  assumes "\<And>k. k < 32 \<Longrightarrow> m (i + k) = m' (j + k)"
  shows "dec_bgd m i = dec_bgd m' j"
proof -
  note f32 = get32_field_cong [of 32 m i m' j, OF assms] and f16 = get16_field_cong [of 32 m i m' j, OF assms]
  show ?thesis
    using f32 [of 0] f32 [of 4] f32 [of 8] f16 [of 12] f16 [of 14] f16 [of 16] f16 [of 18]
      f32 [of 20] f32 [of 24] f32 [of 28]
    by (simp add: dec_bgd_def)
qed

subsection \<open>The block group descriptor table\<close>

text \<open>The table is an array of \<open>GROUPS_COUNT\<close> descriptors, stored one after the other.\<close>

definition enc_bgdt :: "bgd list \<Rightarrow> u8 list" where
  "enc_bgdt table = concat (map enc_bgd table)"

definition dec_bgdt :: "mem \<Rightarrow> bgd list" where
  "dec_bgdt m = map (\<lambda>i. dec_bgd m (sizeof_bgd * i)) [0..<GROUPS_COUNT]"

lemma length_enc_bgdt [simp]: "length (enc_bgdt table) = 32 * length table"
  by (simp add: enc_bgdt_def length_concat_fixed)

lemma length_dec_bgdt [simp]: "length (dec_bgdt m) = 8"
  by (simp add: dec_bgdt_def)

lemma dec_bgd_in_table:
  assumes "k < length table"
  shows "dec_bgd (blit m 0 (enc_bgdt table)) (32 * k) = table ! k"
proof -
  have "dec_bgd (blit m 0 (enc_bgdt table)) (32 * k) = dec_bgd (blit m (32 * k) (enc_bgd (table ! k))) (32 * k)"
  proof (rule dec_bgd_cong)
    fix j :: nat
    assume j: "j < 32"
    have "32 * k + 32 \<le> 32 * length table" using assms by simp
    with j show "blit m 0 (enc_bgdt table) (32 * k + j) = blit m (32 * k) (enc_bgd (table ! k)) (32 * k + j)"
      by (simp add: blit_inside) (simp add: enc_bgdt_def concat_fixed_nth [where n = 32] assms)
  qed
  then show ?thesis by (simp add: bgd_roundtrip)
qed

lemma bgdt_roundtrip: "length table = 8 \<Longrightarrow> dec_bgdt (blit m 0 (enc_bgdt table)) = table"
  by (rule nth_equalityI) (simp_all add: dec_bgdt_def dec_bgd_in_table)

lemma dec_bgdt_cong: "(\<And>k. k < 256 \<Longrightarrow> m k = m' k) \<Longrightarrow> dec_bgdt m = dec_bgdt m'"
  by (auto simp: dec_bgdt_def intro!: dec_bgd_cong)

subsection \<open>Inodes\<close>

record inode =
  i_mode :: u16
  i_size :: u32
  i_blocks :: u32
  i_block :: "u32 list"

definition enc_inode :: "inode \<Rightarrow> u8 list" where
  "enc_inode nd = b16 (i_mode nd) @ b32 (i_size nd) @ b32 (i_blocks nd) @ concat (map b32 (i_block nd))"

definition dec_inode :: "mem \<Rightarrow> nat \<Rightarrow> inode" where
  "dec_inode m i =
     \<lparr> i_mode = get16 m i, i_size = get32 m (i + 2), i_blocks = get32 m (i + 6),
       i_block = map (\<lambda>k. get32 m (i + 10 + 4 * k)) [0..<15] \<rparr>"

lemma length_enc_inode [simp]: "length (i_block nd) = 15 \<Longrightarrow> length (enc_inode nd) = 70"
  by (simp add: enc_inode_def length_concat_fixed)

lemma length_i_block_dec [simp]: "length (i_block (dec_inode m i)) = 15"
  by (simp add: dec_inode_def)

lemma dec_inode_cong:
  assumes "\<And>k. k < 70 \<Longrightarrow> m (i + k) = m' (j + k)"
  shows "dec_inode m i = dec_inode m' j"
proof -
  note f32 = get32_field_cong [of 70 m i m' j, OF assms] and f16 = get16_field_cong [of 70 m i m' j, OF assms]
  have "get32 m (i + 10 + 4 * k) = get32 m' (j + 10 + 4 * k)" if "k < 15" for k
    using f32 [of "10 + 4 * k"] that by (simp add: add.assoc)
  then show ?thesis
    using f16 [of 0] f32 [of 2] f32 [of 6] by (simp add: dec_inode_def)
qed

lemma get32_blit_words:
  assumes "k < length vs"
  shows "get32 (blit m off (concat (map b32 vs))) (off + 4 * k) = vs ! k"
proof -
  have "4 * k + 4 \<le> 4 * length vs" using assms by simp
  moreover have "concat (map b32 vs) ! (4 * k + j) = b32 (vs ! k) ! j" if "j < 4" for j
    using that assms by (intro concat_fixed_nth) auto
  note this [of 0] this [of 1] this [of 2] this [of 3]
  ultimately show ?thesis
    by (simp add: get32_blit_inside length_concat_fixed) (simp add: b32_def numeral_2_eq_2 numeral_3_eq_3)
qed

lemma blit_append: "blit m off (xs @ ys) = blit (blit m off xs) (off + length xs) ys"
  by (rule ext) (auto simp: blit_def nth_append)

lemma inode_roundtrip:
  assumes "length (i_block nd) = 15"
  shows "dec_inode (blit m i (enc_inode nd)) i = nd"
proof -
  let ?m = "blit (blit (blit m i (b16 (i_mode nd))) (i + 2) (b32 (i_size nd))) (i + 6) (b32 (i_blocks nd))"
  let ?b = "blit ?m (i + 10) (concat (map b32 (i_block nd)))"
  have b: "blit m i (enc_inode nd) = ?b"
    by (simp add: enc_inode_def blit_append add.commute [of _ i])
  have "map (\<lambda>k. get32 ?b (i + 10 + 4 * k)) [0..<15] = i_block nd"
    using assms by (intro nth_equalityI) (auto simp: get32_blit_words)
  then show ?thesis
    by (simp add: dec_inode_def b mem_simps)
qed

text \<open>
  An inode table block holds \<open>INODES_PER_TABLE\<close> inodes; \<open>local % INODES_PER_TABLE\<close> selects one.
\<close>

definition inode_at :: "mem \<Rightarrow> nat \<Rightarrow> inode" where
  "inode_at buf k = dec_inode buf (sizeof_inode * k)"

definition put_inode :: "mem \<Rightarrow> nat \<Rightarrow> inode \<Rightarrow> mem" where
  "put_inode buf k nd = blit buf (sizeof_inode * k) (enc_inode nd)"

lemma length_i_block_inode_at [simp]: "length (i_block (inode_at buf k)) = 15"
  by (simp add: inode_at_def)

lemma inode_at_put_same: "length (i_block nd) = 15 \<Longrightarrow> inode_at (put_inode buf k nd) k = nd"
  by (simp add: inode_at_def put_inode_def inode_roundtrip)

lemma inode_at_put_other:
  assumes "length (i_block nd) = 15" and "j \<noteq> k"
  shows "inode_at (put_inode buf k nd) j = inode_at buf j"
proof -
  have "70 * j + 70 \<le> 70 * k \<or> 70 * k + 70 \<le> 70 * j" using assms(2) by auto
  then have "blit buf (70 * k) (enc_inode nd) (70 * j + c) = buf (70 * j + c)" if "c < 70" for c
    using assms(1) that by (intro blit_outside) auto
  then show ?thesis
    unfolding inode_at_def put_inode_def ext2_consts by (intro dec_inode_cong) blast
qed

lemma inode_at_cong: "k < 7 \<Longrightarrow> (\<And>a. a < 512 \<Longrightarrow> m a = m' a) \<Longrightarrow> inode_at m k = inode_at m' k"
  unfolding inode_at_def by (intro dec_inode_cong) simp

lemma put_inode_apply_cong: "m a = m' a \<Longrightarrow> put_inode m k nd a = put_inode m' k nd a"
  by (simp add: put_inode_def blit_def)

subsection \<open>Inode numbers\<close>

text \<open>Inode numbers start at 1; a number names a group and a place in its inode table.\<close>

definition inode_to_bgd :: "u32 \<Rightarrow> u32" where
  "inode_to_bgd inode = (if inode = 0 then 0 else (inode - 1) div of_nat INODES_PER_GROUP)"

definition inode_to_local :: "u32 \<Rightarrow> u32" where
  "inode_to_local inode = (if inode = 0 then 0 else (inode - 1) mod of_nat INODES_PER_GROUP)"

lemma unat_minus_one_u32: "(x :: u32) \<noteq> 0 \<Longrightarrow> unat (x - 1) = unat x - 1"
  by (metis unat_minus_one)

lemma unat_inode_to_bgd: "unat (inode_to_bgd i) = (unat i - 1) div 112"
  by (simp add: inode_to_bgd_def unat_div unat_minus_one_u32)

lemma unat_inode_to_local: "unat (inode_to_local i) = (unat i - 1) mod 112"
  by (simp add: inode_to_local_def unat_mod unat_minus_one_u32)

lemma inode_to_local_less: "unat (inode_to_local i) < 112"
  by (simp add: unat_inode_to_local)

lemma inode_to_bgd_less: "unat i \<le> 896 \<Longrightarrow> unat (inode_to_bgd i) < 8"
  by (simp add: unat_inode_to_bgd)

text \<open>The pair is a coordinate: it determines the inode number.\<close>

lemma inode_number: "i \<noteq> 0 \<Longrightarrow> unat i = unat (inode_to_bgd i) * 112 + unat (inode_to_local i) + 1"
  using unat_gt_0 [of i] by (simp add: unat_inode_to_bgd unat_inode_to_local)

lemma inode_number_inj:
  assumes "i \<noteq> 0" "j \<noteq> 0" "inode_to_bgd i = inode_to_bgd j" "inode_to_local i = inode_to_local j"
  shows "i = j"
  using assms inode_number [of i] inode_number [of j] by (simp add: word_unat_eq_iff)

subsection \<open>Directory entries\<close>

text \<open>
  A directory block is a chain of records: this 9-byte header, the name right after it, and
  the next record \<open>rec_len\<close> bytes from the start of this one.
\<close>

record dirent =
  de_inode :: u32
  rec_len :: u16
  de_name_len :: u16
  file_type :: u8

definition get_directory_entry :: "mem \<Rightarrow> nat \<Rightarrow> dirent" where
  "get_directory_entry ptr offset =
     \<lparr> de_inode = get32 ptr offset, rec_len = get16 ptr (offset + 4),
       de_name_len = get16 ptr (offset + 6), file_type = ptr (offset + 8) \<rparr>"

definition put_directory_entry :: "mem \<Rightarrow> nat \<Rightarrow> dirent \<Rightarrow> mem" where
  "put_directory_entry ptr offset e =
     blit ptr offset (b32 (de_inode e) @ b16 (rec_len e) @ b16 (de_name_len e) @ [file_type e])"

text \<open>The name stands right after the header; the next entry \<open>rec_len\<close> bytes further.\<close>

definition get_entry_name :: "nat \<Rightarrow> nat" where
  "get_entry_name entry = entry + sizeof_dirent"

definition get_next_directory_entry :: "mem \<Rightarrow> nat \<Rightarrow> nat" where
  "get_next_directory_entry ptr entry = entry + unat (rec_len (get_directory_entry ptr entry))"

definition get_entry_record_len :: "u8 \<Rightarrow> u16" where
  "get_entry_record_len name_len =
     (let size = of_nat sizeof_dirent + ucast name_len;
          rec_len = (size + 3) AND NOT 3
      in if rec_len = 0 then of_nat BLOCK_SIZE else rec_len)"

definition get_dir_first_child_offset :: "mem \<Rightarrow> nat \<Rightarrow> u32" where
  "get_dir_first_child_offset ptr entry =
     (let offset = ucast (rec_len (get_directory_entry ptr entry));
          entry' = get_next_directory_entry ptr entry
      in offset + ucast (rec_len (get_directory_entry ptr entry')))"

lemma dirent_roundtrip: "get_directory_entry (put_directory_entry m off e) off = e"
  by (simp add: get_directory_entry_def put_directory_entry_def get32_blit_inside
      get16_blit_inside blit_inside) (simp add: b32_def b16_def)

lemma dirent_other:
  "off' + 9 \<le> off \<or> off + 9 \<le> off' \<Longrightarrow>
    get_directory_entry (put_directory_entry m off e) off' = get_directory_entry m off'"
  by (auto simp: get_directory_entry_def put_directory_entry_def mem_simps blit_outside)

lemma get_directory_entry_cong:
  assumes "\<And>k. k < 9 \<Longrightarrow> m (i + k) = m' (j + k)"
  shows "get_directory_entry m i = get_directory_entry m' j"
proof -
  note f32 = get32_field_cong [of 9 m i m' j, OF assms] and f16 = get16_field_cong [of 9 m i m' j, OF assms]
  show ?thesis
    using f32 [of 0] f16 [of 4] f16 [of 6] assms [of 8] by (simp add: get_directory_entry_def)
qed

lemma align4: "unat (x AND NOT 3 :: u16) = unat x div 4 * 4"
proof -
  have "x AND NOT 3 = push_bit 2 (drop_bit 2 x)"
  proof (rule bit_word_eqI)
    fix n
    assume "n < LENGTH(16)"
    have "bit (3 :: u16) n \<longleftrightarrow> n < 2"
      using mask_eq_exp_minus_1 [of 2, where 'a = u16] bit_mask_iff [of 2 n, where 'a = u16]
        \<open>n < LENGTH(16)\<close> by simp
    then show "bit (x AND NOT 3) n \<longleftrightarrow> bit (push_bit 2 (drop_bit 2 x)) n"
      using \<open>n < LENGTH(16)\<close> by (auto simp: bit_simps not_less dest: le_Suc_ex)
  qed
  moreover have "unat (push_bit 2 (drop_bit 2 x)) = unat x div 4 * 4"
    using unsigned_less [of x, where 'a = nat] div_times_less_eq_dividend [of "unat x" 4]
    by (simp add: push_bit_eq_mult drop_bit_eq_div unat_word_ariths unat_div)
  ultimately show ?thesis by simp
qed

lemma unat_get_entry_record_len: "unat (get_entry_record_len n) = (unat n + 12) div 4 * 4"
proof -
  have n: "unat n < 256" by (rule unat_u8_less)
  let ?size = "(9 + ucast n + 3 :: u16)"
  have size: "unat ?size = unat n + 12"
    using n by (simp add: unat_word_ariths)
  then have len: "unat (?size AND NOT 3) = (unat n + 12) div 4 * 4"
    by (simp only: align4)
  have "unat (?size AND NOT 3) \<noteq> 0"
    unfolding len by simp
  then have "?size AND NOT 3 \<noteq> 0" by auto
  with len show ?thesis
    by (simp add: get_entry_record_len_def Let_def)
qed

lemma record_len_fits: "unat n + 9 \<le> unat (get_entry_record_len n)"
  and record_len_tight: "unat (get_entry_record_len n) \<le> unat n + 12"
  and record_len_aligned: "4 dvd unat (get_entry_record_len n)"
  and record_len_pos: "12 \<le> unat (get_entry_record_len n)"
  unfolding unat_get_entry_record_len by presburger+

end
