(* ===== verification/Base_Theorems.thy ===== *)
theory Base_Theorems
  imports Ext2_Layout
begin

section \<open>Properties of the C library, the block storage and the on-disk structures\<close>

text \<open>
  Strings and memory areas of \<open>lib/string.c\<close>, the two implementations of the block storage, and
  the packed structures of \<open>ext2.h\<close>.
\<close>

subsection \<open>Memory and strings\<close>

text \<open>\<open>memmove\<close> copies the source as it was, however the two areas overlap, and nothing else.\<close>
theorem memmove_overlapping:
  "memmove m dest src n a = (if dest \<le> a \<and> a < dest + n then m (src + (a - dest)) else m a)"
proof (cases "dest < src")
  case True
  then show ?thesis unfolding memmove_def by (simp only: if_True) (rule copy_forward_apply, simp)
next
  case False
  then show ?thesis unfolding memmove_def by (simp only: if_False) (rule copy_backward_apply, simp)
qed

text \<open>
  \<open>memcmp\<close> orders areas: it is 0 exactly when the bytes agree, swapping the areas negates it,
  and it returns only -1, 0 and 1.
\<close>
theorem memcmp_order:
  "(memcmp b1 p b2 q n = 0) = (\<forall>i<n. b1 (p + i) = b2 (q + i))
    \<and> memcmp b2 q b1 p n = - memcmp b1 p b2 q n \<and> memcmp b1 p b2 q n \<in> {-1, 0, 1}"
  using memcmp_eq_0_iff [of b1 p b2 q n] memcmp_swap [of b2 q b1 p n] memcmp_sign [of b1 p b2 q n] by simp

lemma memcmp_order_witness:
  "(memcmp (\<lambda>i. of_nat i) 3 (\<lambda>i. of_nat (i + 1)) 2 4 = 0) = (\<forall>i<4. (of_nat (3 + i) :: u8) = of_nat (2 + i + 1))
    \<and> memcmp (\<lambda>i. of_nat (i + 1)) 2 (\<lambda>i. of_nat i) 3 4 = - memcmp (\<lambda>i. of_nat i) 3 (\<lambda>i. of_nat (i + 1)) 2 4
    \<and> memcmp (\<lambda>i. of_nat i) 3 (\<lambda>i. of_nat (i + 1)) 2 4 \<in> {-1, 0, 1}"
  by (rule memcmp_order)

text \<open>
  \<open>strcat\<close> returns and leaves the concatenation at \<open>dest\<close>; it writes only the bytes of the
  second string and its NUL behind the first.
\<close>
theorem strcat_concatenates:
  assumes "cstr m dest xs" "cstr m src ys" "dest + length xs + length ys < src \<or> src + length ys < dest"
  shows "ok (strcat m dest src) (\<lambda>m'. cstr m' dest (xs @ ys) \<and>
    (\<forall>a. a < dest + length xs \<or> dest + length xs + length ys < a \<longrightarrow> m' a = m a))"
proof -
  have len: "strlen_from m dest 0 = Some (length xs)" using strlen_from_cstr [of m dest 0 xs] assms(1) by simp
  have "dest + length xs + length ys < src \<or> src + length ys < dest + length xs" using assms(3) by auto
  note copy = strcpy_cstr [OF assms(2) this]
  have "cstr (\<lambda>a. if dest + length xs \<le> a \<and> a \<le> dest + length xs + length ys
      then m (src + (a - (dest + length xs))) else m a) dest (xs @ ys)"
    using assms(1,2) unfolding cstr_def by (auto simp: nth_append not_less dest!: le_Suc_ex)
  then show ?thesis by (simp add: strcat_def len copy)
qed

text \<open>Two strings in one memory: \<open>/\<close> at 0 and \<open>ab\<close> at 16.\<close>

definition two_strings :: mem where
  "two_strings = (\<lambda>_. 0)(0 := 0x2F, 16 := 0x61, 17 := 0x62)"

lemma two_strings: "cstr two_strings 0 [0x2F]" "cstr two_strings 16 [0x61, 0x62]"
  by (simp_all add: two_strings_def)

lemma strcat_concatenates_witness:
  "ok (strcat two_strings 0 16) (\<lambda>m'. cstr m' 0 ([0x2F] @ [0x61, 0x62]) \<and>
    (\<forall>a. a < 0 + length [0x2F :: u8] \<or> 0 + length [0x2F :: u8] + length [0x61 :: u8, 0x62] < a \<longrightarrow> m' a = two_strings a))"
  by (rule strcat_concatenates [OF two_strings]) simp

text \<open>
  \<open>append\<close> never writes outside the buffer whose size it is given: when the two strings and
  the NUL fit it concatenates and returns 0, otherwise it returns -1 and writes nothing.
\<close>
theorem append_bounded:
  assumes "cstr m dest xs" "cstr m src ys" "length xs < bufsize"
    and "dest + length xs + length ys < src \<or> src + length ys < dest"
  shows "ok (append m dest src bufsize) (\<lambda>(r, m').
    (if length xs + length ys < bufsize then r = 0 \<and> cstr m' dest (xs @ ys) else r = -1 \<and> m' = m) \<and>
    (\<forall>a. a < dest \<or> dest + bufsize \<le> a \<longrightarrow> m' a = m a))"
proof (cases "length xs + length ys < bufsize")
  case True
  have "dest + length xs \<le> src \<or> src + (length ys + 1) \<le> dest + length xs" using assms(4) by auto
  note copy = copy_forward_apply [OF this, folded memcpy_def]
  have "memcpy m (dest + length xs) src (length ys + 1) a = m a" if "a < dest \<or> dest + bufsize \<le> a" for a
    using that True unfolding copy by auto
  then show ?thesis
    using True append_success [OF assms(1,2)] cstr_append [OF assms(1,2,4)] by simp
next
  case False
  then show ?thesis using append_overflow [OF assms(1,2)] by simp
qed

lemma append_bounded_witness:
  "ok (append two_strings 0 16 4) (\<lambda>(r, m').
    (if length [0x2F :: u8] + length [0x61 :: u8, 0x62] < 4 then r = 0 \<and> cstr m' 0 ([0x2F] @ [0x61, 0x62]) else r = -1 \<and> m' = two_strings) \<and>
    (\<forall>a. a < 0 \<or> 0 + 4 \<le> a \<longrightarrow> m' a = two_strings a))"
  by (rule append_bounded [OF two_strings]) simp_all

text \<open>
  \<open>split\<close> returns on every NUL-terminated string and never stores more tokens than
  \<open>max_tokens\<close>.
\<close>
theorem split_bounded:
  assumes "cstr m str xs"
  shows "ok (split m str delim max_tokens) (\<lambda>(out, m'). length out \<le> max_tokens)"
proof (cases "max_tokens = 0")
  case False
  obtain r where r: "split_from m delim max_tokens str [str] = Some r"
    using split_from_returns [OF assms] by blast
  with split_from_bound [OF r] False show ?thesis by (cases r) (simp add: split_def)
qed (simp add: split_def)

lemma split_bounded_witness: "ok (split two_strings 16 0x62 1) (\<lambda>(out, m'). length out \<le> 1)"
  by (rule split_bounded [OF two_strings(2)])

subsection \<open>Block storage\<close>

text \<open>
  the inserter's \<open>read_blocks\<close> over its image in memory reads what the ATA driver reads from
  the disk, for every request inside the disk.
\<close>
theorem inserter_reads:
  assumes "unat lba + unat cnt \<le> disk_sectors"
  shows "read_blocks d ptr lba cnt = Some (inserter_read_blocks (image_of d) ptr lba cnt)"
  by (rule inserter_read_refines [OF assms])

lemma inserter_reads_witness:
  "read_blocks (\<lambda>b _. ucast b) (\<lambda>_. 0) 8190 2 = Some (inserter_read_blocks (image_of (\<lambda>b _. ucast b)) (\<lambda>_. 0) 8190 2)"
  by (rule inserter_reads) simp

text \<open>
  the inserter's \<open>write_blocks\<close> makes the image of the disk that the ATA driver's makes: the
  image that the build tool produces is the disk the kernel finds.
\<close>
theorem inserter_writes:
  assumes "unat lba + unat cnt \<le> disk_sectors"
  shows "ok (write_blocks d ptr lba cnt) (\<lambda>d'. \<forall>a<DISK_SPACE.
    image_of d' a = inserter_write_blocks (image_of d) ptr lba cnt a)"
proof -
  obtain d' where d': "write_blocks d ptr lba cnt = Some d'"
    using assms by (simp add: write_blocks_def)
  then show ?thesis using inserter_write_refines [OF assms _ d'] by simp
qed

lemma inserter_writes_witness:
  "ok (write_blocks (\<lambda>_ _. 0) (\<lambda>_. 7) 8190 2) (\<lambda>d'. \<forall>a<DISK_SPACE.
    image_of d' a = inserter_write_blocks (image_of (\<lambda>_ _. 0)) (\<lambda>_. 7) 8190 2 a)"
  by (rule inserter_writes) simp

text \<open>the registers the ATA driver programs carry the low 28 bits of the block address.\<close>
theorem ata_address:
  "lba_of_command (ata_command lba cnt cmd) = lba AND 0x0FFFFFFF"
  by (rule lba_of_ata_command)

text \<open>a written block reads back, and two writes to different blocks commute.\<close>
theorem ata_writes_commute:
  assumes "on_disk a" "on_disk b" "a \<noteq> b" "on_disk c"
  shows "ok (do {d1 \<leftarrow> write_blocks d x a 1; write_blocks d1 y b 1}) (\<lambda>d2.
    ok (do {e1 \<leftarrow> write_blocks d y b 1; write_blocks e1 x a 1}) (\<lambda>e2.
      read_blocks d2 r c 1 = read_blocks e2 r c 1 \<and> read_blocks d2 r a 1 = Some (overlay x r)))"
proof -
  obtain d1 d2 e1 e2 where w: "write_blocks d x a 1 = Some d1" "write_blocks d1 y b 1 = Some d2"
      "write_blocks d y b 1 = Some e1" "write_blocks e1 x a 1 = Some e2"
    using ata.wr_valid [OF assms(1)] ata.wr_valid [OF assms(2)] by metis
  have "read_blocks d2 r a 1 = Some (overlay x r)"
    using ata.rd_wr_other [OF w(2) assms(2,1,3)] ata.rd_wr_same [OF w(1) assms(1)] by simp
  with ata.writes_commute [OF assms(1-3) w assms(4)] show ?thesis by (simp add: w)
qed

lemma ata_writes_commute_witness:
  "ok (do {d1 \<leftarrow> write_blocks (\<lambda>_ _. 0) (\<lambda>_. 1) 7 1; write_blocks d1 (\<lambda>_. 2) 8191 1}) (\<lambda>d2.
    ok (do {e1 \<leftarrow> write_blocks (\<lambda>_ _. 0) (\<lambda>_. 2) 8191 1; write_blocks e1 (\<lambda>_. 1) 7 1}) (\<lambda>e2.
      read_blocks d2 (\<lambda>_. 3) 8191 1 = read_blocks e2 (\<lambda>_. 3) 8191 1 \<and>
      read_blocks d2 (\<lambda>_. 3) 7 1 = Some (overlay (\<lambda>_. 1) (\<lambda>_. 3))))"
  by (rule ata_writes_commute) (simp_all add: on_disk_def)

subsection \<open>On-disk structures\<close>

text \<open>
  a block that a superblock, a descriptor table or an inode was written into gives it back;
  an inode written to one slot of a table block leaves the other slots alone.
\<close>
theorem structures_roundtrip:
  assumes "length table = GROUPS_COUNT" "length (i_block nd) = 15"
  shows "dec_superblock (blit m 0 (enc_superblock sb)) = sb \<and> dec_bgdt (blit m 0 (enc_bgdt table)) = table \<and>
    inode_at (put_inode m k nd) j = (if j = k then nd else inode_at m j)"
  using assms by (simp add: superblock_roundtrip bgdt_roundtrip inode_at_put_same inode_at_put_other)

lemma structures_roundtrip_witness:
  "dec_superblock (blit (\<lambda>_. 9) 0 (enc_superblock (dec_superblock (\<lambda>_. 5)))) = dec_superblock (\<lambda>_. 5) \<and>
    dec_bgdt (blit (\<lambda>_. 9) 0 (enc_bgdt (dec_bgdt (\<lambda>_. 4)))) = dec_bgdt (\<lambda>_. 4) \<and>
    inode_at (put_inode (\<lambda>_. 9) 3 (inode_at (\<lambda>_. 4) 0)) 2 = (if 2 = (3 :: nat) then inode_at (\<lambda>_. 4) 0 else inode_at (\<lambda>_. 9) 2)"
  by (rule structures_roundtrip) simp_all

text \<open>
  a directory entry written at an offset reads back, and the length reserved for it covers
  the header and the name, is a multiple of 4 and wastes at most 3 bytes.
\<close>
theorem directory_entry_room:
  "get_directory_entry (put_directory_entry m off e) off = e \<and>
    unat n + sizeof_dirent \<le> unat (get_entry_record_len n) \<and> 4 dvd unat (get_entry_record_len n) \<and>
    unat (get_entry_record_len n) \<le> unat n + sizeof_dirent + 3"
  using record_len_fits [of n] record_len_tight [of n] record_len_aligned [of n] by (simp add: dirent_roundtrip)

text \<open>
  group and place of an inode number determine it, and for the inode numbers of the file
  system they stay inside the descriptor table and the inode table.
\<close>
theorem inode_number_coordinates:
  assumes "i \<noteq> 0" "j \<noteq> 0" "unat i \<le> GROUPS_COUNT * INODES_PER_GROUP"
  shows "(inode_to_bgd i = inode_to_bgd j \<and> inode_to_local i = inode_to_local j) = (i = j) \<and>
    unat (inode_to_bgd i) < GROUPS_COUNT \<and> unat (inode_to_local i) < INODES_PER_GROUP"
  using inode_number_inj [OF assms(1,2)] inode_to_bgd_less [of i] inode_to_local_less [of i] assms(3) by auto

lemma inode_number_coordinates_witness:
  "(inode_to_bgd 896 = inode_to_bgd 112 \<and> inode_to_local 896 = inode_to_local 112) = ((896 :: u32) = 112) \<and>
    unat (inode_to_bgd 896) < GROUPS_COUNT \<and> unat (inode_to_local 896) < INODES_PER_GROUP"
  by (rule inode_number_coordinates) simp_all

end
