(* ===== verification/Ext2_State.thy ===== *)
theory Ext2_State
  imports Ext2_Layout
begin

section \<open>The state of the file system driver\<close>

text \<open>
  The driver's two static variables \<open>superBlock\<close> and \<open>bgdtCache\<close>, the disk below it, and the
  bytes an uninitialised buffer on the stack holds (\<open>uninit\<close>, arbitrary: the code writes and
  tests such bytes in a few places). \<open>None\<close> is an access outside the descriptor table or the
  disk.
\<close>

record fs =
  fs_disk :: disk
  superBlock :: superblock
  bgdtCache :: "bgd list"
  uninit :: mem

definition read_block :: "fs \<Rightarrow> mem \<Rightarrow> u32 \<Rightarrow> mem option" where
  "read_block st buf b = read_blocks (fs_disk st) buf b 1"

definition write_block :: "fs \<Rightarrow> mem \<Rightarrow> u32 \<Rightarrow> fs option" where
  "write_block st buf b = do {
     d \<leftarrow> write_blocks (fs_disk st) buf b 1;
     Some (st\<lparr>fs_disk := d\<rparr>)
   }"

definition upd_bgd :: "fs \<Rightarrow> nat \<Rightarrow> (bgd \<Rightarrow> bgd) \<Rightarrow> fs option" where
  "upd_bgd st g f = do {
     d \<leftarrow> arr_get (bgdtCache st) g;
     Some (st\<lparr>bgdtCache := (bgdtCache st)[g := f d]\<rparr>)
   }"

definition upd_super :: "fs \<Rightarrow> (superblock \<Rightarrow> superblock) \<Rightarrow> fs" where
  "upd_super st f = st\<lparr>superBlock := f (superBlock st)\<rparr>"

text \<open>\<open>sync_metadata\<close>: the buffer is not cleared, so the rest of block 1 is stack content.\<close>

definition sync_metadata :: "fs \<Rightarrow> fs option" where
  "sync_metadata st = do {
     let buf = blit (uninit st) 0 (enc_superblock (superBlock st));
     st \<leftarrow> write_block st buf 1;
     let buf = blit buf 0 (enc_bgdt (bgdtCache st));
     write_block st buf 2
   }"

lemma ok_read_block [simp]:
  "ok (read_block st buf b) P \<longleftrightarrow> unat b < 8192 \<and> P (overlay (fs_disk st b) buf)"
  by (simp add: read_block_def read_blocks_1)

lemma ok_write_block [simp]:
  "ok (write_block st buf b) P \<longleftrightarrow> unat b < 8192 \<and>
     P (st\<lparr>fs_disk := (fs_disk st)(b := overlay buf (fs_disk st b))\<rparr>)"
  by (simp add: write_block_def write_blocks_1)

lemma read_block_eq: "unat b < 8192 \<Longrightarrow> read_block st buf b = Some (overlay (fs_disk st b) buf)"
  by (simp add: read_block_def read_blocks_1)

lemma write_block_eq: "unat b < 8192 \<Longrightarrow>
    write_block st buf b = Some (st\<lparr>fs_disk := (fs_disk st)(b := overlay buf (fs_disk st b))\<rparr>)"
  by (simp add: write_block_def write_blocks_1)

lemma ok_upd_bgd [simp]:
  "ok (upd_bgd st g f) P \<longleftrightarrow> g < length (bgdtCache st) \<and>
     P (st\<lparr>bgdtCache := (bgdtCache st)[g := f (bgdtCache st ! g)]\<rparr>)"
  by (simp add: upd_bgd_def ok_bind)

lemma upd_super_simps [simp]:
  "fs_disk (upd_super st f) = fs_disk st" "superBlock (upd_super st f) = f (superBlock st)"
  "bgdtCache (upd_super st f) = bgdtCache st" "uninit (upd_super st f) = uninit st"
  by (simp_all add: upd_super_def)

text \<open>What \<open>sync_metadata\<close> leaves on the disk: blocks 1 and 2, and only those.\<close>

lemma sync_metadata_eq:
  "sync_metadata st = Some (st\<lparr>fs_disk := (fs_disk st)
     (1 := overlay (blit (uninit st) 0 (enc_superblock (superBlock st))) (fs_disk st 1),
      2 := overlay (blit (blit (uninit st) 0 (enc_superblock (superBlock st))) 0
             (enc_bgdt (bgdtCache st))) (fs_disk st 2))\<rparr>)"
  by (simp add: sync_metadata_def write_block_eq Let_def)

lemma ok_sync_metadata [simp]:
  "ok (sync_metadata st) P \<longleftrightarrow> P (st\<lparr>fs_disk := (fs_disk st)
     (1 := overlay (blit (uninit st) 0 (enc_superblock (superBlock st))) (fs_disk st 1),
      2 := overlay (blit (blit (uninit st) 0 (enc_superblock (superBlock st))) 0
             (enc_bgdt (bgdtCache st))) (fs_disk st 2))\<rparr>)"
  by (simp add: sync_metadata_eq)

text \<open>
  \<open>load_metadata\<close> is the second half of \<open>initialize_filesystem_ext2\<close>: it fills the caches from
  blocks 1 and 2.
\<close>

definition load_metadata :: "fs \<Rightarrow> fs option" where
  "load_metadata st = do {
     buf \<leftarrow> read_block st (uninit st) 1;
     let st = st\<lparr>superBlock := dec_superblock buf\<rparr>;
     buf \<leftarrow> read_block st buf 2;
     Some (st\<lparr>bgdtCache := dec_bgdt buf\<rparr>)
   }"

lemma load_metadata_eq:
  "load_metadata st = Some (st\<lparr>superBlock := dec_superblock (fs_disk st 1),
     bgdtCache := dec_bgdt (fs_disk st 2)\<rparr>)"
proof -
  have "dec_superblock (overlay s m) = dec_superblock s" "dec_bgdt (overlay s m) = dec_bgdt s" for s m
    by (rule dec_superblock_cong dec_bgdt_cong, simp)+
  then show ?thesis
    by (simp add: load_metadata_def read_block_eq Let_def)
qed

text \<open>Loading after a sync gives back the two caches, whatever they held in between.\<close>

lemma load_after_sync:
  assumes "length (bgdtCache st) = 8"
  shows "(sync_metadata st \<bind> (\<lambda>st'. load_metadata (st'\<lparr>superBlock := sb, bgdtCache := table\<rparr>)))
     = sync_metadata st"
proof -
  let ?sb = "blit (uninit st) 0 (enc_superblock (superBlock st))"
  let ?table = "blit ?sb 0 (enc_bgdt (bgdtCache st))"
  have "dec_superblock (overlay ?sb (fs_disk st 1)) = dec_superblock ?sb"
    by (rule dec_superblock_cong) simp
  moreover have "dec_bgdt (overlay ?table (fs_disk st 2)) = dec_bgdt ?table"
    by (rule dec_bgdt_cong) simp
  ultimately show ?thesis
    by (simp add: sync_metadata_eq load_metadata_eq superblock_roundtrip bgdt_roundtrip [OF assms])
qed

subsection \<open>Bitmaps\<close>

text \<open>The tests and updates the code writes out at each use, and the search for a free bit.\<close>

definition bmp_test :: "mem \<Rightarrow> nat \<Rightarrow> nat \<Rightarrow> bool" where
  "bmp_test buf byte k \<longleftrightarrow> buf byte AND push_bit k 1 \<noteq> 0"

definition bmp_set :: "mem \<Rightarrow> nat \<Rightarrow> nat \<Rightarrow> mem" where
  "bmp_set buf byte k = buf(byte := buf byte OR push_bit k 1)"

definition bmp_clear :: "mem \<Rightarrow> nat \<Rightarrow> mem" where
  "bmp_clear buf off = buf(off div 8 := buf (off div 8) AND NOT (push_bit (off mod 8) 1))"

text \<open>The loop over the bits of a byte stops at the end of the group.\<close>

definition scan_byte :: "mem \<Rightarrow> nat \<Rightarrow> nat \<Rightarrow> nat option" where
  "scan_byte buf limit byte =
     List.find (\<lambda>k. \<not> bmp_test buf byte k) (takeWhile (\<lambda>k. byte * 8 + k < limit) [0..<8])"

fun scan_bytes :: "mem \<Rightarrow> nat \<Rightarrow> nat \<Rightarrow> nat \<Rightarrow> (nat \<times> nat) option" where
  "scan_bytes buf limit byte 0 = None"
| "scan_bytes buf limit byte (Suc n) =
     (if buf byte \<noteq> 0xFF
      then case scan_byte buf limit byte of
          Some k \<Rightarrow> Some (byte, k)
        | None \<Rightarrow> scan_bytes buf limit (Suc byte) n
      else scan_bytes buf limit (Suc byte) n)"

definition find_free_bit :: "mem \<Rightarrow> nat \<Rightarrow> (nat \<times> nat) option" where
  "find_free_bit buf limit = scan_bytes buf limit 0 BLOCK_SIZE"

text \<open>The specification: \<open>bit_used buf i\<close> is bit \<open>i\<close> of the map.\<close>

definition bit_used :: "mem \<Rightarrow> nat \<Rightarrow> bool" where
  "bit_used buf i = bit (buf (i div 8)) (i mod 8)"

lemma byte_bit_eq: "k < 8 \<Longrightarrow> i = byte * 8 + k \<longleftrightarrow> i div 8 = byte \<and> i mod 8 = (k :: nat)"
  by auto

lemma bmp_test_iff: "k < 8 \<Longrightarrow> bmp_test buf byte k = bit_used buf (byte * 8 + k)"
  by (simp add: bmp_test_def bit_used_def and_exp_eq_0_iff_not_bit)

lemma bit_used_set: "k < 8 \<Longrightarrow> bit_used (bmp_set buf byte k) i = (bit_used buf i \<or> i = byte * 8 + k)"
  by (auto simp: bit_used_def bmp_set_def bit_simps byte_bit_eq)

lemma bit_used_clear: "bit_used (bmp_clear buf off) i = (bit_used buf i \<and> i \<noteq> off)"
proof -
  have "i = off \<longleftrightarrow> i div 8 = off div 8 \<and> i mod 8 = off mod 8"
    by (metis mod_mult_div_eq)
  moreover have "bit (x AND NOT (push_bit (off mod 8) 1)) (i mod 8) = (bit x (i mod 8) \<and> i mod 8 \<noteq> off mod 8)"
    for x :: u8
    by (auto simp: bit_simps)
  ultimately show ?thesis
    by (auto simp: bit_used_def bmp_clear_def)
qed

lemma bit_used_cong: "i < 4096 \<Longrightarrow> (\<And>a. a < 512 \<Longrightarrow> m a = m' a) \<Longrightarrow> bit_used m i = bit_used m' i"
  by (simp add: bit_used_def)

lemma bit_used_full: "buf byte = 0xFF \<Longrightarrow> k < 8 \<Longrightarrow> bit_used buf (byte * 8 + k)"
proof -
  assume "buf byte = 0xFF" and "k < 8"
  moreover have "(0xFF :: u8) = -1" by simp
  ultimately show ?thesis by (simp add: bit_used_def)
qed

text \<open>
  The byte-wise search is the search for the first clear bit below the limit, so it fails only
  when every bit is set.
\<close>

lemma find_map: "List.find P (map f xs) = map_option f (List.find (P \<circ> f) xs)"
  by (induction xs) auto

lemma find_append: "List.find P (xs @ ys) = (case List.find P xs of None \<Rightarrow> List.find P ys | r \<Rightarrow> r)"
  by (induction xs) auto

lemma find_cong_on: "(\<And>x. x \<in> set xs \<Longrightarrow> P x = Q x) \<Longrightarrow> List.find P xs = List.find Q xs"
  by (induction xs) auto

lemma takeWhile_less: "takeWhile (\<lambda>k. k < n) [0..<m] = [0..<min m n]" for n m :: nat
proof (induction m)
  case (Suc m)
  then show ?case by (cases "m < n") (auto simp: takeWhile_append min_def)
qed simp

lemma takeWhile_group:
  "takeWhile (\<lambda>k. byte * 8 + k < limit) [0..<8] = [0..<min 8 (limit - byte * 8)]" for byte limit :: nat
  using takeWhile_less [of "limit - byte * 8" 8] by (simp add: less_diff_conv2 less_diff_conv add.commute)

lemma upt_min_split:
  "a \<le> b \<Longrightarrow> b \<le> c \<Longrightarrow> [a..<min l c] = [a..<min l b] @ [b..<min l c]" for l :: nat
  using upt_add_eq_append [of a b "min l c - b"] by (cases "l \<le> b") (auto simp: min_def)

lemma scan_byte_find:
  "map_option (\<lambda>k. byte * 8 + k) (scan_byte buf limit byte) =
     List.find (\<lambda>i. \<not> bit_used buf i) [byte * 8..<min limit (byte * 8 + 8)]"
proof -
  let ?m = "min 8 (limit - byte * 8)"
  have "[byte * 8..<min limit (byte * 8 + 8)] = map (\<lambda>k. byte * 8 + k) [0..<?m]"
    using map_add_upt [of "byte * 8" ?m]
    by (cases "byte * 8 \<le> limit"; cases "byte * 8 + 8 \<le> limit")
      (auto simp: add.commute min_absorb1 min_absorb2)
  moreover have "List.find (\<lambda>k. \<not> bmp_test buf byte k) [0..<?m] =
      List.find (\<lambda>k. \<not> bit_used buf (byte * 8 + k)) [0..<?m]"
    by (rule find_cong_on) (simp add: bmp_test_iff)
  ultimately show ?thesis
    by (simp add: scan_byte_def takeWhile_group find_map comp_def)
qed

lemma scan_bytes_find:
  "map_option (\<lambda>(b, k). b * 8 + k) (scan_bytes buf limit byte n) =
     List.find (\<lambda>i. \<not> bit_used buf i) [byte * 8..<min limit ((byte + n) * 8)]"
proof (induction n arbitrary: byte)
  case 0
  show ?case by (simp add: min_def)
next
  case (Suc n)
  let ?find = "List.find (\<lambda>i. \<not> bit_used buf i)"
  have part: "?find [byte * 8..<min limit ((byte + Suc n) * 8)] =
      (case map_option (\<lambda>k. byte * 8 + k) (scan_byte buf limit byte) of
         None \<Rightarrow> ?find [Suc byte * 8..<min limit ((Suc byte + n) * 8)] | r \<Rightarrow> r)"
  proof -
    have next_byte: "Suc byte * 8 = byte * 8 + 8" "(Suc byte + n) * 8 = (byte + Suc n) * 8" by simp_all
    have "[byte * 8..<min limit ((byte + Suc n) * 8)] = [byte * 8..<min limit (byte * 8 + 8)] @
        [byte * 8 + 8..<min limit ((byte + Suc n) * 8)]"
      by (rule upt_min_split) simp_all
    then show ?thesis
      unfolding scan_byte_find next_byte by (simp only: find_append)
  qed
  have "scan_byte buf limit byte = None" if "buf byte = 0xFF"
    using bit_used_full [of buf byte, OF that] by (simp add: scan_byte_def takeWhile_group find_None_iff bmp_test_iff)
  with part Suc.IH [of "Suc byte"] show ?case
    by (auto split: option.split)
qed

lemma find_free_bit_find:
  assumes "limit \<le> 4096"
  shows "map_option (\<lambda>(b, k). b * 8 + k) (find_free_bit buf limit) =
     List.find (\<lambda>i. \<not> bit_used buf i) [0..<limit]"
  using assms scan_bytes_find [of buf limit 0 512] by (simp add: find_free_bit_def)

lemma scan_byte_less: "scan_byte buf limit byte = Some k \<Longrightarrow> k < 8 \<and> byte * 8 + k < limit"
  by (auto simp: scan_byte_def takeWhile_group find_Some_iff)

lemma scan_bytes_less:
  "scan_bytes buf limit byte n = Some (b, k) \<Longrightarrow> k < 8 \<and> b * 8 + k < limit \<and> b < byte + n"
  by (induction n arbitrary: byte) (fastforce split: if_splits option.splits dest: scan_byte_less)+

lemma find_free_bit_Some:
  assumes "find_free_bit buf limit = Some (b, k)" "limit \<le> 4096"
  shows "k < 8" "b < 512" "b * 8 + k < limit" "\<not> bit_used buf (b * 8 + k)"
    "j < b * 8 + k \<Longrightarrow> bit_used buf j"
  using find_free_bit_find [OF assms(2), of buf] assms scan_bytes_less [of buf limit 0 512 b k]
  by (auto simp: find_free_bit_def find_Some_iff eq_commute [of "Some _"])

lemma find_free_bit_None:
  assumes "limit \<le> 4096"
  shows "find_free_bit buf limit = None \<longleftrightarrow> (\<forall>i<limit. bit_used buf i)"
proof -
  have "find_free_bit buf limit = None \<longleftrightarrow>
      map_option (\<lambda>(b, k). b * 8 + k) (find_free_bit buf limit) = None" by simp
  then show ?thesis
    unfolding find_free_bit_find [OF assms] by (simp add: find_None_iff)
qed

lemma find_free_bit_cong:
  assumes "limit \<le> 4096" "\<And>a. a < 512 \<Longrightarrow> m a = m' a"
  shows "find_free_bit m limit = find_free_bit m' limit"
proof -
  have "scan_bytes m limit byte n = scan_bytes m' limit byte n" if "byte + n \<le> 512" for byte n
    using that
  proof (induction n arbitrary: byte)
    case (Suc n)
    then have "m byte = m' byte" using assms(2) by simp
    moreover from this have "scan_byte m limit byte = scan_byte m' limit byte"
      by (simp add: scan_byte_def bmp_test_def)
    ultimately show ?case
      using Suc.IH [of "Suc byte"] Suc.prems by (simp split: option.split)
  qed simp
  then show ?thesis by (simp add: find_free_bit_def)
qed

text \<open>A bitmap block that is read, changed in its 512 bytes and written back.\<close>

lemma overlay_bmp_set [simp]: "b < 512 \<Longrightarrow> overlay (bmp_set (overlay m r) b k) m = bmp_set m b k"
  by (auto simp: overlay_def bmp_set_def fun_eq_iff)

lemma overlay_bmp_clear [simp]: "off < 4096 \<Longrightarrow> overlay (bmp_clear (overlay m r) off) m = bmp_clear m off"
  by (auto simp: overlay_def bmp_clear_def fun_eq_iff)

lemma find_free_bit_overlay [simp]:
  "limit \<le> 4096 \<Longrightarrow> find_free_bit (overlay m r) limit = find_free_bit m limit"
  by (rule find_free_bit_cong) simp_all

end
