(* ===== verification/Ext2_Alloc.thy ===== *)
theory Ext2_Alloc
  imports Ext2_State
begin

section \<open>Allocation of blocks and inodes\<close>

text \<open>
  The search for a free block that \<open>init_directory_table\<close>, \<open>allocate_node_blocks\<close> (three times)
  and \<open>write\<close> write out, the release of a block that \<open>deallocate_node\<close> and
  \<open>deallocate_blocks\<close> write out, and \<open>allocate_node\<close>. The invariant \<open>fs_ok\<close> says that the
  descriptors have the layout of \<open>create_ext2\<close>, that the blocks of the metadata are marked, and
  that the free counts are those of the bitmaps.
\<close>

subsection \<open>Blocks\<close>

text \<open>One round of the loop over the groups: the first free block of group \<open>bg\<close>.\<close>

definition alloc_in_group :: "fs \<Rightarrow> nat \<Rightarrow> (u32 option \<times> fs) option" where
  "alloc_in_group st bg = do {
     d \<leftarrow> arr_get (bgdtCache st) bg;
     if bg_free_blocks_count d > 0 then do {
       bmp \<leftarrow> read_block st (uninit st) (bg_block_bitmap d);
       case find_free_bit bmp BLOCKS_PER_GROUP of
         None \<Rightarrow> Some (None, st)
       | Some (byte, k) \<Rightarrow> do {
           st \<leftarrow> write_block st (bmp_set bmp byte k) (bg_block_bitmap d);
           st \<leftarrow> upd_bgd st bg (\<lambda>d. d\<lparr>bg_free_blocks_count := bg_free_blocks_count d - 1\<rparr>);
           let st = upd_super st (\<lambda>sb. sb\<lparr>s_free_blocks_count := s_free_blocks_count sb - 1\<rparr>);
           Some (Some (of_nat (bg * BLOCKS_PER_GROUP + (byte * 8 + k))), st)
         }
     }
     else Some (None, st)
   }"

fun alloc_from :: "fs \<Rightarrow> nat \<Rightarrow> nat \<Rightarrow> (u32 option \<times> fs) option" where
  "alloc_from st bg 0 = Some (None, st)"
| "alloc_from st bg (Suc n) = do {
     (r, st) \<leftarrow> alloc_in_group st bg;
     case r of Some b \<Rightarrow> Some (Some b, st) | None \<Rightarrow> alloc_from st (Suc bg) n
   }"

definition alloc_block :: "fs \<Rightarrow> u32 \<Rightarrow> (u32 option \<times> fs) option" where
  "alloc_block st prefered_bgd =
     alloc_from st (unat prefered_bgd) (GROUPS_COUNT - unat prefered_bgd)"

text \<open>
  The copy of the loop in \<open>write\<close> has no flag: it stops when the number found is not 0, so on
  block 0 it would go on with the next byte of the same bitmap.
\<close>

fun newblock_bytes :: "fs \<Rightarrow> mem \<Rightarrow> nat \<Rightarrow> nat \<Rightarrow> nat \<Rightarrow> (u32 \<times> fs) option" where
  "newblock_bytes st bmp bg byte 0 = Some (0, st)"
| "newblock_bytes st bmp bg byte (Suc n) =
     (case (if bmp byte \<noteq> 0xFF then scan_byte bmp BLOCKS_PER_GROUP byte else None) of
        None \<Rightarrow> newblock_bytes st bmp bg (Suc byte) n
      | Some k \<Rightarrow> do {
          let bmp = bmp_set bmp byte k;
          d \<leftarrow> arr_get (bgdtCache st) bg;
          st \<leftarrow> write_block st bmp (bg_block_bitmap d);
          st \<leftarrow> upd_bgd st bg (\<lambda>d. d\<lparr>bg_free_blocks_count := bg_free_blocks_count d - 1\<rparr>);
          let st = upd_super st (\<lambda>sb. sb\<lparr>s_free_blocks_count := s_free_blocks_count sb - 1\<rparr>);
          let newblock = of_nat (bg * BLOCKS_PER_GROUP + (byte * 8 + k));
          if newblock \<noteq> 0 then Some (newblock, st) else newblock_bytes st bmp bg (Suc byte) n
        })"

fun newblock_from :: "fs \<Rightarrow> nat \<Rightarrow> nat \<Rightarrow> (u32 \<times> fs) option" where
  "newblock_from st bg 0 = Some (0, st)"
| "newblock_from st bg (Suc n) = do {
     d \<leftarrow> arr_get (bgdtCache st) bg;
     (newblock, st) \<leftarrow>
       (if bg_free_blocks_count d \<noteq> 0 then do {
          bmp \<leftarrow> read_block st (uninit st) (bg_block_bitmap d);
          newblock_bytes st bmp bg 0 BLOCK_SIZE
        }
        else Some (0, st));
     if newblock \<noteq> 0 then Some (newblock, st) else newblock_from st (Suc bg) n
   }"

definition alloc_newblock :: "fs \<Rightarrow> u32 \<Rightarrow> (u32 \<times> fs) option" where
  "alloc_newblock st parent_bgd = newblock_from st (unat parent_bgd) (GROUPS_COUNT - unat parent_bgd)"

text \<open>The release of a block.\<close>

definition free_block :: "fs \<Rightarrow> u32 \<Rightarrow> fs option" where
  "free_block st block_id = do {
     let grp = unat (block_id div of_nat BLOCKS_PER_GROUP);
     let off = unat (block_id mod of_nat BLOCKS_PER_GROUP);
     d \<leftarrow> arr_get (bgdtCache st) grp;
     bmp \<leftarrow> read_block st (uninit st) (bg_block_bitmap d);
     st \<leftarrow> write_block st (bmp_clear bmp off) (bg_block_bitmap d);
     st \<leftarrow> upd_bgd st grp (\<lambda>d. d\<lparr>bg_free_blocks_count := bg_free_blocks_count d + 1\<rparr>);
     Some (upd_super st (\<lambda>sb. sb\<lparr>s_free_blocks_count := s_free_blocks_count sb + 1\<rparr>))
   }"

subsection \<open>Inodes\<close>

text \<open>The round of \<open>allocate_node\<close> on group \<open>i\<close>: 0 is the value when the group has no free inode.\<close>

definition alloc_node_in :: "fs \<Rightarrow> nat \<Rightarrow> (u32 \<times> fs) option" where
  "alloc_node_in st i = do {
     d \<leftarrow> arr_get (bgdtCache st) i;
     if bg_free_inodes_count d > 0 then do {
       bmp \<leftarrow> read_block st (uninit st) (bg_inode_bitmap d);
       case find_free_bit bmp INODES_PER_GROUP of
         None \<Rightarrow> Some (0, st)
       | Some (byte, k) \<Rightarrow> do {
           st \<leftarrow> write_block st (bmp_set bmp byte k) (bg_inode_bitmap d);
           st \<leftarrow> upd_bgd st i (\<lambda>d. d\<lparr>bg_free_inodes_count := bg_free_inodes_count d - 1\<rparr>);
           let st = upd_super st (\<lambda>sb. sb\<lparr>s_free_inodes_count := s_free_inodes_count sb - 1\<rparr>);
           st \<leftarrow> sync_metadata st;
           Some (of_nat (i * INODES_PER_GROUP + (byte * 8 + k) + 1), st)
         }
     }
     else Some (0, st)
   }"

fun allocate_node_from :: "fs \<Rightarrow> nat \<Rightarrow> nat \<Rightarrow> (u32 \<times> fs) option" where
  "allocate_node_from st i 0 = Some (0, st)"
| "allocate_node_from st i (Suc n) = do {
     (ino, st) \<leftarrow> alloc_node_in st i;
     if ino \<noteq> 0 then Some (ino, st) else allocate_node_from st (Suc i) n
   }"

definition allocate_node :: "fs \<Rightarrow> (u32 \<times> fs) option" where
  "allocate_node st = allocate_node_from st 0 GROUPS_COUNT"

subsection \<open>The layout of the groups\<close>

text \<open>Where \<open>create_ext2\<close> puts the bitmaps and the inode table of a group.\<close>

definition bbm :: "nat \<Rightarrow> nat" where "bbm g = (if g = 0 then 3 else 256 * g)"
definition ibm :: "nat \<Rightarrow> nat" where "ibm g = (if g = 0 then 4 else 256 * g + 1)"
definition itb :: "nat \<Rightarrow> nat" where "itb g = (if g = 0 then 5 else 256 * g + 2)"

text \<open>The blocks of the metadata: the first 21 of group 0, the first 18 of the other groups.\<close>

definition reserved :: "nat \<Rightarrow> bool" where
  "reserved n \<longleftrightarrow> n < 21 \<or> n mod 256 < 18 \<and> 256 \<le> n"

definition block_used :: "fs \<Rightarrow> nat \<Rightarrow> bool" where
  "block_used st n = bit_used (fs_disk st (of_nat (bbm (n div 256)))) (n mod 256)"

text \<open>Inode numbers start at 1: inode \<open>n\<close> is the bit \<open>n - 1\<close>.\<close>

definition inode_used :: "fs \<Rightarrow> nat \<Rightarrow> bool" where
  "inode_used st n = bit_used (fs_disk st (of_nat (ibm ((n - 1) div 112)))) ((n - 1) mod 112)"

definition free_blocks_in :: "fs \<Rightarrow> nat \<Rightarrow> nat set" where
  "free_blocks_in st g = {n. n div 256 = g \<and> \<not> block_used st n}"

definition free_inodes_in :: "fs \<Rightarrow> nat \<Rightarrow> nat set" where
  "free_inodes_in st g = {n. (n - 1) div 112 = g \<and> 0 < n \<and> \<not> inode_used st n}"

definition layout_ok :: "bgd list \<Rightarrow> bool" where
  "layout_ok table \<longleftrightarrow> length table = 8 \<and> (\<forall>g<8. bg_block_bitmap (table ! g) = of_nat (bbm g) \<and>
     bg_inode_bitmap (table ! g) = of_nat (ibm g) \<and> bg_inode_table (table ! g) = of_nat (itb g))"

definition counts_ok :: "fs \<Rightarrow> bool" where
  "counts_ok st \<longleftrightarrow> (\<forall>g<8.
     unat (bg_free_blocks_count (bgdtCache st ! g)) = card (free_blocks_in st g) \<and>
     unat (bg_free_inodes_count (bgdtCache st ! g)) = card (free_inodes_in st g))"

definition fs_ok :: "fs \<Rightarrow> bool" where
  "fs_ok st \<longleftrightarrow> layout_ok (bgdtCache st) \<and> (\<forall>n<2048. reserved n \<longrightarrow> block_used st n) \<and> counts_ok st"

subsection \<open>Block numbers and groups\<close>

lemma block_no_eq [simp]: "m < 8192 \<Longrightarrow> n < 8192 \<Longrightarrow> of_nat m = (of_nat n :: u32) \<longleftrightarrow> m = n"
  by (simp add: of_nat_u32_eq_iff)

lemma group_bounds [simp]:
  "g < 8 \<Longrightarrow> bbm g < 8192" "g < 8 \<Longrightarrow> ibm g < 8192" "g < 8 \<Longrightarrow> itb g + 16 \<le> 8192"
  by (simp_all add: bbm_def ibm_def itb_def)

text \<open>A block number is a group and a place in it.\<close>

lemma cell_eq: "a < n \<Longrightarrow> b < n \<Longrightarrow> n * g + a = n * h + b \<longleftrightarrow> g = h \<and> a = (b :: nat)"
  by (metis mult_add_div mult_add_mod)

lemma group_cells:
  "bbm g = 256 * g + (if g = 0 then 3 else 0)" "ibm g = 256 * g + (if g = 0 then 4 else 1)"
  "itb g = 256 * g + (if g = 0 then 5 else 2)"
  by (simp_all add: bbm_def ibm_def itb_def)

lemma bbm_eq_iff [simp]: "bbm g = bbm h \<longleftrightarrow> g = h"
  by (auto simp: group_cells cell_eq)

lemma ibm_eq_iff [simp]: "ibm g = ibm h \<longleftrightarrow> g = h"
  by (auto simp: group_cells cell_eq)

lemma bbm_ibm [simp]: "bbm g \<noteq> ibm h" "ibm h \<noteq> bbm g"
  unfolding group_cells by (subst cell_eq; simp)+

lemma itb_cell: "itb g + j = 256 * g + ((if g = 0 then 5 else 2) + j)"
  by (simp add: group_cells)

lemma itb_bitmaps [simp]:
  "j < 16 \<Longrightarrow> itb g + j \<noteq> bbm h" "j < 16 \<Longrightarrow> itb g + j \<noteq> ibm h"
  "j < 16 \<Longrightarrow> bbm h \<noteq> itb g + j" "j < 16 \<Longrightarrow> ibm h \<noteq> itb g + j"
  unfolding itb_cell group_cells(1,2) by (subst cell_eq; simp)+

lemma itb_eq_iff: "j < 16 \<Longrightarrow> k < 16 \<Longrightarrow> itb g + j = itb h + k \<longleftrightarrow> g = h \<and> j = k"
  unfolding itb_cell by (subst cell_eq; auto)

lemma low_blocks [simp]:
  "2 < bbm g" "2 < ibm g" "2 < itb g"
  by (auto simp: bbm_def ibm_def itb_def)

lemma reserved_metadata:
  "n \<le> 2 \<Longrightarrow> reserved n" "reserved (bbm g)" "reserved (ibm g)" "j < 16 \<Longrightarrow> reserved (itb g + j)"
proof -
  show "n \<le> 2 \<Longrightarrow> reserved n" "reserved (bbm g)" by (auto simp: reserved_def bbm_def)
  have "(256 * g + k) mod 256 = k" if "k < 18" for k
    using that by (simp add: mult_add_mod)
  then show "reserved (ibm g)" "j < 16 \<Longrightarrow> reserved (itb g + j)"
    by (auto simp: reserved_def ibm_def itb_def add.assoc simp del: add_2_eq_Suc add_2_eq_Suc' One_nat_def)
qed

lemma not_reserved_metadata:
  assumes "\<not> reserved n"
  shows "n \<noteq> bbm g" "n \<noteq> ibm g" "j < 16 \<Longrightarrow> n \<noteq> itb g + j" "2 < n"
  using assms reserved_metadata by (auto simp: not_less) (metis not_le reserved_metadata(1))+

lemma reserved_less: "\<not> reserved n \<Longrightarrow> 20 < n"
  by (auto simp: reserved_def)

lemma div_less_8: "n < 2048 \<Longrightarrow> n div 256 < (8 :: nat)"
  by auto

lemma inode_group_less: "n \<le> 896 \<Longrightarrow> (n - 1) div 112 < (8 :: nat)"
  by auto

lemma layout_okD:
  assumes "layout_ok table"
  shows "length table = 8" "g < 8 \<Longrightarrow> bg_block_bitmap (table ! g) = of_nat (bbm g)"
    "g < 8 \<Longrightarrow> bg_inode_bitmap (table ! g) = of_nat (ibm g)"
    "g < 8 \<Longrightarrow> bg_inode_table (table ! g) = of_nat (itb g)"
  using assms by (auto simp: layout_ok_def)

lemma layout_ok_update:
  assumes "layout_ok table"
    and "\<And>d. bg_block_bitmap (f d) = bg_block_bitmap d" "\<And>d. bg_inode_bitmap (f d) = bg_inode_bitmap d"
      "\<And>d. bg_inode_table (f d) = bg_inode_table d"
  shows "layout_ok (table[g := f (table ! g)])"
proof -
  have "g < length table \<or> table[g := f (table ! g)] = table" by (metis list_update_beyond not_le)
  then show ?thesis
    using assms by (auto simp: layout_ok_def nth_list_update)
qed

lemma unat_of_nat_block: "n < 8192 \<Longrightarrow> unat (of_nat n :: u32) = n"
  by (rule unat_of_nat_u32) simp

subsection \<open>What is marked, and what keeps it\<close>

lemma finite_free_blocks [simp]: "finite (free_blocks_in st g)"
  by (rule finite_subset [of _ "{256 * g..<256 * g + 256}"]) (auto simp: free_blocks_in_def)

lemma finite_free_inodes [simp]: "finite (free_inodes_in st g)"
  by (rule finite_subset [of _ "{112 * g..112 * g + 112}"]) (auto simp: free_inodes_in_def)

lemma card_free_blocks_le: "card (free_blocks_in st g) \<le> 256"
proof -
  have "free_blocks_in st g \<subseteq> {256 * g..<256 * g + 256}"
    by (auto simp: free_blocks_in_def)
  from card_mono [OF _ this] show ?thesis by simp
qed

lemma card_free_inodes_le: "card (free_inodes_in st g) \<le> 112"
proof -
  have "n \<in> {112 * g + 1..112 * g + 112}" if "(n - 1) div 112 = g" "0 < n" for n
    using that by auto
  then have "free_inodes_in st g \<subseteq> {112 * g + 1..112 * g + 112}"
    by (auto simp: free_inodes_in_def)
  from card_mono [OF _ this] show ?thesis by simp
qed

text \<open>The marks depend on the bitmap blocks alone.\<close>

definition same_bitmaps :: "fs \<Rightarrow> fs \<Rightarrow> bool" where
  "same_bitmaps st st' \<longleftrightarrow> (\<forall>g<8. fs_disk st' (of_nat (bbm g)) = fs_disk st (of_nat (bbm g)) \<and>
     fs_disk st' (of_nat (ibm g)) = fs_disk st (of_nat (ibm g)))"

lemma same_bitmaps_used:
  assumes "same_bitmaps st st'"
  shows "n < 2048 \<Longrightarrow> block_used st' n = block_used st n"
    and "n \<le> 896 \<Longrightarrow> inode_used st' n = inode_used st n"
  using assms div_less_8 [of n] inode_group_less [of n]
  by (auto simp: same_bitmaps_def block_used_def inode_used_def)

lemma same_bitmaps_free:
  assumes "same_bitmaps st st'" "g < 8"
  shows "free_blocks_in st' g = free_blocks_in st g" "free_inodes_in st' g = free_inodes_in st g"
  using assms by (auto simp: same_bitmaps_def free_blocks_in_def free_inodes_in_def
      block_used_def inode_used_def)

definition same_layout :: "bgd list \<Rightarrow> bgd list \<Rightarrow> bool" where
  "same_layout table table' \<longleftrightarrow> layout_ok table' \<and> (\<forall>g<8.
     bg_free_blocks_count (table' ! g) = bg_free_blocks_count (table ! g) \<and>
     bg_free_inodes_count (table' ! g) = bg_free_inodes_count (table ! g))"

lemma inv_same_bitmaps:
  assumes "fs_ok st" "same_bitmaps st st'" "same_layout (bgdtCache st) (bgdtCache st')"
  shows "fs_ok st'"
  using assms by (auto simp: fs_ok_def counts_ok_def same_layout_def same_bitmaps_used
      same_bitmaps_free)

subsection \<open>The reference: marking and releasing one block or inode\<close>

definition take_block :: "fs \<Rightarrow> nat \<Rightarrow> fs" where
  "take_block st n =
     (let g = n div 256 in
      st\<lparr>fs_disk := (fs_disk st)(of_nat (bbm g) := bmp_set (fs_disk st (of_nat (bbm g))) (n mod 256 div 8) (n mod 8)),
         bgdtCache := (bgdtCache st)[g := (bgdtCache st ! g)\<lparr>bg_free_blocks_count := bg_free_blocks_count (bgdtCache st ! g) - 1\<rparr>],
         superBlock := (superBlock st)\<lparr>s_free_blocks_count := s_free_blocks_count (superBlock st) - 1\<rparr>\<rparr>)"

definition release_block :: "fs \<Rightarrow> nat \<Rightarrow> fs" where
  "release_block st n =
     (let g = n div 256 in
      st\<lparr>fs_disk := (fs_disk st)(of_nat (bbm g) := bmp_clear (fs_disk st (of_nat (bbm g))) (n mod 256)),
         bgdtCache := (bgdtCache st)[g := (bgdtCache st ! g)\<lparr>bg_free_blocks_count := bg_free_blocks_count (bgdtCache st ! g) + 1\<rparr>],
         superBlock := (superBlock st)\<lparr>s_free_blocks_count := s_free_blocks_count (superBlock st) + 1\<rparr>\<rparr>)"

definition take_inode :: "fs \<Rightarrow> nat \<Rightarrow> fs" where
  "take_inode st n =
     (let g = (n - 1) div 112; k = (n - 1) mod 112 in
      st\<lparr>fs_disk := (fs_disk st)(of_nat (ibm g) := bmp_set (fs_disk st (of_nat (ibm g))) (k div 8) (k mod 8)),
         bgdtCache := (bgdtCache st)[g := (bgdtCache st ! g)\<lparr>bg_free_inodes_count := bg_free_inodes_count (bgdtCache st ! g) - 1\<rparr>],
         superBlock := (superBlock st)\<lparr>s_free_inodes_count := s_free_inodes_count (superBlock st) - 1\<rparr>\<rparr>)"

definition release_inode :: "fs \<Rightarrow> nat \<Rightarrow> fs" where
  "release_inode st n =
     (let g = (n - 1) div 112; k = (n - 1) mod 112 in
      st\<lparr>fs_disk := (fs_disk st)(of_nat (ibm g) := bmp_clear (fs_disk st (of_nat (ibm g))) k),
         bgdtCache := (bgdtCache st)[g := (bgdtCache st ! g)\<lparr>bg_free_inodes_count := bg_free_inodes_count (bgdtCache st ! g) + 1\<rparr>],
         superBlock := (superBlock st)\<lparr>s_free_inodes_count := s_free_inodes_count (superBlock st) + 1\<rparr>\<rparr>)"

text \<open>The state after \<open>sync_metadata\<close>.\<close>

definition synced :: "fs \<Rightarrow> fs" where
  "synced st = the (sync_metadata st)"

lemma sync_metadata_synced: "sync_metadata st = Some (synced st)"
  by (simp add: synced_def sync_metadata_eq)

lemma synced_simps [simp]:
  "superBlock (synced st) = superBlock st" "bgdtCache (synced st) = bgdtCache st"
  "uninit (synced st) = uninit st" "b \<noteq> 1 \<Longrightarrow> b \<noteq> 2 \<Longrightarrow> fs_disk (synced st) b = fs_disk st b"
  by (simp_all add: synced_def sync_metadata_eq)

lemma of_nat_block_eq_numeral: "n < 8192 \<Longrightarrow> of_nat n = (1 :: u32) \<longleftrightarrow> n = 1"
  "n < 8192 \<Longrightarrow> of_nat n = (2 :: u32) \<longleftrightarrow> n = 2"
  using of_nat_u32_eq_iff [of n 1] of_nat_u32_eq_iff [of n 2] by simp_all

lemma synced_disk [simp]: "2 < n \<Longrightarrow> n < 8192 \<Longrightarrow> fs_disk (synced st) (of_nat n) = fs_disk st (of_nat n)"
  by (simp add: of_nat_block_eq_numeral)

lemma take_block_simps [simp]:
  "uninit (take_block st n) = uninit st" "length (bgdtCache (take_block st n)) = length (bgdtCache st)"
  "n < 2048 \<Longrightarrow> b < 8192 \<Longrightarrow> b \<noteq> bbm (n div 256) \<Longrightarrow>
    fs_disk (take_block st n) (of_nat b) = fs_disk st (of_nat b)"
  using div_less_8 [of n] by (simp_all add: take_block_def Let_def)

lemma release_block_simps [simp]:
  "uninit (release_block st n) = uninit st"
  "length (bgdtCache (release_block st n)) = length (bgdtCache st)"
  "n < 2048 \<Longrightarrow> b < 8192 \<Longrightarrow> b \<noteq> bbm (n div 256) \<Longrightarrow>
    fs_disk (release_block st n) (of_nat b) = fs_disk st (of_nat b)"
  using div_less_8 [of n] by (simp_all add: release_block_def Let_def)

lemma take_inode_simps [simp]:
  "uninit (take_inode st n) = uninit st" "length (bgdtCache (take_inode st n)) = length (bgdtCache st)"
  "n \<le> 896 \<Longrightarrow> b < 8192 \<Longrightarrow> b \<noteq> ibm ((n - 1) div 112) \<Longrightarrow>
    fs_disk (take_inode st n) (of_nat b) = fs_disk st (of_nat b)"
  using inode_group_less [of n] by (simp_all add: take_inode_def Let_def)

lemma release_inode_simps [simp]:
  "uninit (release_inode st n) = uninit st"
  "length (bgdtCache (release_inode st n)) = length (bgdtCache st)"
  "n \<le> 896 \<Longrightarrow> b < 8192 \<Longrightarrow> b \<noteq> ibm ((n - 1) div 112) \<Longrightarrow>
    fs_disk (release_inode st n) (of_nat b) = fs_disk st (of_nat b)"
  using inode_group_less [of n] by (simp_all add: release_inode_def Let_def)

lemma layout_ok_marks:
  assumes "layout_ok (bgdtCache st)"
  shows "layout_ok (bgdtCache (take_block st n))" "layout_ok (bgdtCache (release_block st n))"
    "layout_ok (bgdtCache (take_inode st n))" "layout_ok (bgdtCache (release_inode st n))"
  by (simp_all add: take_block_def release_block_def take_inode_def release_inode_def Let_def
      layout_ok_update [OF assms])

text \<open>Which marks change.\<close>

lemma mod_256_8: "n mod 256 mod 8 = n mod (8 :: nat)"
  by (simp add: mod_mod_cancel)

lemma byte_bit: "n div 8 * 8 + n mod 8 = (n :: nat)"
  by simp

lemma block_cell: "m div 256 = n div 256 \<Longrightarrow> m mod 256 = n mod 256 \<longleftrightarrow> m = (n :: nat)"
  by (metis mult_div_mod_eq)

lemma inode_cell: "0 < m \<Longrightarrow> 0 < n \<Longrightarrow> (m - 1) div 112 = (n - 1) div 112 \<Longrightarrow>
    (m - 1) mod 112 = (n - 1) mod 112 \<longleftrightarrow> m = (n :: nat)"
  by (metis Suc_pred' diff_Suc_1 mult_div_mod_eq)

lemma used_take_block:
  assumes "n < 2048" "m < 2048"
  shows "block_used (take_block st n) m \<longleftrightarrow> block_used st m \<or> m = n"
proof (cases "m div 256 = n div 256")
  case True
  have "n mod 256 div 8 * 8 + n mod 8 = n mod 256"
    using byte_bit [of "n mod 256"] by (simp add: mod_256_8)
  then show ?thesis
    using assms True div_less_8 [of n] block_cell [OF True]
    by (simp add: block_used_def take_block_def Let_def bit_used_set)
next
  case False
  then show ?thesis
    using assms div_less_8 [of n] div_less_8 [of m] by (auto simp: block_used_def take_block_def Let_def)
qed

lemma used_release_block:
  assumes "n < 2048" "m < 2048"
  shows "block_used (release_block st n) m \<longleftrightarrow> block_used st m \<and> m \<noteq> n"
proof (cases "m div 256 = n div 256")
  case True
  then show ?thesis
    using assms div_less_8 [of n] block_cell [OF True]
    by (simp add: block_used_def release_block_def Let_def bit_used_clear)
next
  case False
  then show ?thesis
    using assms div_less_8 [of n] div_less_8 [of m] by (auto simp: block_used_def release_block_def Let_def)
qed

lemma used_take_inode:
  assumes "0 < n" "n \<le> 896" "0 < m" "m \<le> 896"
  shows "inode_used (take_inode st n) m \<longleftrightarrow> inode_used st m \<or> m = n"
proof (cases "(m - 1) div 112 = (n - 1) div 112")
  case True
  let ?k = "(n - 1) mod 112"
  show ?thesis
    using assms True inode_group_less [of n] inode_cell [OF assms(3,1) True] byte_bit [of ?k]
    by (simp add: inode_used_def take_inode_def Let_def bit_used_set)
next
  case False
  then show ?thesis
    using assms inode_group_less [of n] inode_group_less [of m]
    by (auto simp: inode_used_def take_inode_def Let_def)
qed

lemma used_release_inode:
  assumes "0 < n" "n \<le> 896" "0 < m" "m \<le> 896"
  shows "inode_used (release_inode st n) m \<longleftrightarrow> inode_used st m \<and> m \<noteq> n"
proof (cases "(m - 1) div 112 = (n - 1) div 112")
  case True
  then show ?thesis
    using assms inode_group_less [of n] inode_cell [OF assms(3,1) True]
    by (simp add: inode_used_def release_inode_def Let_def bit_used_clear)
next
  case False
  then show ?thesis
    using assms inode_group_less [of n] inode_group_less [of m]
    by (auto simp: inode_used_def release_inode_def Let_def)
qed

lemma used_cross [simp]:
  "n < 2048 \<Longrightarrow> 0 < m \<Longrightarrow> m \<le> 896 \<Longrightarrow> inode_used (take_block st n) m = inode_used st m"
  "n < 2048 \<Longrightarrow> 0 < m \<Longrightarrow> m \<le> 896 \<Longrightarrow> inode_used (release_block st n) m = inode_used st m"
  "0 < n \<Longrightarrow> n \<le> 896 \<Longrightarrow> m < 2048 \<Longrightarrow> block_used (take_inode st n) m = block_used st m"
  "0 < n \<Longrightarrow> n \<le> 896 \<Longrightarrow> m < 2048 \<Longrightarrow> block_used (release_inode st n) m = block_used st m"
  using inode_group_less [of m] inode_group_less [of n] div_less_8 [of m] div_less_8 [of n]
  by (simp_all add: inode_used_def block_used_def)

text \<open>Marking and releasing keep the invariant.\<close>

lemma group_less_2048: "g < 8 \<Longrightarrow> n div 256 = g \<Longrightarrow> n < (2048 :: nat)"
  by auto

lemma group_less_896: "g < 8 \<Longrightarrow> (n - 1) div 112 = g \<Longrightarrow> n \<le> (896 :: nat)"
  by auto

lemma free_blocks_take:
  assumes "n < 2048" "g < 8"
  shows "free_blocks_in (take_block st n) g = free_blocks_in st g - {n}"
  using assms group_less_2048 [OF assms(2)] by (auto simp: free_blocks_in_def used_take_block)

lemma free_blocks_release:
  assumes "n < 2048" "g < 8"
  shows "free_blocks_in (release_block st n) g =
    (if n div 256 = g then insert n (free_blocks_in st g) else free_blocks_in st g)"
  using assms group_less_2048 [OF assms(2)] by (auto simp: free_blocks_in_def used_release_block)

lemma free_inodes_take:
  assumes "0 < n" "n \<le> 896" "g < 8"
  shows "free_inodes_in (take_inode st n) g = free_inodes_in st g - {n}"
  using assms group_less_896 [OF assms(3)] by (auto simp: free_inodes_in_def used_take_inode)

lemma free_inodes_release:
  assumes "0 < n" "n \<le> 896" "g < 8"
  shows "free_inodes_in (release_inode st n) g =
    (if (n - 1) div 112 = g then insert n (free_inodes_in st g) else free_inodes_in st g)"
  using assms group_less_896 [OF assms(3)] by (auto simp: free_inodes_in_def used_release_inode)

lemma free_cross:
  "n < 2048 \<Longrightarrow> g < 8 \<Longrightarrow> free_inodes_in (take_block st n) g = free_inodes_in st g"
  "n < 2048 \<Longrightarrow> g < 8 \<Longrightarrow> free_inodes_in (release_block st n) g = free_inodes_in st g"
  "0 < n \<Longrightarrow> n \<le> 896 \<Longrightarrow> g < 8 \<Longrightarrow> free_blocks_in (take_inode st n) g = free_blocks_in st g"
  "0 < n \<Longrightarrow> n \<le> 896 \<Longrightarrow> g < 8 \<Longrightarrow> free_blocks_in (release_inode st n) g = free_blocks_in st g"
  using group_less_896 [of g] group_less_2048 [of g]
  by (auto simp: free_inodes_in_def free_blocks_in_def)

lemma unat_u16_minus1: "unat (c :: u16) = Suc k \<Longrightarrow> unat (c - 1) = k"
  by (cases "c = 0") (simp_all add: unat_minus_one)

lemma unat_u16_plus1: "unat (c :: u16) = k \<Longrightarrow> k < 65535 \<Longrightarrow> unat (c + 1) = Suc k"
  by (simp add: unat_word_ariths)

lemma free_member:
  "\<not> block_used st n \<Longrightarrow> n \<in> free_blocks_in st (n div 256)"
  "0 < n \<Longrightarrow> \<not> inode_used st n \<Longrightarrow> n \<in> free_inodes_in st ((n - 1) div 112)"
  by (simp_all add: free_blocks_in_def free_inodes_in_def)

text \<open>The counts of the descriptors after each of the four.\<close>

lemma count_marks [simp]:
  assumes "g < length (bgdtCache st)"
  shows "bg_free_blocks_count (bgdtCache (take_block st n) ! g) =
      (let c = bg_free_blocks_count (bgdtCache st ! g) in if g = n div 256 then c - 1 else c)"
    and "bg_free_blocks_count (bgdtCache (release_block st n) ! g) =
      (let c = bg_free_blocks_count (bgdtCache st ! g) in if g = n div 256 then c + 1 else c)"
    and "bg_free_inodes_count (bgdtCache (take_inode st n) ! g) =
      (let c = bg_free_inodes_count (bgdtCache st ! g) in if g = (n - 1) div 112 then c - 1 else c)"
    and "bg_free_inodes_count (bgdtCache (release_inode st n) ! g) =
      (let c = bg_free_inodes_count (bgdtCache st ! g) in if g = (n - 1) div 112 then c + 1 else c)"
    and "bg_free_inodes_count (bgdtCache (take_block st n) ! g) = bg_free_inodes_count (bgdtCache st ! g)"
    and "bg_free_inodes_count (bgdtCache (release_block st n) ! g) = bg_free_inodes_count (bgdtCache st ! g)"
    and "bg_free_blocks_count (bgdtCache (take_inode st n) ! g) = bg_free_blocks_count (bgdtCache st ! g)"
    and "bg_free_blocks_count (bgdtCache (release_inode st n) ! g) = bg_free_blocks_count (bgdtCache st ! g)"
  using assms by (simp_all add: take_block_def release_block_def take_inode_def release_inode_def
      Let_def nth_list_upd)

lemma card_remove_free: "finite F \<Longrightarrow> n \<in> F \<Longrightarrow> unat (c :: u16) = card F \<Longrightarrow> unat (c - 1) = card (F - {n})"
  by (rule unat_u16_minus1) (metis card.remove)

lemma card_insert_free:
  "finite F \<Longrightarrow> n \<notin> F \<Longrightarrow> unat (c :: u16) = card F \<Longrightarrow> card F \<le> 256 \<Longrightarrow>
    unat (c + 1) = card (insert n F)"
  by (simp add: unat_u16_plus1)

lemma counts_take_block:
  assumes "counts_ok st" "length (bgdtCache st) = 8" "n < 2048" "\<not> block_used st n"
  shows "counts_ok (take_block st n)"
  unfolding counts_ok_def
proof (intro allI impI conjI)
  fix g :: nat
  assume g: "g < 8"
  have cnt: "unat (bg_free_blocks_count (bgdtCache st ! g)) = card (free_blocks_in st g)"
    "unat (bg_free_inodes_count (bgdtCache st ! g)) = card (free_inodes_in st g)"
    using assms(1) g by (auto simp: counts_ok_def)
  have "free_blocks_in st g - {n} = free_blocks_in st g" if "g \<noteq> n div 256"
    using that by (auto simp: free_blocks_in_def)
  then show "unat (bg_free_blocks_count (bgdtCache (take_block st n) ! g)) = card (free_blocks_in (take_block st n) g)"
    using cnt(1) assms(2,3) g card_remove_free [OF finite_free_blocks free_member(1) [OF assms(4)]]
    by (auto simp: free_blocks_take Let_def)
  show "unat (bg_free_inodes_count (bgdtCache (take_block st n) ! g)) = card (free_inodes_in (take_block st n) g)"
    using cnt(2) assms(2,3) g by (simp add: free_cross)
qed

lemma counts_release_block:
  assumes "counts_ok st" "length (bgdtCache st) = 8" "n < 2048" "block_used st n"
  shows "counts_ok (release_block st n)"
  unfolding counts_ok_def
proof (intro allI impI conjI)
  fix g :: nat
  assume g: "g < 8"
  have cnt: "unat (bg_free_blocks_count (bgdtCache st ! g)) = card (free_blocks_in st g)"
    "unat (bg_free_inodes_count (bgdtCache st ! g)) = card (free_inodes_in st g)"
    using assms(1) g by (auto simp: counts_ok_def)
  have "n \<notin> free_blocks_in st g" using assms(4) by (simp add: free_blocks_in_def)
  from card_insert_free [OF finite_free_blocks this cnt(1) card_free_blocks_le]
  show "unat (bg_free_blocks_count (bgdtCache (release_block st n) ! g)) = card (free_blocks_in (release_block st n) g)"
    using cnt(1) assms(2,3) g by (auto simp: free_blocks_release Let_def)
  show "unat (bg_free_inodes_count (bgdtCache (release_block st n) ! g)) = card (free_inodes_in (release_block st n) g)"
    using cnt(2) assms(2,3) g by (simp add: free_cross)
qed

lemma counts_take_inode:
  assumes "counts_ok st" "length (bgdtCache st) = 8" "0 < n" "n \<le> 896" "\<not> inode_used st n"
  shows "counts_ok (take_inode st n)"
  unfolding counts_ok_def
proof (intro allI impI conjI)
  fix g :: nat
  assume g: "g < 8"
  have cnt: "unat (bg_free_blocks_count (bgdtCache st ! g)) = card (free_blocks_in st g)"
    "unat (bg_free_inodes_count (bgdtCache st ! g)) = card (free_inodes_in st g)"
    using assms(1) g by (auto simp: counts_ok_def)
  have "free_inodes_in st g - {n} = free_inodes_in st g" if "g \<noteq> (n - 1) div 112"
    using that by (auto simp: free_inodes_in_def)
  then show "unat (bg_free_inodes_count (bgdtCache (take_inode st n) ! g)) = card (free_inodes_in (take_inode st n) g)"
    using cnt(2) assms(2-4) g card_remove_free [OF finite_free_inodes free_member(2) [OF assms(3,5)]]
    by (auto simp: free_inodes_take Let_def)
  show "unat (bg_free_blocks_count (bgdtCache (take_inode st n) ! g)) = card (free_blocks_in (take_inode st n) g)"
    using cnt(1) assms(2-4) g by (simp add: free_cross)
qed

lemma counts_release_inode:
  assumes "counts_ok st" "length (bgdtCache st) = 8" "0 < n" "n \<le> 896" "inode_used st n"
  shows "counts_ok (release_inode st n)"
  unfolding counts_ok_def
proof (intro allI impI conjI)
  fix g :: nat
  assume g: "g < 8"
  have cnt: "unat (bg_free_blocks_count (bgdtCache st ! g)) = card (free_blocks_in st g)"
    "unat (bg_free_inodes_count (bgdtCache st ! g)) = card (free_inodes_in st g)"
    using assms(1) g by (auto simp: counts_ok_def)
  have "n \<notin> free_inodes_in st g" using assms(5) by (simp add: free_inodes_in_def)
  moreover have "card (free_inodes_in st g) \<le> 256"
    using card_free_inodes_le [of st g] by simp
  ultimately have "unat (bg_free_inodes_count (bgdtCache st ! g) + 1) = card (insert n (free_inodes_in st g))"
    using card_insert_free [OF finite_free_inodes _ cnt(2)] by blast
  then show "unat (bg_free_inodes_count (bgdtCache (release_inode st n) ! g)) = card (free_inodes_in (release_inode st n) g)"
    using cnt(2) assms(2-4) g by (auto simp: free_inodes_release Let_def)
  show "unat (bg_free_blocks_count (bgdtCache (release_inode st n) ! g)) = card (free_blocks_in (release_inode st n) g)"
    using cnt(1) assms(2-4) g by (simp add: free_cross)
qed

lemma inv_layout: "fs_ok st \<Longrightarrow> layout_ok (bgdtCache st)" "fs_ok st \<Longrightarrow> length (bgdtCache st) = 8"
  by (auto simp: fs_ok_def layout_ok_def)

lemma inv_reserved: "fs_ok st \<Longrightarrow> n < 2048 \<Longrightarrow> reserved n \<Longrightarrow> block_used st n"
  by (simp add: fs_ok_def)

lemma inv_take_block: "fs_ok st \<Longrightarrow> n < 2048 \<Longrightarrow> \<not> block_used st n \<Longrightarrow> fs_ok (take_block st n)"
  using layout_ok_marks(1) [of st n] counts_take_block [of st n]
  by (auto simp: fs_ok_def used_take_block layout_ok_def)

lemma inv_release_block:
  "fs_ok st \<Longrightarrow> n < 2048 \<Longrightarrow> block_used st n \<Longrightarrow> \<not> reserved n \<Longrightarrow> fs_ok (release_block st n)"
  using layout_ok_marks(2) [of st n] counts_release_block [of st n]
  by (auto simp: fs_ok_def used_release_block layout_ok_def)

lemma inv_take_inode:
  "fs_ok st \<Longrightarrow> 0 < n \<Longrightarrow> n \<le> 896 \<Longrightarrow> \<not> inode_used st n \<Longrightarrow> fs_ok (take_inode st n)"
  using layout_ok_marks(3) [of st n] counts_take_inode [of st n] by (auto simp: fs_ok_def layout_ok_def)

lemma inv_release_inode:
  "fs_ok st \<Longrightarrow> 0 < n \<Longrightarrow> n \<le> 896 \<Longrightarrow> inode_used st n \<Longrightarrow> fs_ok (release_inode st n)"
  using layout_ok_marks(4) [of st n] counts_release_inode [of st n] by (auto simp: fs_ok_def layout_ok_def)

lemma same_bitmaps_synced: "same_bitmaps st (synced st)"
  by (simp add: same_bitmaps_def)

lemma same_layout_refl: "layout_ok table \<Longrightarrow> same_layout table table"
  by (simp add: same_layout_def)

lemma inv_synced: "fs_ok st \<Longrightarrow> fs_ok (synced st)"
  by (rule inv_same_bitmaps [OF _ same_bitmaps_synced]) (simp_all add: same_layout_refl inv_layout)

lemma used_synced [simp]:
  "n < 2048 \<Longrightarrow> block_used (synced st) n = block_used st n"
  "n \<le> 896 \<Longrightarrow> inode_used (synced st) n = inode_used st n"
  using same_bitmaps_used [OF same_bitmaps_synced] by blast+

subsection \<open>The code implements the reference\<close>

lemma index_in_group: "i < 256 \<Longrightarrow> (bg * 256 + i) div 256 = bg \<and> (bg * 256 + i) mod 256 = (i :: nat)"
  by simp

lemma index_in_table: "i < 112 \<Longrightarrow> (bg * 112 + i) div 112 = bg \<and> (bg * 112 + i) mod 112 = (i :: nat)"
  by simp

lemma alloc_in_group_eq:
  assumes "fs_ok st" "bg < 8"
  shows "alloc_in_group st bg =
    Some (case List.find (\<lambda>n. \<not> block_used st n) [256 * bg..<256 * bg + 256] of
       None \<Rightarrow> (None, st) | Some n \<Rightarrow> (Some (of_nat n), take_block st n))"
proof -
  let ?m = "fs_disk st (of_nat (bbm bg))" and ?d = "bgdtCache st ! bg"
  note layout = layout_okD [OF inv_layout(1) [OF assms(1)]]
  have "[256 * bg..<256 * bg + 256] = map (\<lambda>i. i + 256 * bg) [0..<256]"
    using map_add_upt [of "256 * bg" 256] by (simp add: add.commute)
  then have "List.find (\<lambda>n. \<not> block_used st n) [256 * bg..<256 * bg + 256] =
      map_option (\<lambda>i. i + 256 * bg) (List.find (\<lambda>i. \<not> block_used st (i + 256 * bg)) [0..<256])"
    by (simp add: find_map comp_def)
  also have "List.find (\<lambda>i. \<not> block_used st (i + 256 * bg)) [0..<256] =
      List.find (\<lambda>i. \<not> bit_used ?m i) [0..<256]"
    by (rule find_cong_on) (simp add: block_used_def)
  also have "\<dots> = map_option (\<lambda>(b, k). b * 8 + k) (find_free_bit ?m 256)"
    by (rule find_free_bit_find [symmetric]) simp
  also have "map_option (\<lambda>i. i + 256 * bg) \<dots> = map_option (\<lambda>(b, k). 256 * bg + (b * 8 + k)) (find_free_bit ?m 256)"
    by (cases "find_free_bit ?m 256") auto
  finally have find: "List.find (\<lambda>n. \<not> block_used st n) [256 * bg..<256 * bg + 256] =
      map_option (\<lambda>(b, k). 256 * bg + (b * 8 + k)) (find_free_bit ?m 256)" .
  show ?thesis
  proof (cases "bg_free_blocks_count ?d > 0")
    case False
    then have "unat (bg_free_blocks_count ?d) = 0"
      by (simp add: word_gt_0)
    then have "free_blocks_in st bg = {}"
      using assms by (simp add: fs_ok_def counts_ok_def card_eq_0_iff)
    then have "block_used st n" if "n \<in> {256 * bg..<256 * bg + 256}" for n
      using that by (auto simp: free_blocks_in_def)
    then have "List.find (\<lambda>n. \<not> block_used st n) [256 * bg..<256 * bg + 256] = None"
      by (simp add: find_None_iff)
    with False assms layout(1) show ?thesis by (simp add: alloc_in_group_def)
  next
    case True
    show ?thesis
    proof (cases "find_free_bit ?m 256")
      case None
      with True assms layout(1,2) show ?thesis
        by (simp add: alloc_in_group_def find read_block_eq unat_of_nat_block)
    next
      case (Some p)
      then obtain byte k where p: "find_free_bit ?m 256 = Some (byte, k)" by (cases p) auto
      note bits = find_free_bit_Some(1-3) [OF p, simplified]
      let ?n = "256 * bg + (byte * 8 + k)"
      have "?n mod 8 = k"
        using bits mod_mod_cancel [of 8 256 ?n] by (simp add: mult_add_mod)
      then have n: "?n div 256 = bg" "?n mod 256 = byte * 8 + k" "?n mod 8 = k" "bg * 256 + (byte * 8 + k) = ?n"
        using bits by (simp_all add: mult_add_div mult_add_mod)
      have "alloc_in_group st bg = Some (Some (of_nat ?n), take_block st ?n)"
        unfolding take_block_def alloc_in_group_def Let_def n(1-3)
        using True assms layout(1,2) p bits(1,2)
        by (simp add: read_block_eq write_block_eq unat_of_nat_block upd_bgd_def upd_super_def algebra_simps)
      moreover have "List.find (\<lambda>n. \<not> block_used st n) [256 * bg..<256 * bg + 256] = Some ?n"
        unfolding find p by simp
      ultimately show ?thesis by simp
    qed
  qed
qed

lemma alloc_from_eq:
  assumes "fs_ok st" "bg + n \<le> 8"
  shows "alloc_from st bg n =
    Some (case List.find (\<lambda>n. \<not> block_used st n) [256 * bg..<256 * (bg + n)] of
       None \<Rightarrow> (None, st) | Some n \<Rightarrow> (Some (of_nat n), take_block st n))"
  using assms(2)
proof (induction n arbitrary: bg)
  case 0
  show ?case by simp
next
  case (Suc n)
  have split: "[256 * bg..<256 * (bg + Suc n)] = [256 * bg..<256 * bg + 256] @ [256 * Suc bg..<256 * (Suc bg + n)]"
    using upt_add_eq_append [of "256 * bg" "256 * bg + 256" "256 * n"] by (simp add: algebra_simps)
  have "bg < 8" "Suc bg + n \<le> 8" using Suc.prems by simp_all
  note eqs = alloc_in_group_eq [OF assms(1) this(1)] Suc.IH [OF this(2)]
  show ?case
    unfolding split find_append alloc_from.simps eqs
    by (cases "List.find (\<lambda>n. \<not> block_used st n) [256 * bg..<256 * bg + 256]") (simp_all add: eqs(2))
qed

text \<open>The search over groups, bytes and bits is the search for the first free block.\<close>

lemma alloc_block_eq:
  assumes "fs_ok st"
  shows "alloc_block st pref =
    Some (case List.find (\<lambda>n. \<not> block_used st n) [256 * unat pref..<2048] of
       None \<Rightarrow> (None, st) | Some n \<Rightarrow> (Some (of_nat n), take_block st n))"
proof (cases "unat pref \<le> 8")
  case True
  then show ?thesis
    using alloc_from_eq [OF assms, of "unat pref" "8 - unat pref"] by (simp add: alloc_block_def)
next
  case False
  then show ?thesis by (simp add: alloc_block_def)
qed

lemma free_block_eq:
  assumes "fs_ok st" "unat b < 2048"
  shows "free_block st b = Some (release_block st (unat b))"
proof -
  note layout = layout_okD [OF inv_layout(1) [OF assms(1)]]
  have "unat b div 256 < 8" using assms(2) by auto
  then show ?thesis
    using layout(1,2) by (simp add: free_block_def release_block_def Let_def unat_div unat_mod read_block_eq
        write_block_eq unat_of_nat_block upd_bgd_def upd_super_def)
qed

text \<open>Freeing the block that was just allocated gives back the state.\<close>

lemma bmp_clear_set: "k < 8 \<Longrightarrow> \<not> bit_used m (byte * 8 + k) \<Longrightarrow> bmp_clear (bmp_set m byte k) (byte * 8 + k) = m"
proof -
  assume k: "k < 8" and "\<not> bit_used m (byte * 8 + k)"
  then have "\<not> bit (m byte) k" by (simp add: bit_used_def)
  then have "(m byte OR push_bit k 1) AND NOT (push_bit k 1) = m byte"
    by (intro bit_word_eqI) (auto simp: bit_simps)
  then show ?thesis
    using k by (simp add: bmp_clear_def bmp_set_def)
qed

lemma release_take_block:
  assumes "fs_ok st" "n < 2048" "\<not> block_used st n"
  shows "release_block (take_block st n) n = st"
proof -
  have "n mod 256 div 8 * 8 + n mod 8 = n mod 256"
    using byte_bit [of "n mod 256"] by (simp add: mod_256_8)
  then have "bmp_clear (bmp_set (fs_disk st (of_nat (bbm (n div 256)))) (n mod 256 div 8) (n mod 8)) (n mod 256) =
      fs_disk st (of_nat (bbm (n div 256)))"
    using bmp_clear_set [of "n mod 8" "fs_disk st (of_nat (bbm (n div 256)))" "n mod 256 div 8"] assms(3)
    by (simp add: block_used_def)
  moreover have "n div 256 < length (bgdtCache st)"
    using assms(2) inv_layout(2) [OF assms(1)] by auto
  ultimately show ?thesis
    by (simp add: release_block_def take_block_def Let_def)
qed

text \<open>The loop of \<open>write\<close> finds the same block as the others, because block 0 is never free.\<close>

lemma newblock_bytes_eq:
  assumes "bgdtCache st ! bg = d" "bg < length (bgdtCache st)" "unat (bg_block_bitmap d) < 8192"
    and "\<And>k. bg = 0 \<Longrightarrow> byte = 0 \<Longrightarrow> scan_byte bmp 256 byte = Some k \<Longrightarrow> k \<noteq> 0" and "bg < 8"
  shows "newblock_bytes st bmp bg byte n =
    (case scan_bytes bmp 256 byte n of
       None \<Rightarrow> Some (0, st)
     | Some (byte, k) \<Rightarrow> do {
         st \<leftarrow> write_block st (bmp_set bmp byte k) (bg_block_bitmap d);
         st \<leftarrow> upd_bgd st bg (\<lambda>d. d\<lparr>bg_free_blocks_count := bg_free_blocks_count d - 1\<rparr>);
         let st = upd_super st (\<lambda>sb. sb\<lparr>s_free_blocks_count := s_free_blocks_count sb - 1\<rparr>);
         Some (of_nat (bg * 256 + (byte * 8 + k)), st)
       })"
  using assms(4)
proof (induction n arbitrary: byte)
  case 0
  show ?case by simp
next
  case (Suc n)
  have IH: "newblock_bytes st bmp bg (Suc byte) n =
      (case scan_bytes bmp 256 (Suc byte) n of
       None \<Rightarrow> Some (0, st)
     | Some (byte, k) \<Rightarrow> do {
         st \<leftarrow> write_block st (bmp_set bmp byte k) (bg_block_bitmap d);
         st \<leftarrow> upd_bgd st bg (\<lambda>d. d\<lparr>bg_free_blocks_count := bg_free_blocks_count d - 1\<rparr>);
         let st = upd_super st (\<lambda>sb. sb\<lparr>s_free_blocks_count := s_free_blocks_count sb - 1\<rparr>);
         Some (of_nat (bg * 256 + (byte * 8 + k)), st)
       })"
    by (rule Suc.IH) simp
  show ?case
  proof (cases "bmp byte \<noteq> 0xFF \<and> scan_byte bmp 256 byte \<noteq> None")
    case False
    then show ?thesis by (auto simp: IH)
  next
    case True
    then obtain k where k: "bmp byte \<noteq> 0xFF" "scan_byte bmp 256 byte = Some k" by auto
    from scan_byte_less [OF k(2)] Suc.prems [OF _ _ k(2)]
    have "0 < bg * 256 + (byte * 8 + k)" and "bg * 256 + (byte * 8 + k) < 2048"
      using assms(5) by auto
    then have "of_nat (bg * 256 + (byte * 8 + k)) \<noteq> (0 :: u32)"
      using of_nat_u32_eq_iff [of "bg * 256 + (byte * 8 + k)" 0] by simp
    then show ?thesis
      using k assms(1-3) by (simp add: write_block_eq upd_bgd_def Let_def del: of_nat_add of_nat_mult)
  qed
qed

lemma newblock_round_eq:
  assumes "fs_ok st" "bg < 8"
  shows "newblock_from st bg (Suc n) =
    do {(r, st) \<leftarrow> alloc_in_group st bg;
        case r of Some b \<Rightarrow> Some (b, st) | None \<Rightarrow> newblock_from st (Suc bg) n}"
proof -
  let ?d = "bgdtCache st ! bg" and ?m = "fs_disk st (of_nat (bbm bg))"
  let ?bmp = "overlay ?m (uninit st)"
  note layout = layout_okD [OF inv_layout(1) [OF assms(1)]]
  have block: "unat (bg_block_bitmap ?d) < 8192" "bg_block_bitmap ?d = of_nat (bbm bg)"
    using layout(2) [OF assms(2)] assms(2) by (simp_all add: unat_of_nat_block)
  have no_zero: "k \<noteq> 0" if "bg = 0" "scan_byte ?bmp 256 0 = Some k" for k
  proof
    assume "k = 0"
    with that(2) have "\<not> bit_used ?bmp 0"
      by (auto simp: scan_byte_def find_Some_iff bmp_test_iff takeWhile_group)
    then have "\<not> block_used st 0"
      using that(1) by (simp add: block_used_def bit_used_def)
    with assms(1) show False by (simp add: inv_reserved reserved_def)
  qed
  then have bytes: "newblock_bytes st ?bmp bg 0 512 =
      (case find_free_bit ?bmp 256 of
         None \<Rightarrow> Some (0, st)
       | Some (byte, k) \<Rightarrow> do {
           st \<leftarrow> write_block st (bmp_set ?bmp byte k) (bg_block_bitmap ?d);
           st \<leftarrow> upd_bgd st bg (\<lambda>d. d\<lparr>bg_free_blocks_count := bg_free_blocks_count d - 1\<rparr>);
           let st = upd_super st (\<lambda>sb. sb\<lparr>s_free_blocks_count := s_free_blocks_count sb - 1\<rparr>);
           Some (of_nat (bg * 256 + (byte * 8 + k)), st)
         })"
    using newblock_bytes_eq [OF refl _ block(1), of 0 ?bmp 512] assms(2) layout(1)
    by (simp add: find_free_bit_def)
  show ?thesis
  proof (cases "bg_free_blocks_count ?d > 0")
    case False
    then show ?thesis
      using assms(2) layout(1) by (auto simp: alloc_in_group_def word_gt_0)
  next
    case True
    show ?thesis
    proof (cases "find_free_bit ?bmp 256")
      case None
      then show ?thesis
        using True assms(2) layout(1) block bytes by (simp add: alloc_in_group_def read_block_eq word_gt_0)
    next
      case (Some p)
      then obtain byte k where p: "find_free_bit ?bmp 256 = Some (byte, k)" by (cases p) auto
      have "byte * 8 + k \<noteq> 0" if "bg = 0"
      proof -
        have "bit_used ?bmp 0"
          using inv_reserved [OF assms(1), of 0] that by (simp add: reserved_def block_used_def bit_used_def)
        with find_free_bit_Some(4) [OF p] show ?thesis by (cases "byte * 8 + k = 0") auto
      qed
      moreover have "byte * 8 + k < 256"
        using find_free_bit_Some(3) [OF p] by simp
      ultimately have "of_nat (bg * 256 + (byte * 8 + k)) \<noteq> (0 :: u32)"
        using of_nat_u32_eq_iff [of "bg * 256 + (byte * 8 + k)" 0] assms(2) by auto
      then show ?thesis
        using True p assms(2) layout(1) block bytes
        by (simp add: alloc_in_group_def read_block_eq write_block_eq upd_bgd_def word_gt_0 Let_def
            del: of_nat_add of_nat_mult find_free_bit_overlay)
    qed
  qed
qed

lemma newblock_from_eq:
  assumes "fs_ok st" "bg + n \<le> 8"
  shows "newblock_from st bg n = do {(r, st) \<leftarrow> alloc_from st bg n;
     Some (case r of Some b \<Rightarrow> b | None \<Rightarrow> 0, st)}"
  using assms(2)
proof (induction n arbitrary: bg)
  case 0
  show ?case by simp
next
  case (Suc n)
  then have "bg < 8" by simp
  with Suc assms(1) show ?case
    unfolding newblock_round_eq [OF assms(1) \<open>bg < 8\<close>]
    by (simp add: alloc_in_group_eq split: option.split del: newblock_from.simps)
qed

lemma alloc_newblock_eq:
  assumes "fs_ok st"
  shows "alloc_newblock st pref = do {(r, st) \<leftarrow> alloc_block st pref;
     Some (case r of Some b \<Rightarrow> b | None \<Rightarrow> 0, st)}"
proof (cases "unat pref \<le> 8")
  case True
  then show ?thesis
    using newblock_from_eq [OF assms, of "unat pref" "8 - unat pref"]
    by (simp add: alloc_newblock_def alloc_block_def)
next
  case False
  then show ?thesis by (simp add: alloc_newblock_def alloc_block_def)
qed

text \<open>\<open>allocate_node\<close> is the search for the first free inode.\<close>

lemma find_in_table:
  assumes "i < 8"
  shows "List.find (\<lambda>n. \<not> inode_used st n) [112 * i + 1..<112 * i + 113] =
    map_option (\<lambda>(b, k). 112 * i + (b * 8 + k) + 1) (find_free_bit (fs_disk st (of_nat (ibm i))) 112)"
proof -
  let ?m = "fs_disk st (of_nat (ibm i))"
  have "[112 * i + 1..<112 * i + 113] = map (\<lambda>j. j + (112 * i + 1)) [0..<112]"
    using map_add_upt [of "112 * i + 1" 112] by (simp add: add.commute)
  then have "List.find (\<lambda>n. \<not> inode_used st n) [112 * i + 1..<112 * i + 113] =
      map_option (\<lambda>j. j + (112 * i + 1)) (List.find (\<lambda>j. \<not> inode_used st (j + (112 * i + 1))) [0..<112])"
    by (simp add: find_map comp_def)
  also have "List.find (\<lambda>j. \<not> inode_used st (j + (112 * i + 1))) [0..<112] =
      List.find (\<lambda>j. \<not> bit_used ?m j) [0..<112]"
    by (rule find_cong_on) (simp add: inode_used_def)
  also have "\<dots> = map_option (\<lambda>(b, k). b * 8 + k) (find_free_bit ?m 112)"
    by (rule find_free_bit_find [symmetric]) simp
  also have "map_option (\<lambda>j. j + (112 * i + 1)) \<dots> =
      map_option (\<lambda>(b, k). 112 * i + (b * 8 + k) + 1) (find_free_bit ?m 112)"
    by (cases "find_free_bit ?m 112") auto
  finally show ?thesis .
qed

lemma alloc_node_in_eq:
  assumes "fs_ok st" "i < 8"
  shows "alloc_node_in st i =
    Some (case List.find (\<lambda>n. \<not> inode_used st n) [112 * i + 1..<112 * i + 113] of
       None \<Rightarrow> (0, st) | Some n \<Rightarrow> (of_nat n, synced (take_inode st n)))"
proof -
  let ?m = "fs_disk st (of_nat (ibm i))" and ?d = "bgdtCache st ! i"
  note layout = layout_okD [OF inv_layout(1) [OF assms(1)]]
  note find = find_in_table [OF assms(2), of st]
  show ?thesis
  proof (cases "bg_free_inodes_count ?d > 0")
    case False
    then have "unat (bg_free_inodes_count ?d) = 0"
      by (simp add: word_gt_0)
    then have "free_inodes_in st i = {}"
      using assms by (simp add: fs_ok_def counts_ok_def card_eq_0_iff)
    moreover have "(n - 1) div 112 = i" if "n \<in> {112 * i + 1..<112 * i + 113}" for n
      using that by auto
    ultimately have "inode_used st n" if "n \<in> {112 * i + 1..<112 * i + 113}" for n
      using that unfolding free_inodes_in_def by fastforce
    then have "List.find (\<lambda>n. \<not> inode_used st n) [112 * i + 1..<112 * i + 113] = None"
      by (simp add: find_None_iff)
    with False assms layout(1) show ?thesis by (simp add: alloc_node_in_def)
  next
    case True
    show ?thesis
    proof (cases "find_free_bit ?m 112")
      case None
      with True assms layout(1,3) show ?thesis
        unfolding find by (simp add: alloc_node_in_def read_block_eq unat_of_nat_block None)
    next
      case (Some p)
      then obtain byte k where p: "find_free_bit ?m 112 = Some (byte, k)" by (cases p) auto
      note bits = find_free_bit_Some(1-3) [OF p, simplified]
      let ?j = "112 * i + (byte * 8 + k)"
      have n: "?j div 112 = i" "?j mod 112 = byte * 8 + k" "i * 112 + (byte * 8 + k) + 1 = ?j + 1"
        using bits by (simp_all add: mult_add_div mult_add_mod)
      have "alloc_node_in st i = Some (of_nat (?j + 1), synced (take_inode st (?j + 1)))"
        unfolding take_inode_def alloc_node_in_def Let_def add_diff_cancel_right' n(1,2)
        using True assms layout(1,3) p bits(1,2)
        by (simp add: read_block_eq write_block_eq unat_of_nat_block upd_bgd_def upd_super_def
            sync_metadata_synced algebra_simps)
      then show ?thesis unfolding find p by simp
    qed
  qed
qed

lemma alloc_node_in_range: "i < 8 \<Longrightarrow> n \<in> set [112 * i + 1..<112 * i + 113] \<Longrightarrow> of_nat n \<noteq> (0 :: u32)"
  using of_nat_u32_eq_iff [of n 0] by auto

lemma allocate_node_from_eq:
  assumes "fs_ok st" "i + n \<le> 8"
  shows "allocate_node_from st i n =
    Some (case List.find (\<lambda>n. \<not> inode_used st n) [112 * i + 1..<112 * (i + n) + 1] of
       None \<Rightarrow> (0, st) | Some n \<Rightarrow> (of_nat n, synced (take_inode st n)))"
  using assms(2)
proof (induction n arbitrary: i)
  case 0
  show ?case by simp
next
  case (Suc n)
  have split: "[112 * i + 1..<112 * (i + Suc n) + 1] =
      [112 * i + 1..<112 * i + 113] @ [112 * Suc i + 1..<112 * (Suc i + n) + 1]"
    using upt_add_eq_append [of "112 * i + 1" "112 * i + 113" "112 * n"] by (simp add: algebra_simps)
  have i: "i < 8" "Suc i + n \<le> 8" using Suc.prems by simp_all
  note eqs = alloc_node_in_eq [OF assms(1) i(1)] Suc.IH [OF i(2)]
  show ?case
  proof (cases "List.find (\<lambda>n. \<not> inode_used st n) [112 * i + 1..<112 * i + 113]")
    case None
    then show ?thesis
      unfolding split find_append allocate_node_from.simps eqs by (simp add: eqs(2))
  next
    case (Some m)
    then have "of_nat m \<noteq> (0 :: u32)"
      using alloc_node_in_range [OF i(1), of m] by (auto simp: find_Some_iff)
    with Some show ?thesis
      unfolding split find_append allocate_node_from.simps eqs by simp
  qed
qed

lemma allocate_node_eq:
  assumes "fs_ok st"
  shows "allocate_node st =
    Some (case List.find (\<lambda>n. \<not> inode_used st n) [1..<897] of
       None \<Rightarrow> (0, st) | Some n \<Rightarrow> (of_nat n, synced (take_inode st n)))"
  using allocate_node_from_eq [OF assms, of 0 8] by (simp add: allocate_node_def)

subsection \<open>The interface of an allocator\<close>

text \<open>
  What the rest of the driver relies on, for blocks and for inodes alike: an allocation never
  faults; it hands out an item that was free and marks it and no other; it fails only when
  every item it searches is in use, and then changes nothing.
\<close>

fun allocs :: "('s \<Rightarrow> (nat option \<times> 's) option) \<Rightarrow> nat \<Rightarrow> 's \<Rightarrow> (nat list \<times> 's) option" where
  "allocs f 0 s = Some ([], s)"
| "allocs f (Suc k) s = do {
     (r, s) \<leftarrow> f s;
     case r of
       None \<Rightarrow> Some ([], s)
     | Some n \<Rightarrow> do {
         (ns, s) \<leftarrow> allocs f k s;
         Some (n # ns, s)
       }
   }"

locale allocator =
  fixes good :: "'s \<Rightarrow> bool" and in_use :: "'s \<Rightarrow> nat \<Rightarrow> bool"
    and items :: "nat set" and searched :: "nat set"
    and alloc :: "'s \<Rightarrow> (nat option \<times> 's) option"
  assumes searched_items: "searched \<subseteq> items"
    and alloc_total: "good s \<Longrightarrow> \<exists>r s'. alloc s = Some (r, s')"
    and alloc_some: "good s \<Longrightarrow> alloc s = Some (Some n, s') \<Longrightarrow>
      good s' \<and> n \<in> searched \<and> \<not> in_use s n \<and> (\<forall>m\<in>items. in_use s' m \<longleftrightarrow> in_use s m \<or> m = n)"
    and alloc_none: "good s \<Longrightarrow> alloc s = Some (None, s') \<Longrightarrow> s' = s \<and> (\<forall>m\<in>searched. in_use s m)"
begin

lemma alloc_progress:
  assumes "good s" "m \<in> searched" "\<not> in_use s m"
  obtains n s' where "alloc s = Some (Some n, s')" "good s'" "\<not> in_use s n" "in_use s' n"
proof -
  obtain r s' where r: "alloc s = Some (r, s')" using alloc_total [OF assms(1)] by blast
  with assms alloc_none [OF assms(1)] obtain n where "r = Some n" by (cases r) auto
  with r alloc_some [OF assms(1)] searched_items that show thesis by blast
qed

lemma allocs_total: "good s \<Longrightarrow> \<exists>ns s'. allocs alloc k s = Some (ns, s')"
proof (induction k arbitrary: s)
  case (Suc k)
  obtain r s' where r: "alloc s = Some (r, s')" using alloc_total [OF Suc.prems] by blast
  show ?case
  proof (cases r)
    case None
    with r show ?thesis by simp
  next
    case (Some n)
    with r alloc_some [OF Suc.prems] have "good s'" by simp
    from Suc.IH [OF this] r Some show ?thesis by auto
  qed
qed simp

text \<open>Items handed out one after the other are pairwise different and were all free.\<close>

lemma allocs_fresh:
  "good s \<Longrightarrow> allocs alloc k s = Some (ns, s') \<Longrightarrow>
    good s' \<and> distinct ns \<and> set ns \<subseteq> searched \<and> (\<forall>n\<in>set ns. \<not> in_use s n) \<and>
    (\<forall>m\<in>items. in_use s' m \<longleftrightarrow> in_use s m \<or> m \<in> set ns)"
proof (induction k arbitrary: s ns)
  case (Suc k)
  obtain r s1 where r: "alloc s = Some (r, s1)" using alloc_total [OF Suc.prems(1)] by blast
  show ?case
  proof (cases r)
    case None
    with r Suc.prems alloc_none [OF Suc.prems(1)] show ?thesis by auto
  next
    case (Some n)
    note first = alloc_some [OF Suc.prems(1) r [unfolded Some]]
    obtain ns' where ns': "allocs alloc k s1 = Some (ns', s')" "ns = n # ns'"
      using r Some Suc.prems(2) by (auto simp: bind_eq_Some_conv)
    have "good s1" using first by simp
    note rest = Suc.IH [OF this ns'(1)]
    have n: "n \<in> items" using first searched_items by blast
    then have "in_use s1 n" using first by simp
    with rest have "n \<notin> set ns'" by blast
    moreover have "\<forall>m\<in>set ns'. \<not> in_use s m"
      using rest first searched_items by blast
    ultimately show ?thesis
      using rest first ns'(2) by auto
  qed
qed simp

text \<open>A run that stops early has used up all the items it searches.\<close>

lemma allocs_short:
  "good s \<Longrightarrow> allocs alloc k s = Some (ns, s') \<Longrightarrow> length ns < k \<Longrightarrow> \<forall>m\<in>searched. in_use s' m"
proof (induction k arbitrary: s ns)
  case (Suc k)
  obtain r s1 where r: "alloc s = Some (r, s1)" using alloc_total [OF Suc.prems(1)] by blast
  show ?case
  proof (cases r)
    case None
    with r Suc.prems alloc_none [OF Suc.prems(1)] show ?thesis by auto
  next
    case (Some n)
    note first = alloc_some [OF Suc.prems(1) r [unfolded Some]]
    obtain ns' where ns': "allocs alloc k s1 = Some (ns', s')" "ns = n # ns'"
      using r Some Suc.prems(2) by (auto simp: bind_eq_Some_conv)
    have "good s1" "length ns' < k" using first ns'(2) Suc.prems(3) by simp_all
    from Suc.IH [OF this(1) ns'(1) this(2)] show ?thesis .
  qed
qed simp

end

definition next_block :: "u32 \<Rightarrow> fs \<Rightarrow> (nat option \<times> fs) option" where
  "next_block pref st = map_option (\<lambda>(r, st). (map_option unat r, st)) (alloc_block st pref)"

definition next_inode :: "fs \<Rightarrow> (nat option \<times> fs) option" where
  "next_inode st = map_option (\<lambda>(n, st). (if n = 0 then None else Some (unat n), st)) (allocate_node st)"

lemma find_upt_SomeD:
  "List.find P [a..<b] = Some n \<Longrightarrow> a \<le> n \<and> n < b \<and> P n \<and> (\<forall>m. a \<le> m \<longrightarrow> m < n \<longrightarrow> \<not> P m)"
proof -
  assume *: "List.find P [a..<b] = Some n"
  then obtain i where i: "i < b - a" "P (a + i)" "n = a + i" "\<forall>j<i. \<not> P (a + j)"
    by (auto simp: find_Some_iff)
  then have "\<not> P m" if "a \<le> m" "m < n" for m
    using that by (metis add_less_imp_less_left le_Suc_ex)
  with i show ?thesis by auto
qed

lemma find_upt_NoneD: "List.find P [a..<b] = None \<Longrightarrow> a \<le> n \<Longrightarrow> n < b \<Longrightarrow> \<not> P n"
  by (auto simp: find_None_iff)

lemma next_block_eq:
  "fs_ok st \<Longrightarrow> next_block pref st =
    Some (case List.find (\<lambda>n. \<not> block_used st n) [256 * unat pref..<2048] of
      None \<Rightarrow> (None, st) | Some n \<Rightarrow> (Some n, take_block st n))"
  by (auto simp: next_block_def alloc_block_eq unat_of_nat_block split: option.split
      dest!: find_upt_SomeD)

lemma next_inode_eq:
  "fs_ok st \<Longrightarrow> next_inode st =
    Some (case List.find (\<lambda>n. \<not> inode_used st n) [1..<897] of
      None \<Rightarrow> (None, st) | Some n \<Rightarrow> (Some n, synced (take_inode st n)))"
  using of_nat_u32_eq_iff [of _ 0]
  by (fastforce simp: next_inode_def allocate_node_eq unat_of_nat_block split: option.split
      dest!: find_upt_SomeD)

interpretation block_alloc: allocator fs_ok block_used "{..<2048}" "{256 * unat pref..<2048}"
  "next_block pref" for pref
proof (unfold_locales, goal_cases)
  case 1
  show ?case by auto
next
  case (2 s)
  then show ?case by (simp add: next_block_eq)
next
  case (3 s n s')
  then show ?case
    by (auto simp: next_block_eq used_take_block inv_take_block split: option.splits dest!: find_upt_SomeD)
next
  case (4 s s')
  then show ?case
    by (auto simp: next_block_eq split: option.splits dest: find_upt_NoneD)
qed

interpretation inode_alloc: allocator fs_ok inode_used "{1..896}" "{1..896}" next_inode
proof (unfold_locales, goal_cases)
  case 1
  show ?case by simp
next
  case (2 s)
  then show ?case by (simp add: next_inode_eq)
next
  case (3 s n s')
  then show ?case
    by (auto simp: next_inode_eq used_take_inode inv_take_inode inv_synced split: option.splits
        dest!: find_upt_SomeD)
next
  case (4 s s')
  then show ?case
    using find_upt_NoneD [of "\<lambda>n. \<not> inode_used s n" 1 897]
    by (auto simp: next_inode_eq split: option.splits)
qed

end
