(* ===== verification/Ext2_Node.thy ===== *)
theory Ext2_Node
  imports Ext2_Alloc
begin

section \<open>Inodes and their data blocks\<close>

text \<open>
  \<open>sync_node\<close>, \<open>allocate_node_blocks\<close>, \<open>deallocate_node\<close> and \<open>deallocate_blocks\<close> of
  \<open>filesystem/ext2.c\<close>. The counters of the loops (\<open>i\<close>, \<open>allocated\<close>, \<open>ptr_idx\<close>) are
  natural numbers: each is bounded by the 32-bit \<open>blocks_needed\<close> or by a constant, so they do
  not wrap in the code.
\<close>

subsection \<open>Writing an inode to its table\<close>

definition inode_block :: "fs \<Rightarrow> u32 \<Rightarrow> u32 option" where
  "inode_block st inode = do {
     d \<leftarrow> arr_get (bgdtCache st) (unat (inode_to_bgd inode));
     Some (bg_inode_table d + inode_to_local inode div of_nat INODES_PER_TABLE)
   }"

definition inode_slot :: "u32 \<Rightarrow> nat" where
  "inode_slot inode = unat (inode_to_local inode mod of_nat INODES_PER_TABLE)"

definition sync_node :: "fs \<Rightarrow> inode \<Rightarrow> u32 \<Rightarrow> fs option" where
  "sync_node st node inode =
     (if inode = 0 then Some st
      else do {
        inode_block_index \<leftarrow> inode_block st inode;
        buf \<leftarrow> read_block st (uninit st) inode_block_index;
        write_block st (put_inode buf (inode_slot inode) node) inode_block_index
      })"

subsection \<open>Allocating the data blocks of a file\<close>

text \<open>
  The block number \<open>allocated\<close> of the data: 512 bytes, the last one only as long as the file
  and zeros after it.
\<close>

definition data_block :: "mem \<Rightarrow> mem \<Rightarrow> u32 \<Rightarrow> nat \<Rightarrow> nat \<Rightarrow> mem" where
  "data_block stack data fsize blocks_needed allocated =
     (let dataBuf = memset stack 0 0 BLOCK_SIZE;
          to_copy = (if allocated = blocks_needed - 1 then unat (fsize mod of_nat BLOCK_SIZE) else BLOCK_SIZE);
          to_copy = (if to_copy = 0 then BLOCK_SIZE else to_copy)
      in memcpy_into dataBuf 0 data (allocated * BLOCK_SIZE) to_copy)"

text \<open>The 12 direct blocks: \<open>i\<close> counts both the pointers and the blocks allocated.\<close>

fun direct_blocks :: "fs \<Rightarrow> mem \<Rightarrow> inode \<Rightarrow> u32 \<Rightarrow> nat \<Rightarrow> nat \<Rightarrow> nat \<Rightarrow> (nat \<times> inode \<times> fs) option" where
  "direct_blocks st data node prefered_bgd needed i 0 = Some (i, node, st)"
| "direct_blocks st data node prefered_bgd needed i (Suc n) =
     (if i < needed then do {
        (r, st) \<leftarrow> alloc_block st prefered_bgd;
        case r of
          None \<Rightarrow> Some (i, node, st)
        | Some block_num \<Rightarrow> do {
            ptrs \<leftarrow> arr_put (i_block node) i block_num;
            let node = node\<lparr>i_block := ptrs\<rparr>;
            st \<leftarrow> write_block st (data_block (uninit st) data (i_size node) needed i) block_num;
            direct_blocks st data node prefered_bgd needed (Suc i) n
          }
      }
      else Some (i, node, st))"

text \<open>The loop that fills a block of pointers, for the indirect and each doubly indirect block.\<close>

fun fill_pointers ::
    "fs \<Rightarrow> mem \<Rightarrow> u32 \<Rightarrow> u32 \<Rightarrow> nat \<Rightarrow> mem \<Rightarrow> nat \<Rightarrow> nat \<Rightarrow> nat \<Rightarrow> (nat \<times> mem \<times> fs) option" where
  "fill_pointers st data fsize prefered_bgd needed ptrBuf ptr_idx allocated 0 = Some (allocated, ptrBuf, st)"
| "fill_pointers st data fsize prefered_bgd needed ptrBuf ptr_idx allocated (Suc n) =
     (if allocated < needed then do {
        (r, st) \<leftarrow> alloc_block st prefered_bgd;
        case r of
          None \<Rightarrow> Some (allocated, ptrBuf, st)
        | Some block_num \<Rightarrow> do {
            let ptrBuf = blit ptrBuf (ptr_idx * 4) (b32 block_num);
            st \<leftarrow> write_block st (data_block (uninit st) data fsize needed allocated) block_num;
            fill_pointers st data fsize prefered_bgd needed ptrBuf (Suc ptr_idx) (Suc allocated) n
          }
      }
      else Some (allocated, ptrBuf, st))"

definition PTRS_PER_BLOCK :: nat where "PTRS_PER_BLOCK = BLOCK_SIZE div 4"

lemma PTRS_PER_BLOCK [simp]: "PTRS_PER_BLOCK = 128"
  by (simp add: PTRS_PER_BLOCK_def)

text \<open>A new block of pointers: cleared, filled, written to its place.\<close>

definition pointer_block :: "fs \<Rightarrow> mem \<Rightarrow> u32 \<Rightarrow> u32 \<Rightarrow> nat \<Rightarrow> nat \<Rightarrow> u32 \<Rightarrow> (nat \<times> fs) option" where
  "pointer_block st data fsize prefered_bgd needed allocated block = do {
     (allocated, ptrBuf, st) \<leftarrow> fill_pointers st data fsize prefered_bgd needed
       (memset (uninit st) 0 0 BLOCK_SIZE) 0 allocated PTRS_PER_BLOCK;
     st \<leftarrow> write_block st ptrBuf block;
     Some (allocated, st)
   }"

definition indirect_blocks :: "fs \<Rightarrow> mem \<Rightarrow> inode \<Rightarrow> u32 \<Rightarrow> nat \<Rightarrow> nat \<Rightarrow> (nat \<times> inode \<times> fs) option" where
  "indirect_blocks st data node prefered_bgd needed allocated =
     (if allocated < needed then do {
        (r, st) \<leftarrow> alloc_block st prefered_bgd;
        case r of
          None \<Rightarrow> Some (allocated, node, st)
        | Some block \<Rightarrow> do {
            ptrs \<leftarrow> arr_put (i_block node) 12 block;
            let node = node\<lparr>i_block := ptrs\<rparr>;
            if block \<noteq> 0 then do {
              (allocated, st) \<leftarrow> pointer_block st data (i_size node) prefered_bgd needed allocated block;
              Some (allocated, node, st)
            }
            else Some (allocated, node, st)
          }
      }
      else Some (allocated, node, st))"

fun fill_indirect ::
    "fs \<Rightarrow> mem \<Rightarrow> u32 \<Rightarrow> u32 \<Rightarrow> nat \<Rightarrow> mem \<Rightarrow> nat \<Rightarrow> nat \<Rightarrow> nat \<Rightarrow> (nat \<times> mem \<times> fs) option" where
  "fill_indirect st data fsize prefered_bgd needed dblBuf dbl_idx allocated 0 = Some (allocated, dblBuf, st)"
| "fill_indirect st data fsize prefered_bgd needed dblBuf dbl_idx allocated (Suc n) =
     (if allocated < needed then do {
        (r, st) \<leftarrow> alloc_block st prefered_bgd;
        case r of
          None \<Rightarrow> Some (allocated, dblBuf, st)
        | Some ind_block \<Rightarrow> do {
            let dblBuf = blit dblBuf (dbl_idx * 4) (b32 ind_block);
            (allocated, st) \<leftarrow> pointer_block st data fsize prefered_bgd needed allocated ind_block;
            fill_indirect st data fsize prefered_bgd needed dblBuf (Suc dbl_idx) allocated n
          }
      }
      else Some (allocated, dblBuf, st))"

definition double_blocks :: "fs \<Rightarrow> mem \<Rightarrow> inode \<Rightarrow> u32 \<Rightarrow> nat \<Rightarrow> nat \<Rightarrow> (nat \<times> inode \<times> fs) option" where
  "double_blocks st data node prefered_bgd needed allocated =
     (if allocated < needed then do {
        (r, st) \<leftarrow> alloc_block st prefered_bgd;
        case r of
          None \<Rightarrow> Some (allocated, node, st)
        | Some dbl_block \<Rightarrow> do {
            ptrs \<leftarrow> arr_put (i_block node) 13 dbl_block;
            let node = node\<lparr>i_block := ptrs\<rparr>;
            if dbl_block \<noteq> 0 then do {
              (allocated, dblBuf, st) \<leftarrow> fill_indirect st data (i_size node) prefered_bgd needed
                (memset (uninit st) 0 0 BLOCK_SIZE) 0 allocated PTRS_PER_BLOCK;
              st \<leftarrow> write_block st dblBuf dbl_block;
              Some (allocated, node, st)
            }
            else Some (allocated, node, st)
          }
      }
      else Some (allocated, node, st))"

text \<open>\<open>allocate_node_blocks\<close> changes the inode of the caller, so it returns it.\<close>

definition allocate_node_blocks :: "fs \<Rightarrow> mem \<Rightarrow> inode \<Rightarrow> u32 \<Rightarrow> (inode \<times> fs) option" where
  "allocate_node_blocks st data node prefered_bgd = do {
     let blocks_needed = unat (i_blocks node);
     (allocated, node, st) \<leftarrow> direct_blocks st data node prefered_bgd blocks_needed 0 12;
     (allocated, node, st) \<leftarrow> indirect_blocks st data node prefered_bgd blocks_needed allocated;
     (allocated, node, st) \<leftarrow> double_blocks st data node prefered_bgd blocks_needed allocated;
     st \<leftarrow> sync_metadata st;
     Some (node, st)
   }"

subsection \<open>Releasing\<close>

text \<open>The loops that free every non-zero pointer of a list.\<close>

fun free_blocks :: "fs \<Rightarrow> u32 list \<Rightarrow> fs option" where
  "free_blocks st [] = Some st"
| "free_blocks st (block_id # ids) = do {
     st \<leftarrow> (if block_id \<noteq> 0 then free_block st block_id else Some st);
     free_blocks st ids
   }"

definition pointers :: "mem \<Rightarrow> nat \<Rightarrow> u32 list" where
  "pointers buf count = map (\<lambda>j. get32 buf (4 * j)) [0..<count]"

definition free_indirect :: "fs \<Rightarrow> u32 \<Rightarrow> nat \<Rightarrow> fs option" where
  "free_indirect st block count = do {
     indBuf \<leftarrow> read_block st (uninit st) block;
     st \<leftarrow> free_blocks st (pointers indBuf count);
     free_block st block
   }"

text \<open>The doubly indirect blocks: pointers that are 0 do not use up the count.\<close>

fun free_double :: "fs \<Rightarrow> u32 list \<Rightarrow> nat \<Rightarrow> fs option" where
  "free_double st [] todo = Some st"
| "free_double st (ind_block # ids) todo =
     (if todo > 0 then
        (if ind_block \<noteq> 0 then do {
           let cnt = min todo PTRS_PER_BLOCK;
           st \<leftarrow> free_indirect st ind_block cnt;
           free_double st ids (todo - cnt)
         }
         else free_double st ids todo)
      else Some st)"

definition free_node_blocks :: "fs \<Rightarrow> inode \<Rightarrow> fs option" where
  "free_node_blocks st node = do {
     let remain = unat (i_blocks node);
     st \<leftarrow> free_blocks st (take (min 12 remain) (i_block node));
     let remain = remain - min 12 remain;
     ind \<leftarrow> arr_get (i_block node) 12;
     (remain, st) \<leftarrow>
       (if remain > 0 \<and> ind \<noteq> 0 then do {
          let count = min remain PTRS_PER_BLOCK;
          st \<leftarrow> free_indirect st ind count;
          Some (remain - count, st)
        }
        else Some (remain, st));
     dbl \<leftarrow> arr_get (i_block node) 13;
     if remain > 0 \<and> dbl \<noteq> 0 then do {
       dblBuf \<leftarrow> read_block st (uninit st) dbl;
       st \<leftarrow> free_double st (pointers dblBuf PTRS_PER_BLOCK) remain;
       free_block st dbl
     }
     else Some st
   }"

definition deallocate_node :: "fs \<Rightarrow> u32 \<Rightarrow> fs option" where
  "deallocate_node st inode =
     (if inode = 0 then Some st
      else do {
        let bg = unat (inode_to_bgd inode);
        let local = unat (inode_to_local inode);
        inode_block_index \<leftarrow> inode_block st inode;
        buf \<leftarrow> read_block st (uninit st) inode_block_index;
        let node = inode_at buf (inode_slot inode);
        d \<leftarrow> arr_get (bgdtCache st) bg;
        st \<leftarrow> (if i_mode node AND EXT2_S_IFDIR \<noteq> 0 \<and> bg_used_dirs_count d > 0
              then upd_bgd st bg (\<lambda>d. d\<lparr>bg_used_dirs_count := bg_used_dirs_count d - 1\<rparr>)
              else Some st);
        st \<leftarrow> free_node_blocks st node;
        let buf = memset buf (sizeof_inode * inode_slot inode) 0 sizeof_inode;
        st \<leftarrow> write_block st buf inode_block_index;
        d \<leftarrow> arr_get (bgdtCache st) bg;
        bmp \<leftarrow> read_block st (uninit st) (bg_inode_bitmap d);
        st \<leftarrow> write_block st (bmp_clear bmp local) (bg_inode_bitmap d);
        st \<leftarrow> upd_bgd st bg (\<lambda>d. d\<lparr>bg_free_inodes_count := bg_free_inodes_count d + 1\<rparr>);
        let st = upd_super st (\<lambda>sb. sb\<lparr>s_free_inodes_count := s_free_inodes_count sb + 1\<rparr>);
        sync_metadata st
      })"

text \<open>\<open>deallocate_blocks\<close> takes the address of the pointers; \<open>addrs\<close> is the array there.\<close>

definition deallocate_blocks :: "fs \<Rightarrow> u32 list \<Rightarrow> u32 \<Rightarrow> fs option" where
  "deallocate_blocks st addrs blocks = do {
     guard (min 12 (unat blocks) \<le> length addrs);
     st \<leftarrow> free_blocks st (take (min 12 (unat blocks)) addrs);
     sync_metadata st
   }"

subsection \<open>The inode table as a map from inode numbers\<close>

definition node_block :: "nat \<Rightarrow> nat" where
  "node_block n = itb ((n - 1) div 112) + (n - 1) mod 112 div 7"

definition node_slot :: "nat \<Rightarrow> nat" where
  "node_slot n = (n - 1) mod 112 mod 7"

definition node_of :: "fs \<Rightarrow> nat \<Rightarrow> inode" where
  "node_of st n = inode_at (fs_disk st (of_nat (node_block n))) (node_slot n)"

definition put_node :: "fs \<Rightarrow> nat \<Rightarrow> inode \<Rightarrow> fs" where
  "put_node st n nd = st\<lparr>fs_disk := (fs_disk st)(of_nat (node_block n) :=
     put_inode (fs_disk st (of_nat (node_block n))) (node_slot n) nd)\<rparr>"

lemma node_block_bounds [simp]:
  "n \<le> 896 \<Longrightarrow> node_block n < 2048" "n \<le> 896 \<Longrightarrow> node_block n < 8192" "node_slot n < 7"
proof -
  have "(n - 1) mod 112 div 7 < 16" by (simp add: div_less_iff_less_mult)
  then show "n \<le> 896 \<Longrightarrow> node_block n < 2048"
    using inode_group_less [of n] by (auto simp: node_block_def itb_def)
  then show "n \<le> 896 \<Longrightarrow> node_block n < 8192" by simp
  show "node_slot n < 7" by (simp add: node_slot_def)
qed

lemma node_block_off: "(n - 1) mod 112 div 7 < (16 :: nat)"
  by (simp add: div_less_iff_less_mult)

lemma node_block_meta [simp]:
  "node_block n \<noteq> bbm g" "node_block n \<noteq> ibm g" "bbm g \<noteq> node_block n" "ibm g \<noteq> node_block n"
  "reserved (node_block n)" "2 < node_block n" "node_block n \<noteq> 1" "node_block n \<noteq> 2"
  using node_block_off [of n] low_blocks(3) [of "(n - 1) div 112"]
  by (auto simp: node_block_def reserved_metadata simp del: low_blocks)

lemma low_neq [simp]:
  "ibm g \<noteq> Suc 0" "ibm g \<noteq> 2" "bbm g \<noteq> Suc 0" "bbm g \<noteq> 2" "node_block n \<noteq> Suc 0"
  using low_blocks(1,2) [of g] node_block_meta(6) [of n] by linarith+

lemma node_coords:
  assumes "0 < m" "0 < n" "node_block m = node_block n" "node_slot m = node_slot n"
  shows "m = n"
proof -
  have "(m - 1) div 112 = (n - 1) div 112" "(m - 1) mod 112 div 7 = (n - 1) mod 112 div 7"
    using assms(3) itb_eq_iff [OF node_block_off [of m] node_block_off [of n]] by (auto simp: node_block_def)
  moreover from this have "(m - 1) mod 112 = (n - 1) mod 112"
    using assms(4) by (metis div_mult_mod_eq node_slot_def)
  ultimately show ?thesis
    using inode_cell [OF assms(1,2)] by blast
qed

lemma inode_block_eq:
  assumes "fs_ok st" "unat inode \<le> 896"
  shows "inode_block st inode = Some (of_nat (node_block (unat inode)))"
proof -
  note layout = layout_okD [OF inv_layout(1) [OF assms(1)]]
  have "unat (inode_to_bgd inode) < 8" by (rule inode_to_bgd_less [OF assms(2)])
  moreover have "inode_to_local inode div 7 = of_nat (unat (inode_to_local inode) div 7)"
    using inode_to_local_less [of inode] by (simp add: word_unat_eq_iff unat_div unat_of_nat_block)
  ultimately show ?thesis
    using layout(1,4) by (simp add: inode_block_def node_block_def unat_inode_to_bgd unat_inode_to_local)
qed

lemma inode_slot_eq: "inode_slot inode = node_slot (unat inode)"
  by (simp add: inode_slot_def node_slot_def unat_mod unat_inode_to_local)

lemma overlay_put_inode [simp]:
  "k < 7 \<Longrightarrow> length (i_block nd) = 15 \<Longrightarrow> overlay (put_inode (overlay m r) k nd) m = put_inode m k nd"
  by (auto simp: overlay_def put_inode_def blit_def fun_eq_iff)

lemma inode_at_overlay [simp]: "k < 7 \<Longrightarrow> inode_at (overlay m r) k = inode_at m k"
  by (rule inode_at_cong) simp_all

lemma sync_node_eq:
  assumes "fs_ok st" "0 < inode" "unat inode \<le> 896" "length (i_block node) = 15"
  shows "sync_node st node inode = Some (put_node st (unat inode) node)"
  using assms by (simp add: sync_node_def inode_block_eq inode_slot_eq put_node_def read_block_eq
      write_block_eq unat_of_nat_block word_gt_0)

lemma put_node_simps [simp]:
  "bgdtCache (put_node st n nd) = bgdtCache st" "superBlock (put_node st n nd) = superBlock st"
  "uninit (put_node st n nd) = uninit st"
  "n \<le> 896 \<Longrightarrow> b < 8192 \<Longrightarrow> b \<noteq> node_block n \<Longrightarrow>
    fs_disk (put_node st n nd) (of_nat b) = fs_disk st (of_nat b)"
  by (simp_all add: put_node_def)

lemma same_bitmaps_put_node: "n \<le> 896 \<Longrightarrow> same_bitmaps st (put_node st n nd)"
  by (simp add: same_bitmaps_def)

lemma inv_put_node: "fs_ok st \<Longrightarrow> n \<le> 896 \<Longrightarrow> fs_ok (put_node st n nd)"
  by (rule inv_same_bitmaps [OF _ same_bitmaps_put_node]) (simp_all add: same_layout_refl inv_layout)

lemma node_of_put_node:
  assumes "0 < n" "n \<le> 896" "0 < m" "m \<le> 896" "length (i_block nd) = 15"
  shows "node_of (put_node st n nd) m = (if m = n then nd else node_of st m)"
proof (cases "node_block m = node_block n")
  case True
  then show ?thesis
    using assms node_coords [OF assms(3,1) True]
    by (cases "m = n") (auto simp: node_of_def put_node_def inode_at_put_same intro!: inode_at_put_other)
next
  case False
  then show ?thesis
    using assms by (auto simp: node_of_def)
qed

lemma length_node_of [simp]: "length (i_block (node_of st n)) = 15"
  by (simp add: node_of_def)

subsection \<open>What an allocation may change\<close>

text \<open>
  \<open>grows st st' S\<close>: the blocks \<open>S\<close>, free in \<open>st\<close>, are marked in \<open>st'\<close>, and apart from their
  contents, the bitmaps of the blocks and the copies of the metadata nothing on the disk has
  changed.
\<close>

definition grows :: "fs \<Rightarrow> fs \<Rightarrow> nat set \<Rightarrow> bool" where
  "grows st st' S \<longleftrightarrow> fs_ok st' \<and> uninit st' = uninit st \<and>
     S \<subseteq> {n. n < 2048 \<and> \<not> block_used st n} \<and>
     (\<forall>n<2048. block_used st' n \<longleftrightarrow> block_used st n \<or> n \<in> S) \<and>
     (\<forall>n<8192. n \<notin> S \<longrightarrow> (\<forall>g. n \<noteq> bbm g) \<longrightarrow> n \<noteq> 1 \<longrightarrow> n \<noteq> 2 \<longrightarrow>
       fs_disk st' (of_nat n) = fs_disk st (of_nat n))"

definition exhausted :: "u32 \<Rightarrow> fs \<Rightarrow> bool" where
  "exhausted pref st \<longleftrightarrow> (\<forall>n<2048. 256 * unat pref \<le> n \<longrightarrow> block_used st n)"

definition holds :: "fs \<Rightarrow> nat \<Rightarrow> mem \<Rightarrow> bool" where
  "holds st n m \<longleftrightarrow> (\<forall>a<512. fs_disk st (of_nat n) a = m a)"

lemma grows_refl: "fs_ok st \<Longrightarrow> grows st st {}"
  by (simp add: grows_def)

lemma grows_ok: "grows st st' S \<Longrightarrow> fs_ok st'" "grows st st' S \<Longrightarrow> uninit st' = uninit st"
  by (simp_all add: grows_def)

lemma grows_trans:
  assumes "grows st st1 S" "grows st1 st2 T"
  shows "grows st st2 (S \<union> T)"
  using assms unfolding grows_def by auto

lemma grows_disjoint: "grows st st1 S \<Longrightarrow> grows st1 st2 T \<Longrightarrow> S \<inter> T = {}"
  unfolding grows_def by auto

lemma grows_new: "grows st st' S \<Longrightarrow> n \<in> S \<Longrightarrow> n < 2048 \<and> \<not> block_used st n \<and> block_used st' n"
  unfolding grows_def by auto

lemma free_not_reserved: "fs_ok st \<Longrightarrow> n < 2048 \<Longrightarrow> \<not> block_used st n \<Longrightarrow> \<not> reserved n"
  using inv_reserved by blast

lemma grows_disk:
  assumes "grows st st' S" "n < 8192" "n \<notin> S" "\<And>g. n \<noteq> bbm g" "n \<noteq> 1" "n \<noteq> 2"
  shows "fs_disk st' (of_nat n) = fs_disk st (of_nat n)"
  using assms unfolding grows_def by blast

text \<open>A block in use that is not part of the metadata keeps its contents.\<close>

lemma grows_holds:
  assumes "grows st st' S" "holds st n m" "n < 2048" "block_used st n" "\<not> reserved n"
  shows "holds st' n m"
  using grows_disk [OF assms(1), of n] assms not_reserved_metadata [OF assms(5)] reserved_less [OF assms(5)]
  unfolding holds_def grows_def by fastforce

lemma grows_take_block:
  assumes "fs_ok st" "n < 2048" "\<not> block_used st n"
  shows "grows st (take_block st n) {n}"
  using assms inv_take_block used_take_block unfolding grows_def by auto

lemma grows_write:
  assumes "fs_ok st" "grows st st1 S" "n \<in> S"
  shows "ok (write_block st1 D (of_nat n)) (\<lambda>st2. grows st st2 S \<and> holds st2 n D \<and>
    (\<forall>k<8192. k \<noteq> n \<longrightarrow> fs_disk st2 (of_nat k) = fs_disk st1 (of_nat k)))"
proof -
  have n: "n < 2048" "\<not> reserved n"
    using grows_new [OF assms(2,3)] free_not_reserved [OF assms(1)] by auto
  let ?st = "st1\<lparr>fs_disk := (fs_disk st1)(of_nat n := overlay D (fs_disk st1 (of_nat n)))\<rparr>"
  have same: "same_bitmaps st1 ?st"
    using n not_reserved_metadata(1,2) [OF n(2)] by (auto simp: same_bitmaps_def dest: not_sym)
  then have "fs_ok ?st"
    by (rule inv_same_bitmaps [OF grows_ok(1) [OF assms(2)]])
      (simp add: same_layout_refl inv_layout grows_ok(1) [OF assms(2)])
  moreover have "block_used ?st k = block_used st1 k" if "k < 2048" for k
    using same_bitmaps_used(1) [OF same that] .
  ultimately have "grows st ?st S"
    using assms(2,3) n unfolding grows_def by auto
  then show ?thesis
    using n by (simp add: unat_of_nat_block holds_def)
qed

lemma alloc_block_spec:
  assumes "fs_ok st"
  shows "ok (alloc_block st pref) (\<lambda>(r, st1). case r of
      None \<Rightarrow> st1 = st \<and> exhausted pref st
    | Some b \<Rightarrow> \<exists>n. b = of_nat n \<and> n < 2048 \<and> \<not> block_used st n \<and> grows st st1 {n})"
proof (cases "List.find (\<lambda>n. \<not> block_used st n) [256 * unat pref..<2048]")
  case None
  then show ?thesis
    using find_upt_NoneD [OF None] by (auto simp: alloc_block_eq [OF assms] exhausted_def)
next
  case (Some n)
  then show ?thesis
    using find_upt_SomeD [OF Some] grows_take_block [OF assms, of n]
    by (auto simp: alloc_block_eq [OF assms])
qed

text \<open>The round all four loops share: a fresh block, and the data written to it.\<close>

lemma alloc_write_spec:
  assumes "fs_ok st"
    and none: "exhausted pref st \<Longrightarrow> Q (None, st)"
    and some: "\<And>n st1 st2. n < 2048 \<Longrightarrow> \<not> block_used st n \<Longrightarrow> grows st st1 {n} \<Longrightarrow>
      write_block st1 (D (uninit st1)) (of_nat n) = Some st2 \<Longrightarrow> grows st st2 {n} \<Longrightarrow>
      holds st2 n (D (uninit st)) \<Longrightarrow> Q (Some (of_nat n), st1)"
  shows "ok (alloc_block st pref) Q"
proof (rule ok_mono [OF alloc_block_spec [OF assms(1), of pref]])
  fix x :: "u32 option \<times> fs"
  assume x: "case x of (r, st1) \<Rightarrow> (case r of
      None \<Rightarrow> st1 = st \<and> exhausted pref st
    | Some b \<Rightarrow> \<exists>n. b = of_nat n \<and> n < 2048 \<and> \<not> block_used st n \<and> grows st st1 {n})"
  obtain r st1 where [simp]: "x = (r, st1)" by (cases x)
  show "Q x"
  proof (cases r)
    case None
    with x none show ?thesis by simp
  next
    case (Some b)
    with x obtain n where n: "b = of_nat n" "n < 2048" "\<not> block_used st n" "grows st st1 {n}" by auto
    have "uninit st1 = uninit st" using grows_ok(2) [OF n(4)] .
    moreover obtain st2 where "write_block st1 (D (uninit st1)) (of_nat n) = Some st2" "grows st st2 {n}"
      "holds st2 n (D (uninit st1))"
      by (rule okE [OF grows_write [OF assms(1) n(4), of n "D (uninit st1)"]]) auto
    ultimately show ?thesis
      using some [OF n(2-4)] Some n(1) by simp
  qed
qed

lemma get32_pointers:
  "j < length bs \<Longrightarrow> get32 (blit m off (concat (map b32 bs))) (off + 4 * j) = bs ! j"
  by (rule get32_blit_words)

definition holds_all :: "fs \<Rightarrow> nat list \<Rightarrow> (nat \<Rightarrow> mem) \<Rightarrow> bool" where
  "holds_all st bs D \<longleftrightarrow> (\<forall>j<length bs. holds st (bs ! j) (D j))"

lemma grows_holds_fresh:
  assumes "fs_ok st" "grows st st1 S" "n \<in> S" "holds st1 n m" "grows st1 st2 T"
  shows "holds st2 n m"
proof -
  have n: "n < 2048" "\<not> block_used st n" "block_used st1 n"
    using grows_new [OF assms(2,3)] by auto
  then show ?thesis
    using grows_holds [OF assms(5,4)] free_not_reserved [OF assms(1)] by blast
qed

lemma fill_pointers_spec:
  assumes "fs_ok st"
  shows "ok (fill_pointers st data fsize pref needed buf idx al k) (\<lambda>(al', buf', st'). \<exists>bs.
     al' = al + length bs \<and> length bs \<le> k \<and> al' \<le> max al needed \<and>
     distinct bs \<and> grows st st' (set bs) \<and>
     (al' < min needed (al + k) \<longrightarrow> exhausted pref st') \<and>
     buf' = blit buf (idx * 4) (concat (map b32 (map of_nat bs))) \<and>
     holds_all st' bs (\<lambda>j. data_block (uninit st) data fsize needed (al + j)))"
  using assms
proof (induction k arbitrary: st buf idx al)
  case 0
  then show ?case by (auto simp: grows_refl holds_all_def)
next
  case (Suc k)
  let ?Q = "\<lambda>(al', buf', st'). \<exists>bs.
     al' = al + length bs \<and> length bs \<le> Suc k \<and> al' \<le> max al needed \<and>
     distinct bs \<and> grows st st' (set bs) \<and>
     (al' < min needed (al + Suc k) \<longrightarrow> exhausted pref st') \<and>
     buf' = blit buf (idx * 4) (concat (map b32 (map of_nat bs))) \<and>
     holds_all st' bs (\<lambda>j. data_block (uninit st) data fsize needed (al + j))"
  show ?case
  proof (cases "al < needed")
    case False
    with Suc.prems show ?thesis by (auto simp: grows_refl holds_all_def intro!: exI [of _ "[]"])
  next
    case True
    show ?thesis
      unfolding fill_pointers.simps if_P [OF True] ok_bind
    proof (rule alloc_write_spec [OF Suc.prems, where D = "\<lambda>m. data_block m data fsize needed al"], goal_cases)
      case 1
      with Suc.prems show ?case by (auto simp: grows_refl holds_all_def intro!: exI [of _ "[]"])
    next
      case (2 n st1 st2)
      have "ok (fill_pointers st2 data fsize pref needed (blit buf (idx * 4) (b32 (of_nat n))) (Suc idx) (Suc al) k) ?Q"
      proof (rule ok_mono [OF Suc.IH [OF grows_ok(1) [OF 2(5)]]], clarify, goal_cases)
        case (1 al' buf' st' bs)
        note grow = grows_trans [OF 2(5) 1(4)] grows_disjoint [OF 2(5) 1(4)]
        have "holds st' n (data_block (uninit st) data fsize needed al)"
          using grows_holds_fresh [OF Suc.prems 2(5) _ 2(6) 1(4)] by simp
        then have "holds_all st' (n # bs) (\<lambda>j. data_block (uninit st) data fsize needed (al + j))"
          using 1(6) grows_ok(2) [OF 2(5)] by (auto simp: holds_all_def nth_Cons split: nat.split)
        then show ?case
          using 1 grow True by (intro exI [of _ "n # bs"]) (auto simp: blit_append add.commute)
      qed
      with 2 show ?case by (simp add: Let_def)
    qed
  qed
qed

definition place :: "'a list \<Rightarrow> nat \<Rightarrow> 'a list \<Rightarrow> 'a list" where
  "place xs i ys = take i xs @ ys @ drop (i + length ys) xs"

lemma place_Nil [simp]: "place xs i [] = xs"
  by (simp add: place_def)

lemma place_Cons: "i < length xs \<Longrightarrow> place (xs[i := y]) (Suc i) ys = place xs i (y # ys)"
  by (simp add: place_def take_Suc_conv_app_nth list_update_append drop_update_cancel)

lemma length_place [simp]: "i + length ys \<le> length xs \<Longrightarrow> length (place xs i ys) = length xs"
  by (simp add: place_def)

lemma nth_place: "i + length ys \<le> length xs \<Longrightarrow> k < length xs \<Longrightarrow>
    place xs i ys ! k = (if i \<le> k \<and> k < i + length ys then ys ! (k - i) else xs ! k)"
  by (auto simp: place_def nth_append)

lemma direct_blocks_spec:
  assumes "fs_ok st" "length (i_block node) = 15" "i + k \<le> 15"
  shows "ok (direct_blocks st data node pref needed i k) (\<lambda>(i', node', st'). \<exists>bs.
     i' = i + length bs \<and> length bs \<le> k \<and> i' \<le> max i needed \<and>
     distinct bs \<and> grows st st' (set bs) \<and>
     (i' < min needed (i + k) \<longrightarrow> exhausted pref st') \<and>
     node' = node\<lparr>i_block := place (i_block node) i (map of_nat bs)\<rparr> \<and>
     holds_all st' bs (\<lambda>j. data_block (uninit st) data (i_size node) needed (i + j)))"
  using assms
proof (induction k arbitrary: st node i)
  case 0
  then show ?case by (auto simp: grows_refl holds_all_def)
next
  case (Suc k)
  let ?Q = "\<lambda>(i', node', st'). \<exists>bs.
     i' = i + length bs \<and> length bs \<le> Suc k \<and> i' \<le> max i needed \<and>
     distinct bs \<and> grows st st' (set bs) \<and>
     (i' < min needed (i + Suc k) \<longrightarrow> exhausted pref st') \<and>
     node' = node\<lparr>i_block := place (i_block node) i (map of_nat bs)\<rparr> \<and>
     holds_all st' bs (\<lambda>j. data_block (uninit st) data (i_size node) needed (i + j))"
  show ?case
  proof (cases "i < needed")
    case False
    with Suc.prems show ?thesis by (auto simp: grows_refl holds_all_def intro!: exI [of _ "[]"])
  next
    case True
    show ?thesis
      unfolding direct_blocks.simps if_P [OF True] ok_bind
    proof (rule alloc_write_spec [OF Suc.prems(1), where D = "\<lambda>m. data_block m data (i_size node) needed i"],
        goal_cases)
      case 1
      with Suc.prems show ?case by (auto simp: grows_refl holds_all_def intro!: exI [of _ "[]"])
    next
      case (2 n st1 st2)
      let ?node = "node\<lparr>i_block := (i_block node)[i := of_nat n]\<rparr>"
      have "length (i_block ?node) = 15" "Suc i + k \<le> 15" using Suc.prems by simp_all
      from Suc.IH [OF grows_ok(1) [OF 2(5)] this]
      have "ok (direct_blocks st2 data ?node pref needed (Suc i) k) ?Q"
      proof (rule ok_mono, clarify, goal_cases)
        case (1 i' node' st' bs)
        note grow = grows_trans [OF 2(5) 1(5)] grows_disjoint [OF 2(5) 1(5)]
        have "holds st' n (data_block (uninit st) data (i_size node) needed i)"
          using grows_holds_fresh [OF Suc.prems(1) 2(5) _ 2(6) 1(5)] by simp
        then have "holds_all st' (n # bs) (\<lambda>j. data_block (uninit st) data (i_size node) needed (i + j))"
          using 1(7) grows_ok(2) [OF 2(5)] by (auto simp: holds_all_def nth_Cons split: nat.split)
        then show ?case
          using 1 grow True Suc.prems by (intro exI [of _ "n # bs"]) (auto simp: place_Cons)
      qed
      with 2 Suc.prems show ?case by (simp add: Let_def)
    qed
  qed
qed

lemma grows_synced:
  assumes "grows st st' S"
  shows "grows st (synced st') S"
  using assms inv_synced [of st'] used_synced(1) [of _ st'] unfolding grows_def
  by (auto simp: of_nat_block_eq_numeral)

text \<open>A block holding pointers: allocated first, filled by the loop, written last.\<close>

lemma pointer_block_spec:
  assumes "fs_ok st" "grows st st1 {n}"
  shows "ok (pointer_block st1 data fsize pref needed al (of_nat n)) (\<lambda>(al', st3). \<exists>bs. al' = al + length bs \<and> length bs \<le> 128 \<and> al' \<le> max al needed \<and>
       distinct (n # bs) \<and> grows st st3 (set (n # bs)) \<and>
       (al' < min needed (al + 128) \<longrightarrow> exhausted pref st3) \<and>
       (\<forall>j<length bs. get32 (fs_disk st3 (of_nat n)) (4 * j) = of_nat (bs ! j)) \<and>
       holds_all st3 bs (\<lambda>j. data_block (uninit st) data fsize needed (al + j)))"
  unfolding pointer_block_def ok_bind PTRS_PER_BLOCK
proof (rule ok_mono [OF fill_pointers_spec [OF grows_ok(1) [OF assms(2)]]], clarify, goal_cases)
  case (1 al' buf' st2 bs)
  note grow = grows_trans [OF assms(2) 1(4)] grows_disjoint [OF assms(2) 1(4)]
  let ?buf = "blit (memset (uninit st1) 0 0 BLOCK_SIZE) (0 * 4) (concat (map b32 (map of_nat bs)))"
  have bounds: "\<forall>j<length bs. bs ! j < 2048 \<and> bs ! j \<noteq> n"
    using grows_new [OF 1(4) nth_mem] grow(2) by (fastforce simp: disjoint_iff)
  show ?case
    unfolding ok_bind prod.case
  proof (rule ok_mono [OF grows_write [OF assms(1) grow(1), of n ?buf]], simp, clarify, goal_cases)
    case (1 st3)
    have "get32 (fs_disk st3 (of_nat n)) (4 * j) = of_nat (bs ! j)" if "j < length bs" for j
    proof -
      have "get32 (fs_disk st3 (of_nat n)) (4 * j) = get32 ?buf (4 * j)"
        using 1(2) that \<open>length bs \<le> 128\<close> unfolding holds_def by (intro get32_cong) simp
      also have "\<dots> = of_nat (bs ! j)"
        using get32_pointers [of j "map of_nat bs" _ 0] that by simp
      finally show ?thesis .
    qed
    moreover have "exhausted pref st3" if "exhausted pref st2"
      using that 1(1) grow(1) unfolding exhausted_def grows_def by auto
    moreover have "holds_all st3 bs (\<lambda>j. data_block (uninit st) data fsize needed (al + j))"
    proof -
      have "fs_disk st3 (of_nat (bs ! j)) = fs_disk st2 (of_nat (bs ! j))" if "j < length bs" for j
      proof -
        have "bs ! j < 8192" "bs ! j \<noteq> n" using bounds that by (auto intro: less_trans [of _ 2048])
        with 1(3) show ?thesis by blast
      qed
      then show ?thesis
        using \<open>holds_all st2 bs _\<close> grows_ok(2) [OF assms(2)] by (simp add: holds_all_def holds_def)
    qed
    ultimately show ?case
      using 1(1) \<open>length bs \<le> 128\<close> \<open>distinct bs\<close> grow(2) \<open>al + length bs \<le> max al needed\<close>
        \<open>al + length bs < min needed (al + 128) \<longrightarrow> exhausted pref st2\<close>
      unfolding ok_Some prod.case by (intro exI [of _ bs] conjI) simp_all
  qed
qed

definition same_head :: "inode \<Rightarrow> inode \<Rightarrow> bool" where
  "same_head node node' \<longleftrightarrow> i_mode node' = i_mode node \<and> i_size node' = i_size node \<and>
     i_blocks node' = i_blocks node \<and> length (i_block node') = length (i_block node)"

lemma same_head_refl [simp]: "same_head node node"
  by (simp add: same_head_def)

lemma same_head_trans: "same_head a b \<Longrightarrow> same_head b c \<Longrightarrow> same_head a c"
  by (simp add: same_head_def)

lemma ok_pair_return:
  "ok m (\<lambda>(a, s). Q (a, x, s)) \<Longrightarrow> ok (do {(a, s) \<leftarrow> m; Some (a, x, s)}) Q"
  by (auto simp: ok_def)

lemma indirect_blocks_spec:
  assumes "fs_ok st" "length (i_block node) = 15"
  shows "ok (indirect_blocks st data node pref needed al) (\<lambda>(al', node', st').
    (node' = node \<and> al' = al \<and> st' = st \<and> (al < needed \<longrightarrow> exhausted pref st)) \<or>
    (\<exists>n bs. al < needed \<and> node' = node\<lparr>i_block := (i_block node)[12 := of_nat n]\<rparr> \<and>
       al' = al + length bs \<and> length bs \<le> 128 \<and> al' \<le> max al needed \<and>
       distinct (n # bs) \<and> grows st st' (set (n # bs)) \<and>
       (al' < min needed (al + 128) \<longrightarrow> exhausted pref st') \<and>
       (\<forall>j<length bs. get32 (fs_disk st' (of_nat n)) (4 * j) = of_nat (bs ! j)) \<and>
       holds_all st' bs (\<lambda>j. data_block (uninit st) data (i_size node) needed (al + j))))"
    (is "ok _ ?Q")
proof (cases "al < needed")
  case False
  then show ?thesis by (simp add: indirect_blocks_def)
next
  case True
  show ?thesis
    unfolding indirect_blocks_def if_P [OF True] ok_bind
  proof (rule ok_mono [OF alloc_block_spec [OF assms(1)]], clarify, goal_cases)
    case (1 r st1)
    show ?case
    proof (cases r)
      case None
      with 1 True show ?thesis by simp
    next
      case (Some b)
      with 1 obtain n where n: "b = of_nat n" "n < 2048" "\<not> block_used st n" "grows st st1 {n}" by auto
      have nz: "of_nat n \<noteq> (0 :: u32)"
        using reserved_less [OF free_not_reserved [OF assms(1) n(2,3)]] of_nat_u32_eq_iff [of n 0] n(2) by auto
      have "ok (pointer_block st1 data (i_size node) pref needed al (of_nat n)) (\<lambda>(al', st').
          ?Q (al', node\<lparr>i_block := (i_block node)[12 := of_nat n]\<rparr>, st'))"
      proof (rule ok_mono [OF pointer_block_spec [OF assms(1) n(4)]], clarify, goal_cases)
        case (1 al' st' bs)
        with True show ?case by blast
      qed
      from ok_pair_return [OF this] show ?thesis
        using assms(2) nz by (simp add: Some n(1) Let_def)
    qed
  qed
qed

lemma fill_indirect_grows:
  assumes "fs_ok st"
  shows "ok (fill_indirect st data fsize pref needed buf idx al k) (\<lambda>(al', buf', st'). \<exists>S. grows st st' S)"
  using assms
proof (induction k arbitrary: st buf idx al)
  case 0
  then show ?case using grows_refl by auto
next
  case (Suc k)
  show ?case
  proof (cases "al < needed")
    case False
    with Suc.prems show ?thesis using grows_refl by auto
  next
    case True
    show ?thesis
      unfolding fill_indirect.simps if_P [OF True] ok_bind
    proof (rule ok_mono [OF alloc_block_spec [OF Suc.prems]], clarify, goal_cases)
      case (1 r st1)
      show ?case
      proof (cases r)
        case None
        with 1 Suc.prems grows_refl show ?thesis by auto
      next
        case (Some b)
        with 1 obtain n where n: "b = of_nat n" "grows st st1 {n}" by auto
        have "ok (fill_indirect st3 data fsize pref needed buf' idx' al' k) (\<lambda>(al', buf', st'). \<exists>S. grows st st' S)"
          if "grows st st3 S" for st3 buf' idx' al' S
          using Suc.IH [OF grows_ok(1) [OF that], of buf' idx' al'] grows_trans [OF that]
          by (auto elim!: ok_mono)
        note rest = this
        have "ok (pointer_block st1 data fsize pref needed al (of_nat n)) (\<lambda>(al', st3).
            ok (fill_indirect st3 data fsize pref needed (blit buf (idx * 4) (b32 (of_nat n))) (Suc idx) al' k)
              (\<lambda>(al', buf', st'). \<exists>S. grows st st' S))"
          by (rule ok_mono [OF pointer_block_spec [OF Suc.prems n(2)]]) (clarify, rule rest)
        then show ?thesis
          by (simp add: Some n(1) Let_def ok_do)
      qed
    qed
  qed
qed

lemma double_blocks_spec:
  assumes "fs_ok st" "length (i_block node) = 15"
  shows "ok (double_blocks st data node pref needed al) (\<lambda>(al', node', st').
    (needed \<le> al \<longrightarrow> al' = al \<and> node' = node \<and> st' = st) \<and> same_head node node' \<and> (\<exists>S. grows st st' S))"
    (is "ok _ ?Q")
proof (cases "al < needed")
  case False
  then show ?thesis using grows_refl [OF assms(1)] by (auto simp: double_blocks_def)
next
  case True
  show ?thesis
    unfolding double_blocks_def if_P [OF True] ok_bind
  proof (rule ok_mono [OF alloc_block_spec [OF assms(1)]], clarify, goal_cases)
    case (1 r st1)
    show ?case
    proof (cases r)
      case None
      with 1 True grows_refl [OF assms(1)] show ?thesis by auto
    next
      case (Some b)
      with 1 obtain n where n: "b = of_nat n" "grows st st1 {n}" by auto
      have wr: "ok (write_block st2 m (of_nat n)) (\<lambda>st3. \<exists>S. grows st st3 S)" if "grows st1 st2 S" for st2 m S
        using grows_write [OF assms(1) grows_trans [OF n(2) that], of n m] by (fastforce elim: ok_mono)
      have "ok (fill_indirect st1 data (i_size node) pref needed (memset (uninit st1) 0 0 BLOCK_SIZE) 0 al 128)
          (\<lambda>(al', buf', st2). ok (write_block st2 buf' (of_nat n)) (\<lambda>st3. \<exists>S. grows st st3 S))"
        by (rule ok_mono [OF fill_indirect_grows [OF grows_ok(1) [OF n(2)]]]) (clarify, rule wr)
      then show ?thesis
        using assms(2) True n(2) by (auto simp: Some n(1) Let_def ok_do same_head_def elim!: ok_mono)
    qed
  qed
qed

lemma direct_same_head:
  "length (i_block node) = 15 \<Longrightarrow> i + length bs \<le> 15 \<Longrightarrow>
    same_head node (node\<lparr>i_block := place (i_block node) i (map of_nat bs)\<rparr>)"
  by (simp add: same_head_def)

text \<open>However large the file: no fault, the invariant is kept, and only free blocks are used.\<close>

lemma allocate_node_blocks_grows:
  assumes "fs_ok st" "length (i_block node) = 15"
  shows "ok (allocate_node_blocks st data node pref) (\<lambda>(node', st'). same_head node node' \<and> (\<exists>S. grows st st' S))"
    (is "ok _ ?Q")
proof -
  let ?n = "unat (i_blocks node)"
  have three: "ok (double_blocks st2 data node2 pref ?n al) (\<lambda>(al, node', st'). ?Q (node', synced st'))"
    if "grows st st2 S" "same_head node node2" for st2 node2 al S
    using double_blocks_spec [OF grows_ok(1) [OF that(1)], of node2 data pref ?n al] that assms(2)
      grows_trans [OF that(1)] grows_synced same_head_trans
    by (fastforce simp: same_head_def elim!: ok_mono)
  have two: "ok (indirect_blocks st1 data node1 pref ?n al) (\<lambda>(al, node2, st2).
      ok (double_blocks st2 data node2 pref ?n al) (\<lambda>(al, node', st'). ?Q (node', synced st')))"
    if "grows st st1 S" "same_head node node1" for st1 node1 al S
  proof (rule ok_mono [OF indirect_blocks_spec [OF grows_ok(1) [OF that(1)]]], goal_cases)
    case 1
    show ?case using that(2) assms(2) by (simp add: same_head_def)
  next
    case (2 x)
    have "same_head node (node1\<lparr>i_block := (i_block node1)[12 := b]\<rparr>)" for b
      using that(2) by (simp add: same_head_def)
    with 2 three that grows_trans [OF that(1)] show ?case by blast
  qed
  have "ok (direct_blocks st data node pref ?n 0 12) (\<lambda>(al, node1, st1).
      ok (indirect_blocks st1 data node1 pref ?n al) (\<lambda>(al, node2, st2).
      ok (double_blocks st2 data node2 pref ?n al) (\<lambda>(al, node', st'). ?Q (node', synced st'))))"
  proof (rule ok_mono [OF direct_blocks_spec [OF assms]], goal_cases)
    case 1
    show ?case by simp
  next
    case (2 x)
    then obtain bs st1 where "x = (0 + length bs, node\<lparr>i_block := place (i_block node) 0 (map of_nat bs)\<rparr>, st1)"
      "length bs \<le> 12" "grows st st1 (set bs)"
      by auto
    with two [of st1 "set bs"] direct_same_head [OF assms(2), of 0 bs] show ?case by simp
  qed
  then show ?thesis
    by (simp add: allocate_node_blocks_def ok_do Let_def sync_metadata_synced)
qed

text \<open>
  Where the code finds block \<open>k\<close> of a file: in the inode, in its block of pointers, or behind
  the doubly indirect block.
\<close>

definition file_block :: "fs \<Rightarrow> inode \<Rightarrow> nat \<Rightarrow> u32" where
  "file_block st node k =
     (if k < 12 then i_block node ! k
      else if k < 12 + PTRS_PER_BLOCK then get32 (fs_disk st (i_block node ! 12)) (4 * (k - 12))
      else let j = k - 12 - PTRS_PER_BLOCK;
               ind = get32 (fs_disk st (i_block node ! 13)) (4 * (j div PTRS_PER_BLOCK))
           in get32 (fs_disk st ind) (4 * (j mod PTRS_PER_BLOCK)))"

definition room :: "u32 \<Rightarrow> fs \<Rightarrow> nat set" where
  "room pref st = {n. 256 * unat pref \<le> n \<and> n < 2048 \<and> \<not> block_used st n}"

text \<open>The file of \<open>node\<close> holds \<open>data\<close> in the blocks \<open>S\<close>.\<close>

definition stored :: "fs \<Rightarrow> inode \<Rightarrow> mem \<Rightarrow> nat set \<Rightarrow> bool" where
  "stored st node data S \<longleftrightarrow> (\<forall>k<unat (i_blocks node). \<exists>n\<in>S. file_block st node k = of_nat n \<and>
     holds st n (data_block (uninit st) data (i_size node) (unat (i_blocks node)) k))"

text \<open>The blocks \<open>deallocate_node\<close> visits for a file of at most 140 blocks, in its order.\<close>

definition file_ids :: "fs \<Rightarrow> inode \<Rightarrow> u32 list" where
  "file_ids st node =
     (let remain = unat (i_blocks node); ind = i_block node ! 12 in
      take (min 12 remain) (i_block node) @
      (if 12 < remain
       then pointers (fs_disk st ind) (remain - 12) @ [ind] else []))"

text \<open>These blocks are different ones, all from \<open>S\<close>.\<close>

definition owned :: "fs \<Rightarrow> inode \<Rightarrow> nat set \<Rightarrow> bool" where
  "owned st node S \<longleftrightarrow> distinct (file_ids st node) \<and> set (file_ids st node) = of_nat ` S"

lemma distinct_blocks: "distinct bs \<Longrightarrow> (\<And>n. n \<in> set bs \<Longrightarrow> n < 8192) \<Longrightarrow> distinct (map of_nat bs :: u32 list)"
  by (auto simp: distinct_map inj_on_def)

lemma owned_direct:
  assumes "length (i_block node) = 15" "length bs = unat (i_blocks node)" "length bs \<le> 12" "distinct bs" "\<And>n. n \<in> set bs \<Longrightarrow> n < 8192"
  shows "owned st (node\<lparr>i_block := place (i_block node) 0 (map of_nat bs)\<rparr>) (set bs)"
  using assms distinct_blocks [OF assms(4,5)] by (simp add: owned_def file_ids_def Let_def place_def)

lemma owned_indirect:
  assumes "length (i_block node) = 15" "length bs = 12" "12 + length bs2 = unat (i_blocks node)"
    and "\<forall>j<length bs2. get32 (fs_disk st (of_nat n)) (4 * j) = of_nat (bs2 ! j)"
    and "distinct (bs @ bs2 @ [n])" "\<And>n'. n' \<in> set bs \<union> set (n # bs2) \<Longrightarrow> n' < 8192" "bs2 \<noteq> []"
  shows "owned st (node\<lparr>i_block := (place (i_block node) 0 (map of_nat bs))[12 := of_nat n]\<rparr>) (set bs \<union> set (n # bs2))"
proof -
  have "pointers (fs_disk st (of_nat n)) (length bs2) = map of_nat bs2"
    using assms(4) by (intro nth_equalityI) (simp_all add: pointers_def)
  moreover have "unat (i_blocks node) - 12 = length bs2" "12 < unat (i_blocks node)"
    using assms(3,7) by (simp_all flip: assms(3))
  ultimately have "file_ids st (node\<lparr>i_block := (place (i_block node) 0 (map of_nat bs))[12 := of_nat n]\<rparr>) = map of_nat (bs @ bs2 @ [n])"
    using assms(1,2) by (simp add: file_ids_def Let_def place_def)
  then show ?thesis
    using distinct_blocks [OF assms(5)] assms(6) by (auto simp: owned_def)
qed

lemma owned_synced:
  assumes "owned st node S" "\<And>n. n \<in> S \<Longrightarrow> 2 < n \<and> n < 2048" "12 < unat (i_blocks node) \<Longrightarrow> \<exists>n\<in>S. i_block node ! 12 = of_nat n"
  shows "owned (synced st) node S"
proof -
  have "fs_disk (synced st) (i_block node ! 12) = fs_disk st (i_block node ! 12)" if h: "12 < unat (i_blocks node)"
  proof -
    obtain n where "n \<in> S" "i_block node ! 12 = of_nat n" using assms(3) [OF h] by blast
    with assms(2) [of n] show ?thesis by simp
  qed
  then have "file_ids (synced st) node = file_ids st node" by (simp add: file_ids_def Let_def)
  with assms(1) show ?thesis by (simp add: owned_def)
qed

lemma exhausted_room:
  assumes "grows st st' S" "exhausted pref st'" "finite S"
  shows "card (room pref st) \<le> card S"
  using assms by (intro card_mono) (auto simp: room_def exhausted_def grows_def)

lemma holds_synced: "holds st n m \<Longrightarrow> 2 < n \<Longrightarrow> n < 8192 \<Longrightarrow> holds (synced st) n m"
  by (simp add: holds_def)

lemma stored_direct:
  assumes "length (i_block node) = 15" "length bs = unat (i_blocks node)" "length bs \<le> 12"
    and "holds_all st bs (\<lambda>j. data_block (uninit st) data (i_size node) (unat (i_blocks node)) j)"
  shows "stored st (node\<lparr>i_block := place (i_block node) 0 (map of_nat bs)\<rparr>) data (set bs)"
  using assms by (auto simp: stored_def file_block_def nth_place holds_all_def)

lemma stored_indirect:
  assumes "length (i_block node) = 15" "length bs = 12" "length bs2 \<le> 128"
    and "12 + length bs2 = unat (i_blocks node)"
    and "holds_all st bs (\<lambda>j. data_block (uninit st) data (i_size node) (unat (i_blocks node)) j)"
    and "holds_all st bs2 (\<lambda>j. data_block (uninit st) data (i_size node) (unat (i_blocks node)) (12 + j))"
    and "\<forall>j<length bs2. get32 (fs_disk st (of_nat n)) (4 * j) = of_nat (bs2 ! j)"
  shows "stored st (node\<lparr>i_block := (place (i_block node) 0 (map of_nat bs))[12 := of_nat n]\<rparr>) data
    (set bs \<union> set (n # bs2))"
  unfolding stored_def
proof (intro allI impI)
  fix k
  let ?node = "node\<lparr>i_block := (place (i_block node) 0 (map of_nat bs))[12 := of_nat n]\<rparr>"
  assume k: "k < unat (i_blocks ?node)"
  show "\<exists>m\<in>set bs \<union> set (n # bs2). file_block st ?node k = of_nat m \<and>
      holds st m (data_block (uninit st) data (i_size ?node) (unat (i_blocks ?node)) k)"
  proof (cases "k < 12")
    case True
    then show ?thesis
      using assms by (intro bexI [of _ "bs ! k"]) (auto simp: file_block_def nth_place holds_all_def)
  next
    case False
    then obtain j where "k = 12 + j" by (metis le_Suc_ex not_less)
    then show ?thesis
      using assms k by (intro bexI [of _ "bs2 ! j"]) (auto simp: file_block_def holds_all_def)
  qed
qed

lemma stored_synced:
  assumes "stored st node data S" "\<And>n. n \<in> S \<Longrightarrow> 2 < n \<and> n < 2048"
    and "unat (i_blocks node) \<le> 140" and "12 < unat (i_blocks node) \<Longrightarrow> \<exists>n\<in>S. i_block node ! 12 = of_nat n"
  shows "stored (synced st) node data S"
  unfolding stored_def
proof (intro allI impI)
  fix k
  assume k: "k < unat (i_blocks node)"
  then obtain n where n: "n \<in> S" "file_block st node k = of_nat n"
    "holds st n (data_block (uninit st) data (i_size node) (unat (i_blocks node)) k)"
    using assms(1) unfolding stored_def by blast
  have "file_block (synced st) node k = file_block st node k"
  proof (cases "k < 12")
    case False
    then obtain p where p: "p \<in> S" "i_block node ! 12 = of_nat p" using assms(4) k by auto
    with assms(2) [OF p(1)] k assms(3) show ?thesis by (simp add: file_block_def)
  qed (simp add: file_block_def)
  with n holds_synced [OF n(3)] assms(2) [OF n(1)]
  show "\<exists>n\<in>S. file_block (synced st) node k = of_nat n \<and>
      holds (synced st) n (data_block (uninit (synced st)) data (i_size node) (unat (i_blocks node)) k)"
    by (intro bexI [of _ n]) simp_all
qed

lemma allocate_node_blocks_stores:
  assumes "fs_ok st" "length (i_block node) = 15" "unat (i_blocks node) \<le> 140"
    and space: "unat (i_blocks node) + (if 12 < unat (i_blocks node) then 1 else 0) \<le> card (room pref st)"
  shows "ok (allocate_node_blocks st data node pref) (\<lambda>(node', st'). same_head node node' \<and>
    (\<exists>S. grows st st' S \<and> stored st' node' data S \<and> owned st' node' S \<and>
      (12 < unat (i_blocks node) \<longrightarrow> (\<exists>n\<in>S. i_block node' ! 12 = of_nat n))))" (is "ok _ ?Q")
proof -
  let ?n = "unat (i_blocks node)"
  let ?P = "\<lambda>st1 node1 S. grows st st1 S \<and> same_head node node1 \<and> stored st1 node1 data S \<and> owned st1 node1 S \<and>
      (12 < ?n \<longrightarrow> (\<exists>n\<in>S. i_block node1 ! 12 = of_nat n))"
  have three: "ok (double_blocks st2 data node2 pref ?n ?n) (\<lambda>(al, node', st'). ?Q (node', synced st'))"
    if P: "?P st2 node2 S" for st2 node2 S
  proof -
    have S: "2 < n \<and> n < 2048" if "n \<in> S" for n
    proof -
      have n: "n < 2048" "\<not> block_used st n" using P grows_new that by blast+
      from reserved_less [OF free_not_reserved [OF assms(1) n]] n(1) show ?thesis by simp
    qed
    have "i_blocks node2 = i_blocks node" using P by (simp add: same_head_def)
    then have "stored (synced st2) node2 data S"
      using P S assms(3) by (intro stored_synced) auto
    moreover have "owned (synced st2) node2 S"
      using P S \<open>i_blocks node2 = i_blocks node\<close> by (intro owned_synced) auto
    ultimately have "?Q (node2, synced st2)" using P grows_synced by auto
    then show ?thesis by (simp add: double_blocks_def)
  qed
  have "ok (direct_blocks st data node pref ?n 0 12) (\<lambda>(al, node1, st1).
      ok (indirect_blocks st1 data node1 pref ?n al) (\<lambda>(al, node2, st2).
      ok (double_blocks st2 data node2 pref ?n al) (\<lambda>(al, node', st'). ?Q (node', synced st'))))"
  proof (rule ok_mono [OF direct_blocks_spec [OF assms(1,2)]], goal_cases)
    case 1
    show ?case by simp
  next
    case (2 x)
    let ?node1 = "\<lambda>bs. node\<lparr>i_block := place (i_block node) 0 (map of_nat bs)\<rparr>"
    from 2 obtain bs st1 where x: "x = (length bs, ?node1 bs, st1)"
      and bs: "length bs \<le> 12" "length bs \<le> ?n" "distinct bs" "grows st st1 (set bs)"
        "length bs < min ?n 12 \<longrightarrow> exhausted pref st1"
        "holds_all st1 bs (\<lambda>j. data_block (uninit st) data (i_size node) ?n j)"
      by auto
    have U: "uninit st1 = uninit st" by (rule grows_ok(2) [OF bs(4)])
    have full: "length bs = min ?n 12"
    proof (rule ccontr)
      assume "length bs \<noteq> min ?n 12"
      with bs have "card (room pref st) \<le> length bs" and "length bs < ?n"
        using exhausted_room [OF bs(4)] by (auto simp: distinct_card)
      with space show False by (auto split: if_splits)
    qed
    have low: "n < 8192" if "n \<in> set bs" for n using grows_new [OF bs(4) that] by simp
    have head: "same_head node (?node1 bs)" using assms(2) bs(1) by (intro direct_same_head) auto
    show ?case
    proof (cases "?n \<le> 12")
      case True
      with full have "length bs = ?n" by simp
      with assms(2) bs U have "?P st1 (?node1 bs) (set bs)"
        using stored_direct [OF assms(2), of bs st1 data] owned_direct [OF assms(2), of bs st1] low head True by simp
      from three [OF this] True full show ?thesis
        by (simp add: x indirect_blocks_def)
    next
      case False
      with full have len: "length bs = 12" by simp
      have "ok (indirect_blocks st1 data (?node1 bs) pref ?n 12) (\<lambda>(al, node2, st2).
        ok (double_blocks st2 data node2 pref ?n al) (\<lambda>(al, node', st'). ?Q (node', synced st')))"
      proof (rule ok_mono [OF indirect_blocks_spec [OF grows_ok(1) [OF bs(4)]]], goal_cases)
        case 1
        show ?case using assms(2) bs(1) by simp
      next
        case (2 y)
        have more: "\<not> exhausted pref st1"
        proof
          assume "exhausted pref st1"
          from exhausted_room [OF bs(4) this] bs(3) have "card (room pref st) \<le> 12"
            by (simp add: distinct_card len)
          with space False show False by simp
        qed
        obtain n bs2 st2 where
          y: "y = (12 + length bs2, ?node1 bs\<lparr>i_block := (i_block (?node1 bs))[12 := of_nat n]\<rparr>, st2)"
          and ind: "length bs2 \<le> 128" "12 + length bs2 \<le> ?n" "distinct (n # bs2)"
            "grows st1 st2 (set (n # bs2))" "12 + length bs2 < min ?n (12 + 128) \<longrightarrow> exhausted pref st2"
            "\<forall>j<length bs2. get32 (fs_disk st2 (of_nat n)) (4 * j) = of_nat (bs2 ! j)"
            "holds_all st2 bs2 (\<lambda>j. data_block (uninit st1) data (i_size node) ?n (12 + j))"
        proof (cases y)
          case (fields al2 node2 st2)
          from 2 False more obtain n bs2 where
            "node2 = ?node1 bs\<lparr>i_block := (i_block (?node1 bs))[12 := of_nat n]\<rparr>" "al2 = 12 + length bs2"
            "length bs2 \<le> 128" "al2 \<le> max 12 ?n" "distinct (n # bs2)"
            "grows st1 st2 (set (n # bs2))" "al2 < min ?n (12 + 128) \<longrightarrow> exhausted pref st2"
            "\<forall>j<length bs2. get32 (fs_disk st2 (of_nat n)) (4 * j) = of_nat (bs2 ! j)"
            "holds_all st2 bs2 (\<lambda>j. data_block (uninit st1) data (i_size (?node1 bs)) ?n (12 + j))"
            unfolding fields prod.case by fastforce
          with False fields that [of bs2 n st2] show thesis by simp
        qed
        note grow = grows_trans [OF bs(4) ind(4)]
        have full2: "12 + length bs2 = ?n"
        proof (rule ccontr)
          assume "12 + length bs2 \<noteq> ?n"
          with ind assms(3) have "exhausted pref st2" and lt: "12 + length bs2 < ?n" by auto
          from exhausted_room [OF grow this(1)]
          have "card (room pref st) \<le> card (set bs \<union> set (n # bs2))" by simp
          also have "\<dots> \<le> card (set bs) + card (set (n # bs2))" by (rule card_Un_le)
          also have "\<dots> = 12 + Suc (length bs2)"
            using bs(3) ind(3) len by (simp only: distinct_card) simp
          finally show False using space False lt by simp
        qed
        have "holds_all st2 bs (\<lambda>j. data_block (uninit st2) data (i_size node) ?n j)"
          using bs(6) grows_holds_fresh [OF assms(1) bs(4) _ _ ind(4)] U grows_ok(2) [OF ind(4)]
          by (simp add: holds_all_def)
        then have "stored st2 (node\<lparr>i_block := (place (i_block node) 0 (map of_nat bs))[12 := of_nat n]\<rparr>)
            data (set bs \<union> set (n # bs2))"
          using stored_indirect [OF assms(2) len ind(1) full2 _ _ ind(6)] ind(7) grows_ok(2) [OF ind(4)] by simp
        moreover have "same_head node (node\<lparr>i_block := (place (i_block node) 0 (map of_nat bs))[12 := of_nat n]\<rparr>)"
          using head by (simp add: same_head_def)
        moreover have "owned st2 (node\<lparr>i_block := (place (i_block node) 0 (map of_nat bs))[12 := of_nat n]\<rparr>) (set bs \<union> set (n # bs2))"
        proof (rule owned_indirect [OF assms(2) len full2 ind(6)])
          show "distinct (bs @ bs2 @ [n])" using bs(3) ind(3) grows_disjoint [OF bs(4) ind(4)] by auto
          show "m < 8192" if "m \<in> set bs \<union> set (n # bs2)" for m using grows_new [OF grow that] by simp
          show "bs2 \<noteq> []" using full2 False by auto
        qed
        ultimately have "?P st2 (node\<lparr>i_block := (place (i_block node) 0 (map of_nat bs))[12 := of_nat n]\<rparr>)
            (set bs \<union> set (n # bs2))"
          using grow assms(2) len by simp
        from three [OF this] show ?case by (simp add: y full2)
      qed
      then show ?thesis by (simp add: x len)
    qed
  qed
  then show ?thesis
    by (simp add: allocate_node_blocks_def ok_do Let_def sync_metadata_synced)
qed

subsection \<open>What a release changes\<close>

definition drops :: "fs \<Rightarrow> fs \<Rightarrow> nat set \<Rightarrow> bool" where
  "drops st st' S \<longleftrightarrow> fs_ok st' \<and> uninit st' = uninit st \<and>
     (\<forall>n<2048. block_used st' n \<longleftrightarrow> block_used st n \<and> n \<notin> S) \<and>
     (\<forall>n<8192. (\<forall>g. n \<noteq> bbm g) \<longrightarrow> n \<noteq> 1 \<longrightarrow> n \<noteq> 2 \<longrightarrow>
       fs_disk st' (of_nat n) = fs_disk st (of_nat n))"

definition freeable :: "fs \<Rightarrow> u32 list \<Rightarrow> bool" where
  "freeable st ids \<longleftrightarrow> distinct ids \<and>
     (\<forall>b\<in>set ids. unat b < 2048 \<and> block_used st (unat b) \<and> \<not> reserved (unat b))"

lemma drops_refl: "fs_ok st \<Longrightarrow> drops st st {}"
  by (simp add: drops_def)

lemma drops_ok: "drops st st' S \<Longrightarrow> fs_ok st'" "drops st st' S \<Longrightarrow> uninit st' = uninit st"
  by (simp_all add: drops_def)

lemma drops_trans: "drops st st1 S \<Longrightarrow> drops st1 st2 T \<Longrightarrow> drops st st2 (S \<union> T)"
  unfolding drops_def by auto

lemma drops_disk:
  "drops st st' S \<Longrightarrow> n < 8192 \<Longrightarrow> (\<And>g. n \<noteq> bbm g) \<Longrightarrow> n \<noteq> 1 \<Longrightarrow> n \<noteq> 2 \<Longrightarrow>
    fs_disk st' (of_nat n) = fs_disk st (of_nat n)"
  unfolding drops_def by blast

lemma drops_inode_used: "drops st st' S \<Longrightarrow> n \<le> 896 \<Longrightarrow> inode_used st' n = inode_used st n"
  using drops_disk [of st st' S "ibm ((n - 1) div 112)"] inode_group_less [of n]
    low_blocks(2) [of "(n - 1) div 112"] by (simp add: inode_used_def)

lemma drops_node_of: "drops st st' S \<Longrightarrow> n \<le> 896 \<Longrightarrow> node_of st' n = node_of st n"
  using drops_disk [of st st' S "node_block n"] by (simp add: node_of_def)

lemma drops_release_block:
  assumes "fs_ok st" "n < 2048" "block_used st n" "\<not> reserved n"
  shows "drops st (release_block st n) {n}"
  using assms inv_release_block by (auto simp: drops_def used_release_block)

lemma free_block_drops:
  assumes "fs_ok st" "unat b < 2048" "block_used st (unat b)" "\<not> reserved (unat b)"
  shows "ok (free_block st b) (\<lambda>st'. drops st st' {unat b})"
  using assms by (simp add: free_block_eq drops_release_block)

lemma freeable_drops:
  assumes "freeable st (b # ids)" "drops st st' {unat b}"
  shows "freeable st' ids"
proof -
  have "unat c \<noteq> unat b" if "c \<in> set ids" for c
    using assms(1) that by (auto simp: freeable_def word_unat_eq_iff [symmetric])
  with assms show ?thesis by (auto simp: freeable_def drops_def)
qed

text \<open>Freeing a list of pointers, the zeros among them skipped.\<close>

lemma free_blocks_drops:
  assumes "fs_ok st" "freeable st (filter (\<lambda>b. b \<noteq> 0) ids)"
  shows "ok (free_blocks st ids) (\<lambda>st'. drops st st' (unat ` set (filter (\<lambda>b. b \<noteq> 0) ids)))"
  using assms
proof (induction ids arbitrary: st)
  case Nil
  then show ?case by (simp add: drops_refl)
next
  case (Cons b ids)
  show ?case
  proof (cases "b = 0")
    case True
    with Cons show ?thesis by simp
  next
    case False
    let ?ids = "filter (\<lambda>b. b \<noteq> 0) ids"
    have ids: "freeable st (b # ?ids)" using Cons.prems(2) False by simp
    then have "ok (free_block st b) (\<lambda>st'. drops st st' {unat b})"
      using Cons.prems(1) by (intro free_block_drops) (auto simp: freeable_def)
    then have "ok (free_block st b) (\<lambda>st1. ok (free_blocks st1 ids)
        (\<lambda>st'. drops st st' (unat ` set (b # ?ids))))"
    proof (rule ok_mono)
      fix st1
      assume d: "drops st st1 {unat b}"
      have "{unat b} \<union> unat ` set ?ids = unat ` set (b # ?ids)" by simp
      with Cons.IH [OF drops_ok(1) [OF d] freeable_drops [OF ids d]] drops_trans [OF d]
      show "ok (free_blocks st1 ids) (\<lambda>st'. drops st st' (unat ` set (b # ?ids)))"
        by (metis (no_types, lifting) ok_mono)
    qed
    then show ?thesis using False by (simp add: ok_do)
  qed
qed

definition used_ids :: "fs \<Rightarrow> inode \<Rightarrow> u32 list" where
  "used_ids st node = filter (\<lambda>b. b \<noteq> 0) (file_ids st node)"

lemma pointers_overlay: "count \<le> 128 \<Longrightarrow> pointers (overlay m r) count = pointers m count"
  unfolding pointers_def by (intro map_cong refl get32_cong) auto

lemma freeable_append:
  assumes "freeable st (xs @ ys)" "drops st st' (unat ` set xs)"
  shows "freeable st' ys"
proof -
  have "unat b \<notin> unat ` set xs" if "b \<in> set ys" for b
    using assms(1) that by (auto simp: freeable_def word_unat_eq_iff [symmetric])
  with assms show ?thesis by (auto simp: freeable_def drops_def)
qed

lemma freeable_appendD: "freeable st (xs @ ys) \<Longrightarrow> freeable st xs"
  by (auto simp: freeable_def)

lemma free_indirect_drops:
  assumes "fs_ok st" "count \<le> 128" "b \<noteq> 0"
    and "freeable st (filter (\<lambda>b. b \<noteq> 0) (pointers (fs_disk st b) count @ [b]))"
  shows "ok (free_indirect st b count)
    (\<lambda>st'. drops st st' (unat ` set (filter (\<lambda>b. b \<noteq> 0) (pointers (fs_disk st b) count @ [b]))))"
proof -
  let ?ids = "filter (\<lambda>b. b \<noteq> 0) (pointers (fs_disk st b) count)"
  have all: "freeable st (?ids @ [b])" using assms(3,4) by simp
  then have b: "unat b < 8192" by (simp add: freeable_def)
  have "ok (free_blocks st (pointers (fs_disk st b) count)) (\<lambda>st1. ok (free_block st1 b)
      (\<lambda>st'. drops st st' (unat ` set (?ids @ [b]))))"
  proof (rule ok_mono [OF free_blocks_drops [OF assms(1) freeable_appendD [OF all]]])
    fix st1
    assume d: "drops st st1 (unat ` set ?ids)"
    have "freeable st1 [b]" by (rule freeable_append [OF all d])
    then have "ok (free_block st1 b) (\<lambda>st'. drops st1 st' {unat b})"
      using drops_ok(1) [OF d] by (intro free_block_drops) (auto simp: freeable_def)
    moreover have "unat ` set ?ids \<union> {unat b} = unat ` set (?ids @ [b])" by simp
    ultimately show "ok (free_block st1 b) (\<lambda>st'. drops st st' (unat ` set (?ids @ [b])))"
      using drops_trans [OF d] by (metis (no_types, lifting) ok_mono)
  qed
  then show ?thesis
    using assms(2,3) b by (simp add: free_indirect_def read_block_eq pointers_overlay ok_do)
qed

text \<open>Two releases one after the other.\<close>

lemma drops_then:
  assumes "ok m (\<lambda>st1. drops st st1 (unat ` set xs))" "freeable st (xs @ ys)"
    and "\<And>st1. drops st st1 (unat ` set xs) \<Longrightarrow> freeable st1 ys \<Longrightarrow> fs_ok st1 \<Longrightarrow> ok (f st1) (\<lambda>st2. drops st1 st2 (unat ` set ys))"
  shows "ok (m \<bind> f) (\<lambda>st2. drops st st2 (unat ` set (xs @ ys)))"
  using assms(1)
proof (rule ok_bindI)
  fix st1
  assume d: "drops st st1 (unat ` set xs)"
  have "unat ` set (xs @ ys) = unat ` set xs \<union> unat ` set ys" by auto
  then show "ok (f st1) (\<lambda>st2. drops st st2 (unat ` set (xs @ ys)))"
    using assms(3) [OF d freeable_append [OF assms(2) d] drops_ok(1) [OF d]] drops_trans [OF d]
    by (metis (no_types, lifting) ok_mono)
qed

text \<open>
  The blocks a file of any size holds: the direct ones, those its indirect block points to and that
  block, then, one block of pointers after the other, those each of them points to and itself, and the
  doubly indirect block. All blocks of pointers that its size calls for have to be there.
\<close>

fun double_ids :: "fs \<Rightarrow> u32 list \<Rightarrow> nat \<Rightarrow> u32 list" where
  "double_ids st [] todo = []"
| "double_ids st (b # bs) todo =
     (if 0 < todo then filter (\<lambda>b. b \<noteq> 0) (pointers (fs_disk st b) (min todo 128)) @ b # double_ids st bs (todo - 128) else [])"

definition held_ids :: "fs \<Rightarrow> inode \<Rightarrow> u32 list" where
  "held_ids st node =
     (let n = unat (i_blocks node); ind = i_block node ! 12; dbl = i_block node ! 13 in
      filter (\<lambda>b. b \<noteq> 0) (take (min 12 n) (i_block node)) @
      (if 12 < n then filter (\<lambda>b. b \<noteq> 0) (pointers (fs_disk st ind) (min (n - 12) 128)) @ [ind] else []) @
      (if 140 < n then double_ids st (pointers (fs_disk st dbl) 128) (n - 140) @ [dbl] else []))"

definition pointers_there :: "fs \<Rightarrow> inode \<Rightarrow> bool" where
  "pointers_there st node \<longleftrightarrow>
     (let n = unat (i_blocks node); dbl = i_block node ! 13 in
      (12 < n \<longrightarrow> i_block node ! 12 \<noteq> 0) \<and>
      (140 < n \<longrightarrow> dbl \<noteq> 0 \<and> (\<forall>j<128. 128 * j < n - 140 \<longrightarrow> pointers (fs_disk st dbl) 128 ! j \<noteq> 0)))"

lemma drops_freeable_disk:
  "drops st st1 S \<Longrightarrow> unat b < 2048 \<Longrightarrow> \<not> reserved (unat b) \<Longrightarrow> fs_disk st1 b = fs_disk st b"
  using drops_disk [of st st1 S "unat b"] not_reserved_metadata [of "unat b"] by fastforce

lemma double_ids_drops:
  "drops st st1 S \<Longrightarrow> (\<And>b. b \<in> set (double_ids st ids todo) \<Longrightarrow> unat b < 2048 \<and> \<not> reserved (unat b)) \<Longrightarrow>
    double_ids st1 ids todo = double_ids st ids todo"
proof (induction ids arbitrary: todo)
  case (Cons b bs)
  show ?case
  proof (cases "0 < todo")
    case True
    then have "fs_disk st1 b = fs_disk st b" using Cons.prems(2) [of b] by (intro drops_freeable_disk [OF Cons.prems(1)]) simp_all
    moreover have "double_ids st1 bs (todo - 128) = double_ids st bs (todo - 128)"
      by (rule Cons.IH [OF Cons.prems(1)]) (use Cons.prems(2) True in simp)
    ultimately show ?thesis by simp
  qed simp
qed simp

lemma free_double_drops:
  assumes "fs_ok st" "freeable st (double_ids st ids todo)" "\<And>j. j < length ids \<Longrightarrow> 128 * j < todo \<Longrightarrow> ids ! j \<noteq> 0"
  shows "ok (free_double st ids todo) (\<lambda>st'. drops st st' (unat ` set (double_ids st ids todo)))"
  using assms
proof (induction ids arbitrary: st todo)
  case (Cons b bs)
  show ?case
  proof (cases "0 < todo")
    case True
    let ?xs = "filter (\<lambda>b. b \<noteq> 0) (pointers (fs_disk st b) (min todo 128) @ [b])" and ?ys = "double_ids st bs (todo - 128)"
    have b: "b \<noteq> 0" using Cons.prems(3) [of 0] True by simp
    have ids: "double_ids st (b # bs) todo = ?xs @ ?ys" using True b by simp
    have all: "freeable st (?xs @ ?ys)" using Cons.prems(2) ids by simp
    have "todo - min todo 128 = todo - 128" by simp
    then have eq: "free_double st (b # bs) todo = free_indirect st b (min todo 128) \<bind> (\<lambda>st. free_double st bs (todo - 128))"
      using True b by (simp add: Let_def PTRS_PER_BLOCK_def)
    show ?thesis
      unfolding ids eq
    proof (rule drops_then [OF free_indirect_drops [OF Cons.prems(1) _ b freeable_appendD [OF all]] all])
      fix st1
      assume d: "drops st st1 (unat ` set ?xs)" "freeable st1 ?ys" "fs_ok st1"
      have same: "double_ids st1 bs (todo - 128) = ?ys"
        by (rule double_ids_drops [OF d(1)]) (use d(2) in \<open>simp add: freeable_def\<close>)
      have "bs ! j \<noteq> 0" if "j < length bs" "128 * j < todo - 128" for j
        using Cons.prems(3) [of "Suc j"] that by simp
      from Cons.IH [OF d(3), of "todo - 128", unfolded same, OF d(2) this]
      show "ok (free_double st1 bs (todo - 128)) (\<lambda>st2. drops st1 st2 (unat ` set ?ys))" .
    qed simp
  qed (use Cons.prems(1) in \<open>simp add: drops_refl\<close>)
qed (simp add: drops_refl)

lemma free_node_blocks_eq:
  assumes "length (i_block node) = 15" "pointers_there st node" "n = unat (i_blocks node)"
  shows "free_node_blocks st node = free_blocks st (take (min 12 n) (i_block node)) \<bind> (\<lambda>st.
    (if 12 < n then free_indirect st (i_block node ! 12) (min (n - 12) 128) else Some st) \<bind> (\<lambda>st.
    if 140 < n then read_block st (uninit st) (i_block node ! 13) \<bind> (\<lambda>dblBuf.
      free_double st (pointers dblBuf 128) (n - 140) \<bind> (\<lambda>st. free_block st (i_block node ! 13))) else Some st))"
proof -
  have "n - 12 - min (n - 12) 128 = n - 140" by simp
  then show ?thesis
    using assms
    by (cases "n \<le> 12"; cases "n \<le> 140")
      (simp_all add: free_node_blocks_def pointers_there_def Let_def PTRS_PER_BLOCK_def min_def)
qed

lemma free_node_blocks_drops:
  assumes "fs_ok st" "length (i_block node) = 15" "freeable st (held_ids st node)" "pointers_there st node"
  shows "ok (free_node_blocks st node) (\<lambda>st'. drops st st' (unat ` set (held_ids st node)))"
proof -
  let ?n = "unat (i_blocks node)" and ?nz = "filter (\<lambda>b. b \<noteq> 0)" and ?ind = "i_block node ! 12" and ?dbl = "i_block node ! 13"
  let ?xs = "?nz (take (min 12 ?n) (i_block node))"
  let ?ys = "if 12 < ?n then ?nz (pointers (fs_disk st ?ind) (min (?n - 12) 128) @ [?ind]) else []"
  let ?ds = "double_ids st (pointers (fs_disk st ?dbl) 128) (?n - 140)"
  let ?zs = "if 140 < ?n then ?ds @ [?dbl] else []"
  have there: "12 < ?n \<Longrightarrow> ?ind \<noteq> 0" "140 < ?n \<Longrightarrow> ?dbl \<noteq> 0"
    "\<And>j. 140 < ?n \<Longrightarrow> j < 128 \<Longrightarrow> 128 * j < ?n - 140 \<Longrightarrow> pointers (fs_disk st ?dbl) 128 ! j \<noteq> 0"
    using assms(4) by (simp_all add: pointers_there_def Let_def)
  have ids: "held_ids st node = ?xs @ ?ys @ ?zs" using there(1) by (simp add: held_ids_def Let_def)
  have all: "freeable st (?xs @ ?ys @ ?zs)" using assms(3) ids by simp
  have known: "unat b < 2048" "\<not> reserved (unat b)" if "b \<in> set (?ys @ ?zs)" for b
    using all that by (auto simp: freeable_def)
  show ?thesis
    unfolding ids free_node_blocks_eq [OF assms(2,4) refl]
  proof (rule drops_then [OF free_blocks_drops [OF assms(1) freeable_appendD [OF all]] all], rule drops_then)
    fix st1
    assume d: "drops st st1 (unat ` set ?xs)" "freeable st1 (?ys @ ?zs)" "fs_ok st1"
    show "freeable st1 (?ys @ ?zs)" by (rule d(2))
    show "ok (if 12 < ?n then free_indirect st1 ?ind (min (?n - 12) 128) else Some st1) (\<lambda>st2. drops st1 st2 (unat ` set ?ys))"
    proof (cases "12 < ?n")
      case True
      have same: "fs_disk st1 ?ind = fs_disk st ?ind"
        using known [of ?ind] there(1) True by (intro drops_freeable_disk [OF d(1)]) simp_all
      have "freeable st1 (?nz (pointers (fs_disk st ?ind) (min (?n - 12) 128) @ [?ind]))"
        using freeable_appendD [OF d(2)] True by simp
      from free_indirect_drops [OF d(3) _ there(1) [OF True], unfolded same, OF _ this] True show ?thesis by simp
    qed (use d(3) in \<open>simp add: drops_refl\<close>)
    fix st2
    assume e: "drops st1 st2 (unat ` set ?ys)" "freeable st2 ?zs" "fs_ok st2"
    note both = drops_trans [OF d(1) e(1)]
    show "ok (if 140 < ?n then read_block st2 (uninit st2) ?dbl \<bind> (\<lambda>dblBuf.
        free_double st2 (pointers dblBuf 128) (?n - 140) \<bind> (\<lambda>st. free_block st ?dbl)) else Some st2)
      (\<lambda>st3. drops st2 st3 (unat ` set ?zs))"
    proof (cases "140 < ?n")
      case True
      have dbl: "unat ?dbl < 2048" "\<not> reserved (unat ?dbl)" using known [of ?dbl] True by simp_all
      have disk: "fs_disk st2 ?dbl = fs_disk st ?dbl" by (rule drops_freeable_disk [OF both dbl])
      have same: "double_ids st2 (pointers (fs_disk st ?dbl) 128) (?n - 140) = ?ds"
        by (rule double_ids_drops [OF both]) (use known True in simp)
      have zs: "freeable st2 (?ds @ [?dbl])" using e(2) True by simp
      have "ok (free_double st2 (pointers (fs_disk st ?dbl) 128) (?n - 140)) (\<lambda>st3. drops st2 st3 (unat ` set ?ds))"
        using free_double_drops [OF e(3), of "pointers (fs_disk st ?dbl) 128" "?n - 140", unfolded same, OF freeable_appendD [OF zs]]
          there(3) [OF True] by (simp add: pointers_def)
      then have "ok (free_double st2 (pointers (fs_disk st ?dbl) 128) (?n - 140) \<bind> (\<lambda>st. free_block st ?dbl))
          (\<lambda>st3. drops st2 st3 (unat ` set (?ds @ [?dbl])))"
        by (rule drops_then [OF _ zs]) (use free_block_drops [of _ ?dbl] dbl in \<open>simp add: freeable_def\<close>)
      then show ?thesis using True dbl by (simp add: read_block_eq pointers_overlay disk)
    qed (use e(3) in \<open>simp add: drops_refl\<close>)
  qed
qed

definition zero_inode :: inode where
  "zero_inode = \<lparr>i_mode = 0, i_size = 0, i_blocks = 0, i_block = replicate 15 0\<rparr>"

lemma length_zero_inode [simp]: "length (i_block zero_inode) = 15"
  by (simp add: zero_inode_def)

lemma enc_zero_inode: "enc_inode zero_inode = replicate 70 0"
  by (simp add: enc_inode_def zero_inode_def b16_def b32_def numeral_eq_Suc)

lemma memset_inode: "memset buf (sizeof_inode * k) 0 sizeof_inode = put_inode buf k zero_inode"
  by (rule ext) (auto simp: memset_apply put_inode_def enc_zero_inode blit_def)

text \<open>A change of the directory count only.\<close>

lemma inv_upd_dirs:
  assumes "fs_ok st" "g < 8"
  shows "fs_ok (st\<lparr>bgdtCache := (bgdtCache st)[g := (bgdtCache st ! g)\<lparr>bg_used_dirs_count := c\<rparr>]\<rparr>)"
    (is "fs_ok ?st")
proof (rule inv_same_bitmaps [OF assms(1)])
  show "same_bitmaps st ?st" by (simp add: same_bitmaps_def)
  have "layout_ok (bgdtCache ?st)"
    using layout_ok_update [OF inv_layout(1) [OF assms(1)], of "\<lambda>d. d\<lparr>bg_used_dirs_count := c\<rparr>" g] by simp
  then show "same_layout (bgdtCache st) (bgdtCache ?st)"
    using inv_layout(2) [OF assms(1)] by (auto simp: same_layout_def nth_list_upd)
qed

lemma release_inode_written:
  assumes "fs_ok st" "0 < n" "n \<le> 896"
  shows "bg_inode_bitmap (bgdtCache st ! ((n - 1) div 112)) = of_nat (ibm ((n - 1) div 112))"
    "(n - 1) div 112 < length (bgdtCache st)" "ibm ((n - 1) div 112) < 8192"
  using assms inode_group_less [of n] layout_okD(1,3) [OF inv_layout(1) [OF assms(1)]] by auto

text \<open>The state after the file is gone: its blocks and its inode are free, its inode is zero.\<close>

definition node_gone :: "fs \<Rightarrow> fs \<Rightarrow> nat \<Rightarrow> nat set \<Rightarrow> bool" where
  "node_gone st st' ino S \<longleftrightarrow> fs_ok st' \<and> uninit st' = uninit st \<and>
     (\<forall>n<2048. block_used st' n \<longleftrightarrow> block_used st n \<and> n \<notin> S) \<and>
     (\<forall>n\<in>{1..896}. inode_used st' n \<longleftrightarrow> inode_used st n \<and> n \<noteq> ino) \<and>
     (\<forall>n\<in>{1..896}. node_of st' n = (if n = ino then zero_inode else node_of st n)) \<and>
     (\<forall>n<8192. \<not> reserved n \<longrightarrow> fs_disk st' (of_nat n) = fs_disk st (of_nat n))"

lemma node_gone_final:
  assumes "fs_ok st" "drops st st2 S" "0 < n" "n \<le> 896" "inode_used st n"
  shows "node_gone st (synced (release_inode (put_node st2 n zero_inode) n)) n S" (is "node_gone st ?st' n S")
proof -
  let ?p = "put_node st2 n zero_inode"
  have p: "fs_ok ?p" using inv_put_node [OF drops_ok(1) [OF assms(2)] assms(4)] .
  have same: "same_bitmaps st2 ?p" by (rule same_bitmaps_put_node [OF assms(4)])
  have used: "inode_used ?p m = inode_used st m" if "m \<le> 896" for m
    using same_bitmaps_used(2) [OF same that] drops_inode_used [OF assms(2) that] by simp
  have "fs_ok ?st'"
    using inv_release_inode [OF p assms(3,4)] used [OF assms(4)] assms(5) inv_synced by blast
  moreover have "block_used ?st' m \<longleftrightarrow> block_used st m \<and> m \<notin> S" if "m < 2048" for m
    using that assms(3,4) same_bitmaps_used(1) [OF same that] assms(2) by (simp add: drops_def)
  moreover have "inode_used ?st' m \<longleftrightarrow> inode_used st m \<and> m \<noteq> n" if "m \<in> {1..896}" for m
    using that assms(3,4) used by (simp add: used_release_inode)
  moreover have "node_of ?st' m = (if m = n then zero_inode else node_of st m)" if "m \<in> {1..896}" for m
    using that assms(3,4) node_of_put_node [of n m zero_inode st2] drops_node_of [OF assms(2), of m]
    by (simp add: node_of_def)
  moreover have "fs_disk ?st' (of_nat m) = fs_disk st (of_nat m)" if "m < 8192" "\<not> reserved m" for m
  proof -
    note meta = not_reserved_metadata [OF that(2)]
    have "m \<noteq> node_block n" using that(2) node_block_meta(5) [of n] by metis
    moreover have "m \<noteq> 1" "m \<noteq> 2" using meta(4) by simp_all
    ultimately show ?thesis
      using that assms(4) meta by (simp add: drops_disk [OF assms(2)])
  qed
  ultimately show ?thesis
    using drops_ok(2) [OF assms(2)] by (simp add: node_gone_def)
qed

lemma release_tail:
  assumes "fs_ok st2" "0 < n" "n \<le> 896" "m = fs_disk st2 (of_nat (node_block n))"
  shows "do {
      st \<leftarrow> write_block st2 (put_inode (overlay m r) (node_slot n) zero_inode) (of_nat (node_block n));
      d \<leftarrow> arr_get (bgdtCache st) ((n - 1) div 112);
      bmp \<leftarrow> read_block st (uninit st) (bg_inode_bitmap d);
      st \<leftarrow> write_block st (bmp_clear bmp ((n - 1) mod 112)) (bg_inode_bitmap d);
      st \<leftarrow> upd_bgd st ((n - 1) div 112) (\<lambda>d. d\<lparr>bg_free_inodes_count := bg_free_inodes_count d + 1\<rparr>);
      sync_metadata (upd_super st (\<lambda>sb. sb\<lparr>s_free_inodes_count := s_free_inodes_count sb + 1\<rparr>))
    } = Some (synced (release_inode (put_node st2 n zero_inode) n))"
proof -
  let ?p = "put_node st2 n zero_inode" and ?g = "(n - 1) div 112"
  have "write_block st2 (put_inode (overlay m r) (node_slot n) zero_inode) (of_nat (node_block n)) = Some ?p"
    using assms(3,4) by (simp add: write_block_eq unat_of_nat_block put_node_def)
  moreover have "fs_ok ?p" by (rule inv_put_node [OF assms(1,3)])
  note here = release_inode_written [OF this assms(2,3)]
  ultimately show ?thesis
    using here by (simp add: read_block_eq write_block_eq unat_of_nat_block upd_bgd_def upd_super_def
        release_inode_def Let_def sync_metadata_synced del: put_node_simps)
qed

lemma deallocate_node_spec:
  assumes "fs_ok st" "0 < ino" "unat ino \<le> 896" "inode_used st (unat ino)"
    and node: "node = node_of st (unat ino)" "freeable st (held_ids st node)" "pointers_there st node"
  shows "ok (deallocate_node st ino) (\<lambda>st'. node_gone st st' (unat ino) (unat ` set (held_ids st node)))"
proof -
  let ?n = "unat ino" and ?S = "unat ` set (held_ids st node)" and ?g = "(unat ino - 1) div 112"
  let ?m = "fs_disk st (of_nat (node_block ?n))"
  let ?tail = "\<lambda>st2. do {
      st \<leftarrow> write_block st2 (put_inode (overlay ?m (uninit st)) (node_slot ?n) zero_inode) (of_nat (node_block ?n));
      d \<leftarrow> arr_get (bgdtCache st) ?g;
      bmp \<leftarrow> read_block st (uninit st) (bg_inode_bitmap d);
      st \<leftarrow> write_block st (bmp_clear bmp ((?n - 1) mod 112)) (bg_inode_bitmap d);
      st \<leftarrow> upd_bgd st ?g (\<lambda>d. d\<lparr>bg_free_inodes_count := bg_free_inodes_count d + 1\<rparr>);
      sync_metadata (upd_super st (\<lambda>sb. sb\<lparr>s_free_inodes_count := s_free_inodes_count sb + 1\<rparr>))
    }"
  have n: "0 < ?n" "?g < length (bgdtCache st)" "?g < 8"
    using assms(2) release_inode_written(2) [OF assms(1) _ assms(3)] inode_group_less [OF assms(3)]
    by (simp_all add: word_less_nat_alt)
  have gone: "ok (free_node_blocks st1 node \<bind> ?tail) (\<lambda>st'. node_gone st st' ?n ?S)"
    if d: "drops st st1 {}" and same: "fs_disk st1 = fs_disk st" for st1
  proof -
    have "double_ids st1 ids todo = double_ids st ids todo" for ids todo
      by (induction ids arbitrary: todo) (simp_all add: same)
    then have "held_ids st1 node = held_ids st node" "pointers_there st1 node"
      using node(3) by (simp_all add: held_ids_def pointers_there_def same Let_def)
    moreover have "freeable st1 (held_ids st node)"
      using d node(2) by (auto simp: freeable_def drops_def)
    ultimately have "ok (free_node_blocks st1 node) (\<lambda>st2. drops st1 st2 ?S)"
      using free_node_blocks_drops [OF drops_ok(1) [OF d], of node] node(1) by simp
    then show ?thesis
    proof (rule ok_bindI)
      fix st2
      assume "drops st1 st2 ?S"
      from drops_trans [OF d this] have d2: "drops st st2 ?S" by simp
      have "fs_disk st2 (of_nat (node_block ?n)) = ?m"
        using assms(3) by (intro drops_disk [OF d2]) simp_all
      from release_tail [OF drops_ok(1) [OF d2] n(1) assms(3) this [symmetric], of "uninit st"]
        node_gone_final [OF assms(1) d2 n(1) assms(3,4)]
      show "ok (?tail st2) (\<lambda>st'. node_gone st st' ?n ?S)" by (simp only: ok_Some)
    qed
  qed
  let ?st1 = "st\<lparr>bgdtCache := (bgdtCache st)[?g := (bgdtCache st ! ?g)\<lparr>bg_used_dirs_count :=
    bg_used_dirs_count (bgdtCache st ! ?g) - 1\<rparr>]\<rparr>"
  have "drops st st {}" "drops st ?st1 {}"
    using inv_upd_dirs [OF assms(1) n(3)] assms(1) by (simp_all add: drops_def block_used_def)
  from gone [OF this(1)] gone [OF this(2)] show ?thesis
    using assms(1-3) n node(1) by (simp add: deallocate_node_def inode_block_eq read_block_eq unat_of_nat_block
        word_gt_0 Let_def inode_slot_eq memset_inode [simplified] unat_inode_to_bgd unat_inode_to_local upd_bgd_def
        node_of_def inode_at_overlay)
qed

text \<open>For a file of up to 140 blocks.\<close>

lemma held_used: "unat (i_blocks node) \<le> 140 \<Longrightarrow> (12 < unat (i_blocks node) \<Longrightarrow> i_block node ! 12 \<noteq> 0) \<Longrightarrow>
    held_ids st node = used_ids st node \<and> pointers_there st node"
  by (auto simp: held_ids_def used_ids_def file_ids_def pointers_there_def Let_def min_def)

lemma deallocate_small:
  assumes "fs_ok st" "0 < ino" "unat ino \<le> 896" "inode_used st (unat ino)"
    and node: "node = node_of st (unat ino)" "unat (i_blocks node) \<le> 140"
      "freeable st (used_ids st node)" "12 < unat (i_blocks node) \<Longrightarrow> i_block node ! 12 \<noteq> 0"
  shows "ok (deallocate_node st ino) (\<lambda>st'. node_gone st st' (unat ino) (unat ` set (used_ids st node)))"
  using deallocate_node_spec [OF assms(1-5)] held_used [OF node(2,4), of st] node(3) by simp

end
