(* ===== verification/Ext2_Dir.thy ===== *)
theory Ext2_Dir
  imports Ext2_Node
begin

section \<open>Directories and the creation of the file system\<close>

text \<open>
  The blocks of a directory, the loops that scan them, \<open>init_directory_table\<close>,
  \<open>is_directory_empty\<close>, \<open>is_empty_storage\<close>, \<open>create_ext2\<close> and
  \<open>initialize_filesystem_ext2\<close> of \<open>filesystem/ext2.c\<close>.
\<close>

text \<open>A loop over a list of indices whose body may fault.\<close>

fun iterate :: "('a \<Rightarrow> 's \<Rightarrow> 's option) \<Rightarrow> 'a list \<Rightarrow> 's \<Rightarrow> 's option" where
  "iterate f [] s = Some s"
| "iterate f (x # xs) s = f x s \<bind> iterate f xs"

subsection \<open>A new directory\<close>

text \<open>The first block of a directory: the entries of itself and of its parent.\<close>

definition new_dir_block :: "mem \<Rightarrow> u32 \<Rightarrow> u32 \<Rightarrow> mem" where
  "new_dir_block buf inode parent_inode =
     (let entry = \<lparr>de_inode = inode, rec_len = get_entry_record_len 1, de_name_len = 1,
                   file_type = EXT2_FT_DIR\<rparr>;
          buf = put_directory_entry buf 0 entry;
          name = get_entry_name 0;
          buf = buf(name := of_char CHR ''.'');
          offset2 = unat (rec_len entry);
          buf = put_directory_entry buf offset2
                  \<lparr>de_inode = parent_inode, rec_len = of_nat BLOCK_SIZE - rec_len entry,
                   de_name_len = 2, file_type = EXT2_FT_DIR\<rparr>;
          name2 = get_entry_name offset2
      in buf(name2 := of_char CHR ''.'', name2 + 1 := of_char CHR ''.''))"

text \<open>
  Before the caches are loaded, and when no block is free, the block is the first one after the
  inode table of the group.
\<close>

definition fallback_block :: "u32 \<Rightarrow> u32" where
  "fallback_block bgd =
     (let base_data = (if bgd = 0 then 5 else bgd * of_nat BLOCKS_PER_GROUP + 2)
      in base_data + of_nat INODES_TABLE_BLOCK_COUNT)"

definition init_directory_table :: "fs \<Rightarrow> inode \<Rightarrow> u32 \<Rightarrow> u32 \<Rightarrow> (inode \<times> fs) option" where
  "init_directory_table st node inode parent_inode = do {
     let bgd = inode_to_bgd inode;
     d \<leftarrow> arr_get (bgdtCache st) 0;
     (r, st) \<leftarrow> (if bg_block_bitmap d \<noteq> 0 then alloc_block st bgd else Some (None, st));
     let dir_block = (case r of Some b \<Rightarrow> b | None \<Rightarrow> fallback_block bgd);
     ptrs \<leftarrow> arr_put (i_block node) 0 dir_block;
     let node = node\<lparr>i_mode := EXT2_S_IFDIR, i_size := of_nat BLOCK_SIZE, i_blocks := 1, i_block := ptrs\<rparr>;
     st \<leftarrow> write_block st (new_dir_block (memset (uninit st) 0 0 BLOCK_SIZE) inode parent_inode) dir_block;
     d \<leftarrow> arr_get (bgdtCache st) 0;
     st \<leftarrow> (if bg_block_bitmap d \<noteq> 0 then sync_metadata st else Some st);
     Some (node, st)
   }"

subsection \<open>Creating the file system\<close>

definition fs_signature :: "u8 list" where
  "fs_signature =
     map of_char (''Course          '' @ ''Designed by     '' @ ''Lab Sister ITB  '' @
       ''Made with <3    '' @ ''-----------2025'' @ [CHR 0x0A]) @
     replicate 430 0 @ map of_char ''Ok''"

definition is_empty_storage :: "fs \<Rightarrow> bool option" where
  "is_empty_storage st = do {
     buf \<leftarrow> read_block st (uninit st) 0;
     let sig = get16 buf 0;
     Some (sig \<noteq> of2 (fs_signature ! 0) (fs_signature ! 1))
   }"

definition create_superblock :: superblock where
  "create_superblock =
     (let inodes = of_nat (GROUPS_COUNT * INODES_PER_GROUP);
          total_blocks = of_nat (DISK_SPACE div BLOCK_SIZE);
          used_blocks = 148
      in \<lparr> s_inodes_count = inodes, s_blocks_count = total_blocks, s_r_blocks_count = 0,
           s_free_blocks_count = (if total_blocks > used_blocks then total_blocks - used_blocks else 0),
           s_free_inodes_count = inodes - 1, s_first_data_block = 1, s_first_ino = 1,
           s_blocks_per_group = of_nat BLOCKS_PER_GROUP, s_frags_per_group = of_nat BLOCKS_PER_GROUP,
           s_inodes_per_group = of_nat INODES_PER_GROUP, s_magic = EXT2_SUPER_MAGIC,
           s_prealloc_blocks = 0, s_prealloc_dir_blocks = 0 \<rparr>)"

definition create_bgd :: "nat \<Rightarrow> bgd" where
  "create_bgd i =
     (if i = 0 then
        \<lparr> bg_block_bitmap = 3, bg_inode_bitmap = 4, bg_inode_table = 5,
          bg_free_blocks_count = of_nat (BLOCKS_PER_GROUP - 22),
          bg_free_inodes_count = of_nat (INODES_PER_GROUP - 1), bg_used_dirs_count = 1,
          bg_pad = 0, bg_reserved = (0, 0, 0) \<rparr>
      else let base = of_nat (i * BLOCKS_PER_GROUP) in
        \<lparr> bg_block_bitmap = base + 0, bg_inode_bitmap = base + 1, bg_inode_table = base + 2,
          bg_free_blocks_count = of_nat (BLOCKS_PER_GROUP - 18),
          bg_free_inodes_count = of_nat INODES_PER_GROUP, bg_used_dirs_count = 0,
          bg_pad = 0, bg_reserved = (0, 0, 0) \<rparr>)"

definition set_bits :: "mem \<Rightarrow> nat \<Rightarrow> mem" where
  "set_bits buf n = fold (\<lambda>b buf. bmp_set buf (b div 8) (b mod 8)) [0..<n] buf"

definition create_group :: "nat \<Rightarrow> mem \<times> fs \<Rightarrow> (mem \<times> fs) option" where
  "create_group i s = (case s of (buf, st) \<Rightarrow> do {
     let base = of_nat (i * BLOCKS_PER_GROUP);
     let buf = set_bits (memset buf 0 0 BLOCK_SIZE) 18;
     st \<leftarrow> write_block st buf (base + 0);
     let buf = memset buf 0 0 BLOCK_SIZE;
     st \<leftarrow> write_block st buf (base + 1);
     Some (buf, st)
   })"

definition create_ext2 :: "fs \<Rightarrow> fs option" where
  "create_ext2 st = do {
     let buf = memset (uninit st) 0 0 BLOCK_SIZE;
     let buf = blit buf 0 fs_signature;
     st \<leftarrow> write_block st buf 0;
     let buf = memset buf 0 0 BLOCK_SIZE;
     let buf = blit buf 0 (enc_superblock create_superblock);
     st \<leftarrow> write_block st buf 1;
     let buf = memset buf 0 0 (sizeof_bgd * GROUPS_COUNT);
     let buf = blit buf 0 (enc_bgdt (map create_bgd [0..<GROUPS_COUNT]));
     st \<leftarrow> write_block st buf 2;
     let buf = memset buf 0 0 BLOCK_SIZE;
     (node, st) \<leftarrow> init_directory_table st (inode_at buf 0) 1 1;
     let buf = put_inode buf 0 node;
     st \<leftarrow> write_block st buf 5;
     let buf = memset buf 0 0 BLOCK_SIZE;
     st \<leftarrow> iterate (\<lambda>blk st. write_block st buf (of_nat blk)) [6..<5 + INODES_TABLE_BLOCK_COUNT] st;
     let buf = set_bits (memset buf 0 0 BLOCK_SIZE) 22;
     st \<leftarrow> write_block st buf 3;
     let buf = memset buf 0 0 BLOCK_SIZE;
     let buf = buf(0 := buf 0 OR 1);
     st \<leftarrow> write_block st buf 4;
     (buf, st) \<leftarrow> iterate create_group [1..<GROUPS_COUNT] (buf, st);
     Some st
   }"

definition initialize_filesystem_ext2 :: "fs \<Rightarrow> fs option" where
  "initialize_filesystem_ext2 st = do {
     e \<leftarrow> is_empty_storage st;
     st \<leftarrow> (if e then create_ext2 st else Some st);
     load_metadata st
   }"

subsection \<open>Reading directories\<close>

text \<open>An inode by its number: the block of the table that holds it, and the inode.\<close>

definition load_inode :: "fs \<Rightarrow> u32 \<Rightarrow> (mem \<times> inode) option" where
  "load_inode st inode = do {
     b \<leftarrow> inode_block st inode;
     buf \<leftarrow> read_block st (uninit st) b;
     Some (buf, inode_at buf (inode_slot inode))
   }"

definition is_dir_mode :: "inode \<Rightarrow> bool" where
  "is_dir_mode node \<longleftrightarrow> i_mode node AND EXT2_S_IFDIR \<noteq> 0"

text \<open>
  The third entry is looked at even when the second one ends the block: then its bytes are those
  behind the 512 bytes that were read into the buffer.
\<close>

definition is_directory_empty :: "fs \<Rightarrow> u32 \<Rightarrow> bool option" where
  "is_directory_empty st inode = do {
     (buf, node) \<leftarrow> load_inode st inode;
     if \<not> is_dir_mode node then Some False
     else do {
       dir_block \<leftarrow> arr_get (i_block node) 0;
       buf \<leftarrow> read_block st buf dir_block;
       let entry = get_next_directory_entry buf 0;
       let entry = get_next_directory_entry buf entry;
       Some (de_inode (get_directory_entry buf entry) = 0)
     }
   }"

text \<open>The test every scan makes: is the entry in use and does it have this name?\<close>

definition entry_is :: "mem \<Rightarrow> nat \<Rightarrow> mem \<Rightarrow> u8 \<Rightarrow> bool" where
  "entry_is dirBuf offset name len \<longleftrightarrow>
     (let entry = get_directory_entry dirBuf offset in
      de_inode entry \<noteq> 0 \<and> de_name_len entry = ucast len \<and>
      memcmp dirBuf (get_entry_name offset) name 0 (unat (de_name_len entry)) = 0)"

text \<open>The scan of \<open>read\<close> and \<open>read_directory\<close>: the offset of the entry.\<close>

function scan_find :: "mem \<Rightarrow> mem \<Rightarrow> u8 \<Rightarrow> nat \<Rightarrow> nat option" where
  "scan_find dirBuf name len offset =
     (if offset < BLOCK_SIZE
      then if entry_is dirBuf offset name len then Some offset
        else if rec_len (get_directory_entry dirBuf offset) = 0 then None
        else scan_find dirBuf name len (offset + unat (rec_len (get_directory_entry dirBuf offset)))
      else None)"
  by pat_completeness auto
termination
  by (relation "measure (\<lambda>(_, _, _, offset). BLOCK_SIZE - offset)")
    (auto simp: unat_gt_0 intro!: diff_less_mono2)

declare scan_find.simps [simp del]

text \<open>The loop over the blocks of the directory; a zero pointer ends it.\<close>

fun find_entry :: "fs \<Rightarrow> inode \<Rightarrow> mem \<Rightarrow> u8 \<Rightarrow> nat \<Rightarrow> nat \<Rightarrow> dirent option option" where
  "find_entry st node name len bi 0 = Some None"
| "find_entry st node name len bi (Suc n) = do {
     block_id \<leftarrow> arr_get (i_block node) bi;
     if block_id = 0 then Some None
     else do {
       dirBuf \<leftarrow> read_block st (uninit st) block_id;
       case scan_find dirBuf name len 0 of
         Some offset \<Rightarrow> Some (Some (get_directory_entry dirBuf offset))
       | None \<Rightarrow> find_entry st node name len (Suc bi) n
     }
   }"

subsection \<open>What creation leaves on the disk\<close>

lemma bit_used_overlay [simp]: "i < 4096 \<Longrightarrow> bit_used (overlay m r) i = bit_used m i"
  by (rule bit_used_cong) simp_all

lemma bit_used_zero [simp]: "i < 4096 \<Longrightarrow> \<not> bit_used (memset m 0 0 512) i"
  using div_less_iff_less_mult [of 8 i 512] by (simp add: bit_used_def memset_apply)

lemma bit_used_set_bits: "n \<le> 4096 \<Longrightarrow> i < 4096 \<Longrightarrow> bit_used (set_bits m n) i \<longleftrightarrow> bit_used m i \<or> i < n"
proof (induction n)
  case 0
  show ?case by (simp add: set_bits_def)
next
  case (Suc n)
  have "set_bits m (Suc n) = bmp_set (set_bits m n) (n div 8) (n mod 8)"
    by (simp add: set_bits_def)
  with Suc show ?case by (auto simp: bit_used_set)
qed

lemma bit_used_or_1 [simp]: "bit_used (m(0 := m 0 OR 1)) i \<longleftrightarrow> bit_used m i \<or> i = 0"
  using bit_used_set [of 0 m 0 i] by (simp add: bmp_set_def)

lemma dec_superblock_overlay [simp]: "dec_superblock (overlay s m) = dec_superblock s"
  by (rule dec_superblock_cong) simp

lemma dec_bgdt_overlay [simp]: "dec_bgdt (overlay s m) = dec_bgdt s"
  by (rule dec_bgdt_cong) simp

lemma zero_inode_at: "k < 7 \<Longrightarrow> inode_at (memset m 0 0 512) k = zero_inode"
proof -
  assume k: "k < 7"
  have "inode_at (memset m 0 0 512) k = inode_at (put_inode (memset m 0 0 512) k zero_inode) k"
    using k by (intro inode_at_cong) (auto simp: put_inode_def enc_zero_inode blit_def memset_apply)
  then show ?thesis by (simp add: inode_at_put_same)
qed

lemma inode_at_put_inode [simp]:
  "length (i_block nd) = 15 \<Longrightarrow> inode_at (put_inode m j nd) k = (if k = j then nd else inode_at m k)"
  using inode_at_put_same inode_at_put_other by auto

definition root_inode :: inode where
  "root_inode = \<lparr>i_mode = EXT2_S_IFDIR, i_size = 512, i_blocks = 1, i_block = 21 # replicate 14 0\<rparr>"

lemma root_inode_eq: "zero_inode\<lparr>i_mode := EXT2_S_IFDIR, i_size := 512, i_blocks := 1,
    i_block := (i_block zero_inode)[0 := 21]\<rparr> = root_inode"
  by (simp add: zero_inode_def root_inode_def numeral_eq_Suc)

lemma dec_superblock_blit [simp]: "dec_superblock (blit m 0 (enc_superblock sb)) = sb"
  by (rule superblock_roundtrip)

lemma dec_bgdt_blit [simp]: "length table = 8 \<Longrightarrow> dec_bgdt (blit m 0 (enc_bgdt table)) = table"
  by (rule bgdt_roundtrip)

lemma new_dir_block_in: "a < 512 \<Longrightarrow> new_dir_block (memset m 0 0 512) i p a = new_dir_block (\<lambda>_. 0) i p a"
  by (simp add: new_dir_block_def Let_def put_directory_entry_def blit_def memset_apply)

lemma length_fs_signature [simp]: "length fs_signature = 512"
  by (simp add: fs_signature_def)

lemma get16_overlay [simp]: "get16 (overlay s m) 0 = get16 s 0"
  by (rule get16_cong) simp

lemma length_root_inode [simp]: "length (i_block root_inode) = 15"
  by (simp add: root_inode_def)

lemma iterate_write_blocks:
  "(\<And>b. b \<in> set bs \<Longrightarrow> b < 8192) \<Longrightarrow>
    iterate (\<lambda>blk st. write_block st m (of_nat blk)) bs st =
      Some (st\<lparr>fs_disk := (\<lambda>b. if b \<in> of_nat ` set bs then overlay m (fs_disk st b) else fs_disk st b)\<rparr>)"
proof (induction bs arbitrary: st)
  case (Cons b bs)
  then have "unat (of_nat b :: u32) < 8192" by (simp add: unat_of_nat_block)
  with Cons show ?case by (simp add: write_block_eq fun_eq_iff)
qed simp

text \<open>The bitmaps of group \<open>g\<close>: its first \<open>a\<close> blocks and its first \<open>b\<close> inodes are marked.\<close>

definition marked_first :: "fs \<Rightarrow> nat \<Rightarrow> nat \<Rightarrow> nat \<Rightarrow> bool" where
  "marked_first st g a b \<longleftrightarrow> (\<forall>i<4096. (bit_used (fs_disk st (of_nat (bbm g))) i \<longleftrightarrow> i < a) \<and>
     (bit_used (fs_disk st (of_nat (ibm g))) i \<longleftrightarrow> i < b))"

definition only_disk :: "fs \<Rightarrow> fs \<Rightarrow> bool" where
  "only_disk st st' \<longleftrightarrow> superBlock st' = superBlock st \<and> bgdtCache st' = bgdtCache st \<and> uninit st' = uninit st"

definition groups_made :: "fs \<Rightarrow> fs \<Rightarrow> nat set \<Rightarrow> bool" where
  "groups_made st st' G \<longleftrightarrow> only_disk st st' \<and> (\<forall>g\<in>G. marked_first st' g 18 0) \<and>
     (\<forall>n<8192. (\<forall>g\<in>G. n \<noteq> bbm g \<and> n \<noteq> ibm g) \<longrightarrow> fs_disk st' (of_nat n) = fs_disk st (of_nat n))"

lemma iterate_create_group:
  assumes "\<And>g. g \<in> set gs \<Longrightarrow> 0 < g \<and> g < 8" "distinct gs"
  shows "ok (iterate create_group gs (buf, st)) (\<lambda>(buf', st'). groups_made st st' (set gs))"
  using assms
proof (induction gs arbitrary: buf st)
  case Nil
  then show ?case by (simp add: groups_made_def only_disk_def)
next
  case (Cons g gs)
  let ?bits = "set_bits (memset buf 0 0 512) 18"
  let ?zero = "memset ?bits 0 0 512"
  let ?st1 = "st\<lparr>fs_disk := (fs_disk st)(of_nat (bbm g) := overlay ?bits (fs_disk st (of_nat (bbm g))),
      of_nat (ibm g) := overlay ?zero (fs_disk st (of_nat (ibm g))))\<rparr>"
  have g: "0 < g" "g < 8" "bbm g < 8192" "ibm g < 8192" using Cons.prems(1) [of g] by auto
  have base: "of_nat (g * BLOCKS_PER_GROUP) + 0 = (of_nat (bbm g) :: u32)"
    "of_nat (g * BLOCKS_PER_GROUP) + 1 = (of_nat (ibm g) :: u32)"
    using g(1) by (simp_all add: bbm_def ibm_def mult.commute)
  have one: "create_group g (buf, st) = Some (?zero, ?st1)"
    using g(2-4) unfolding create_group_def prod.case Let_def base
    by (simp add: write_block_eq unat_of_nat_block)
  have "ok (iterate create_group gs (?zero, ?st1)) (\<lambda>(buf', st'). groups_made ?st1 st' (set gs))"
    using Cons.prems by (intro Cons.IH) auto
  then show ?case
    unfolding iterate.simps one bind.bind_lunit
  proof (rule ok_mono, clarify)
    fix buf' st'
    assume made: "groups_made ?st1 st' (set gs)"
    have rest: "fs_disk st' (of_nat n) = fs_disk ?st1 (of_nat n)"
      if "n < 8192" "\<And>h. h \<in> set gs \<Longrightarrow> n \<noteq> bbm h \<and> n \<noteq> ibm h" for n
      using made that by (auto simp: groups_made_def)
    have "g \<notin> set gs" using Cons.prems(2) by simp
    then have "fs_disk st' (of_nat (bbm g)) = overlay ?bits (fs_disk st (of_nat (bbm g)))"
      "fs_disk st' (of_nat (ibm g)) = overlay ?zero (fs_disk st (of_nat (ibm g)))"
      using rest [of "bbm g"] rest [of "ibm g"] g(2) by auto
    then have "marked_first st' g 18 0"
      by (simp add: marked_first_def bit_used_set_bits)
    moreover have "fs_disk st' (of_nat n) = fs_disk st (of_nat n)"
      if "n < 8192" "\<forall>h\<in>set (g # gs). n \<noteq> bbm h \<and> n \<noteq> ibm h" for n
      using rest [of n] that g(2) by simp
    ultimately show "groups_made st st' (set (g # gs))"
      using made by (simp add: groups_made_def only_disk_def)
  qed
qed

lemma groups_made_low:
  assumes "groups_made st st' {1..<8}" "unat b < 256"
  shows "fs_disk st' b = fs_disk st b"
proof -
  have "unat b \<noteq> bbm g \<and> unat b \<noteq> ibm g" if "g \<in> {1..<8}" for g
    using that assms(2) by (auto simp: bbm_def ibm_def)
  note other = this
  have all: "\<forall>n<8192. (\<forall>g\<in>{1..<8}. n \<noteq> bbm g \<and> n \<noteq> ibm g) \<longrightarrow> fs_disk st' (of_nat n) = fs_disk st (of_nat n)"
    using assms(1) unfolding groups_made_def by blast
  have "unat b < 8192" using assms(2) by simp
  with all [rule_format, of "unat b", OF _ other] show ?thesis by simp
qed

definition created :: "fs \<Rightarrow> bool" where
  "created st \<longleftrightarrow> get16 (fs_disk st 0) 0 = of2 (fs_signature ! 0) (fs_signature ! 1) \<and>
    dec_superblock (fs_disk st 1) = create_superblock \<and>
    dec_bgdt (fs_disk st 2) = map create_bgd [0..<8] \<and>
    marked_first st 0 22 1 \<and> (\<forall>g\<in>{1..<8}. marked_first st g 18 0) \<and>
    (\<forall>k<7. inode_at (fs_disk st 5) k = (if k = 0 then root_inode else zero_inode)) \<and>
    (\<forall>b\<in>{6..<21}. \<forall>k<7. inode_at (fs_disk st b) k = zero_inode) \<and>
    holds st 21 (new_dir_block (\<lambda>_. 0) 1 1)"

lemma table_blocks: "(b :: u32) \<in> of_nat ` {6..<21} \<longleftrightarrow> 6 \<le> b \<and> b < 21"
proof
  assume "b \<in> of_nat ` {6..<21}"
  then obtain n where n: "b = of_nat n" "6 \<le> n" "n < 21" by auto
  then show "6 \<le> b \<and> b < 21" by (simp add: word_le_nat_alt word_less_nat_alt unat_of_nat_block)
next
  assume b: "6 \<le> b \<and> b < 21"
  then have "unat b \<in> {6..<21}" by (simp add: word_le_nat_alt word_less_nat_alt)
  then show "b \<in> of_nat ` {6..<21}" by (intro image_eqI [of _ _ "unat b"]) simp_all
qed

lemma iterate_tables:
  "iterate (\<lambda>blk st. write_block st m (of_nat blk)) [6..<21] st =
     Some (st\<lparr>fs_disk := (\<lambda>b. if 6 \<le> b \<and> b < 21 then overlay m (fs_disk st b) else fs_disk st b)\<rparr>)"
  by (subst iterate_write_blocks) (auto simp only: set_upt table_blocks atLeastLessThan_iff)

lemma table_block_neq:
  "6 \<le> b \<Longrightarrow> b \<noteq> 0" "6 \<le> b \<Longrightarrow> b \<noteq> 1" "6 \<le> b \<Longrightarrow> b \<noteq> 2" "6 \<le> b \<Longrightarrow> b \<noteq> 3" "6 \<le> b \<Longrightarrow> b \<noteq> 4" "6 \<le> b \<Longrightarrow> b \<noteq> 5"
  "b < 21 \<Longrightarrow> b \<noteq> 21" for b :: u32
  by (auto simp: word_le_nat_alt)

lemma create_ext2_spec:
  assumes "length (bgdtCache st) = 8" "bg_block_bitmap (bgdtCache st ! 0) = 0"
  shows "ok (create_ext2 st) (\<lambda>st'. only_disk st st' \<and> created st')"
proof -
  have groups: "ok (iterate create_group [1..<8] (buf, st1)) (\<lambda>(buf', st'). only_disk st st' \<and> created st')"
    if "only_disk st st1" "get16 (fs_disk st1 0) 0 = of2 (fs_signature ! 0) (fs_signature ! 1)"
      "dec_superblock (fs_disk st1 1) = create_superblock"
      "dec_bgdt (fs_disk st1 2) = map create_bgd [0..<8]" "marked_first st1 0 22 1"
      "\<And>k. k < 7 \<Longrightarrow> inode_at (fs_disk st1 5) k = (if k = 0 then root_inode else zero_inode)"
      "\<And>b k. b \<in> {6..<21} \<Longrightarrow> k < 7 \<Longrightarrow> inode_at (fs_disk st1 b) k = zero_inode"
      "holds st1 21 (new_dir_block (\<lambda>_. 0) 1 1)" for buf st1
  proof (rule ok_mono [OF iterate_create_group], goal_cases)
    case (3 x)
    then obtain buf' st' where x: "x = (buf', st')" "groups_made st1 st' {1..<8}" by auto
    have low: "fs_disk st' b = fs_disk st1 b" if "unat b < 256" for b
      using groups_made_low [OF x(2) that] .
    have "unat b < 256" if "b \<in> {6..<21}" for b :: u32
      using that by (auto simp: word_less_nat_alt)
    moreover have "only_disk st st'"
      using x(2) that(1) by (simp add: groups_made_def only_disk_def)
    ultimately show ?case
      using x that(2-) low by (simp add: created_def groups_made_def marked_first_def bbm_def ibm_def holds_def)
  qed auto
  have "bgdtCache st \<noteq> []" using assms(1) by auto
  with assms show ?thesis
    by (simp add: create_ext2_def init_directory_table_def Let_def ok_do inode_to_bgd_def
        fallback_block_def zero_inode_at root_inode_eq iterate_tables del: upt_rec_numeral)
      (rule groups [unfolded One_nat_def]; simp add: only_disk_def marked_first_def bbm_def ibm_def
        bit_used_set_bits holds_def new_dir_block_in get16_blit_inside table_blocks table_block_neq zero_inode_at word_le_nat_alt [of 6 1] root_inode_eq fallback_block_def Let_def)
qed

lemma create_bgd_fields:
  "bg_block_bitmap (create_bgd g) = of_nat (bbm g)" "bg_inode_bitmap (create_bgd g) = of_nat (ibm g)"
  "bg_inode_table (create_bgd g) = of_nat (itb g)"
  "unat (bg_free_blocks_count (create_bgd g)) = 256 - (if g = 0 then 22 else 18)"
  "unat (bg_free_inodes_count (create_bgd g)) = 112 - (if g = 0 then 1 else 0)"
proof -
  show "bg_block_bitmap (create_bgd g) = of_nat (bbm g)" "bg_inode_bitmap (create_bgd g) = of_nat (ibm g)"
    "bg_inode_table (create_bgd g) = of_nat (itb g)"
    by (simp_all add: create_bgd_def Let_def bbm_def ibm_def itb_def mult.commute add.commute)
  have "unat (234 :: u16) = 234" "unat (238 :: u16) = 238" "unat (111 :: u16) = 111" "unat (112 :: u16) = 112"
    by simp_all
  then show "unat (bg_free_blocks_count (create_bgd g)) = 256 - (if g = 0 then 22 else 18)"
    "unat (bg_free_inodes_count (create_bgd g)) = 112 - (if g = 0 then 1 else 0)"
    by (cases "g = 0"; simp only: create_bgd_def Let_def ext2_consts bgd.simps if_True if_False; simp)+
qed

lemma cell_interval: "0 < K \<Longrightarrow> a \<le> K \<Longrightarrow> n div K = g \<and> a \<le> n mod K \<longleftrightarrow> K * g + a \<le> n \<and> n < K * g + (K :: nat)"
proof (intro iffI conjI; (elim conjE)?)
  assume "0 < K" "n div K = g" "a \<le> n mod K"
  then show "K * g + a \<le> n" "n < K * g + K"
    using mult_div_mod_eq [of K n] mod_less_divisor [of K n] by (simp_all, linarith+)
next
  assume "K * g + a \<le> n" "n < K * g + K"
  then obtain r where "n = K * g + r" "a \<le> r" "r < K"
    by (metis add_leD1 add_le_cancel_left le_Suc_ex nat_add_left_cancel_less)
  then show "n div K = g" "a \<le> n mod K" by (simp_all add: mult_add_div mult_add_mod)
qed

lemma free_blocks_marked:
  assumes "marked_first st g a b" "a \<le> 256"
  shows "free_blocks_in st g = {256 * g + a..<256 * g + 256}"
proof -
  have "block_used st n \<longleftrightarrow> n mod 256 < a" if "n div 256 = g" for n
    using assms(1) that by (auto simp: block_used_def marked_first_def)
  moreover have "n div 256 = g \<and> \<not> n mod 256 < a \<longleftrightarrow> n \<in> {256 * g + a..<256 * g + 256}" for n
    using cell_interval [of 256 a n g] assms(2) by (simp add: not_less)
  ultimately show ?thesis
    unfolding free_blocks_in_def by blast
qed

lemma free_inodes_marked:
  assumes "marked_first st g a b" "b \<le> 112"
  shows "free_inodes_in st g = {112 * g + b + 1..112 * g + 112}"
proof -
  have "inode_used st n \<longleftrightarrow> (n - 1) mod 112 < b" if "(n - 1) div 112 = g" for n
    using assms(1) that by (auto simp: inode_used_def marked_first_def)
  moreover have "(n - 1) div 112 = g \<and> 0 < n \<and> \<not> (n - 1) mod 112 < b \<longleftrightarrow> n \<in> {112 * g + b + 1..112 * g + 112}" for n
    using cell_interval [of 112 b "n - 1" g] assms(2) by (cases n) (simp_all add: not_less, linarith)
  ultimately show ?thesis
    unfolding free_inodes_in_def by blast
qed

lemma created_ok:
  assumes "created st" "bgdtCache st = map create_bgd [0..<8]"
  shows "fs_ok st"
proof -
  let ?a = "\<lambda>g :: nat. if g = 0 then 22 else 18" and ?b = "\<lambda>g :: nat. if g = 0 then 1 else 0"
  have marks: "marked_first st g (?a g) (?b g)" if "g < 8" for g
    using assms(1) that by (cases "g = 0") (simp_all add: created_def)
  have "layout_ok (bgdtCache st)"
    by (simp add: layout_ok_def assms(2) create_bgd_fields)
  moreover have "counts_ok st"
    unfolding counts_ok_def
  proof (intro allI impI)
    fix g :: nat
    assume g: "g < 8"
    note free = free_blocks_marked [OF marks [OF g]] free_inodes_marked [OF marks [OF g]]
    show "unat (bg_free_blocks_count (bgdtCache st ! g)) = card (free_blocks_in st g) \<and>
        unat (bg_free_inodes_count (bgdtCache st ! g)) = card (free_inodes_in st g)"
      using g free by (simp add: assms(2) create_bgd_fields)
  qed
  moreover have "block_used st n" if "n < 2048" "reserved n" for n
  proof -
    have "n mod 256 < ?a (n div 256)"
      using that(2) by (auto simp: reserved_def)
    then show ?thesis
      using marks [OF div_less_8 [OF that(1)]] by (simp add: block_used_def marked_first_def)
  qed
  ultimately show ?thesis by (simp add: fs_ok_def)
qed

text \<open>The freshly created file system: one inode, the root directory, in use; 22 blocks, 18 per further group.\<close>

lemma created_used:
  assumes "created st" 
  shows "n < 2048 \<Longrightarrow> block_used st n \<longleftrightarrow> n < 22 \<or> 256 \<le> n \<and> n mod 256 < 18"
    and "0 < n \<Longrightarrow> n \<le> 896 \<Longrightarrow> inode_used st n \<longleftrightarrow> n = 1"
    and "node_of st 1 = root_inode" and "0 < n \<Longrightarrow> n \<le> 112 \<Longrightarrow> n \<noteq> 1 \<Longrightarrow> node_of st n = zero_inode"
proof -
  let ?a = "\<lambda>g :: nat. if g = 0 then 22 else 18" and ?b = "\<lambda>g :: nat. if g = 0 then 1 else 0"
  have marks: "marked_first st g (?a g) (?b g)" if "g < 8" for g
    using assms(1) that by (cases "g = 0") (simp_all add: created_def)
  show "block_used st n \<longleftrightarrow> n < 22 \<or> 256 \<le> n \<and> n mod 256 < 18" if "n < 2048"
    using marks [OF div_less_8 [OF that]] by (auto simp: block_used_def marked_first_def)
  show "inode_used st n \<longleftrightarrow> n = 1" if "0 < n" "n \<le> 896"
    using marks [OF inode_group_less [OF that(2)]] that by (auto simp: inode_used_def marked_first_def)
  show "node_of st 1 = root_inode"
    using assms by (simp add: created_def node_of_def node_block_def node_slot_def itb_def)
  assume n: "0 < n" "n \<le> 112" "n \<noteq> 1"
  have five: "inode_at (fs_disk st 5) k = (if k = 0 then root_inode else zero_inode)" if "k < 7" for k
    using assms that by (simp add: created_def)
  show "node_of st n = zero_inode"
  proof (cases "n \<le> 7")
    case True
    with n have "node_block n = 5" "node_slot n \<noteq> 0" by (auto simp: node_block_def node_slot_def itb_def)
    with five [of "node_slot n"] show ?thesis by (simp add: node_of_def)
  next
    case False
    with n have "node_block n \<in> {6..<21}" by (auto simp: node_block_def itb_def)
    then have "of_nat (node_block n) \<in> {6..<(21 :: u32)}"
      by (auto simp: word_le_nat_alt word_less_nat_alt unat_of_nat_block)
    with assms show ?thesis by (simp add: created_def node_of_def)
  qed
qed

lemma initialize_fresh:
  assumes "length (bgdtCache st) = 8" "bg_block_bitmap (bgdtCache st ! 0) = 0"
    and blank: "get16 (fs_disk st 0) 0 \<noteq> of2 (fs_signature ! 0) (fs_signature ! 1)"
  shows "ok (initialize_filesystem_ext2 st) (\<lambda>st'. fs_ok st' \<and> created st' \<and>
     superBlock st' = create_superblock \<and> bgdtCache st' = map create_bgd [0..<8] \<and> uninit st' = uninit st)"
proof -
  have "is_empty_storage st = Some True"
    using blank by (simp add: is_empty_storage_def read_block_eq)
  moreover have "ok (create_ext2 st) (\<lambda>st'. ok (load_metadata st') (\<lambda>st'. fs_ok st' \<and> created st' \<and>
     superBlock st' = create_superblock \<and> bgdtCache st' = map create_bgd [0..<8] \<and> uninit st' = uninit st))"
  proof (rule ok_mono [OF create_ext2_spec [OF assms(1,2)]], clarify)
    fix st1
    assume st1: "only_disk st st1" "created st1"
    let ?st = "st1\<lparr>superBlock := dec_superblock (fs_disk st1 1), bgdtCache := dec_bgdt (fs_disk st1 2)\<rparr>"
    have "created ?st" using st1(2) by (simp add: created_def marked_first_def holds_def)
    moreover have "bgdtCache ?st = map create_bgd [0..<8]" "superBlock ?st = create_superblock"
      using st1(2) by (simp_all add: created_def)
    moreover have "uninit ?st = uninit st" using st1(1) by (simp add: only_disk_def)
    moreover have "fs_ok ?st" by (rule created_ok) (fact calculation)+
    ultimately show "ok (load_metadata st1) (\<lambda>st'. fs_ok st' \<and> created st' \<and>
     superBlock st' = create_superblock \<and> bgdtCache st' = map create_bgd [0..<8] \<and> uninit st' = uninit st)"
      unfolding load_metadata_eq ok_Some by blast
  qed
  ultimately show ?thesis
    by (simp add: initialize_filesystem_ext2_def ok_bind)
qed

end
