(* ===== verification/Ext2_Ops.thy ===== *)
theory Ext2_Ops
  imports Ext2_Dir
begin

section \<open>The operations of the file system\<close>

text \<open>
  \<open>read_directory\<close>, \<open>read\<close>, \<open>write\<close>, \<open>delete\<close> and \<open>get_inode_for_path\<close> of
  \<open>filesystem/ext2.c\<close>. A request carries the caller's buffer and name as memory areas. The
  operations return the \<open>int8_t\<close> code as an integer; the reading ones also the buffer
  of the caller afterwards, the others the state.
\<close>

record request =
  buf :: mem
  req_name :: mem
  name_len :: u8
  parent_inode :: u32
  buffer_size :: u32
  is_directory :: bool

subsection \<open>Reading\<close>

text \<open>\<open>read_directory\<close> takes a pointer: \<open>None\<close> is \<open>NULL\<close>. The buffer on the stack has 8192 bytes.\<close>

definition read_directory :: "fs \<Rightarrow> request option \<Rightarrow> (int \<times> mem) option" where
  "read_directory st prequest =
     (case prequest of
        None \<Rightarrow> Some (-1, uninit st)
      | Some req \<Rightarrow>
          if parent_inode req = 0 then Some (-1, buf req)
          else do {
            (_, parent_node) \<leftarrow> load_inode st (parent_inode req);
            if \<not> is_dir_mode parent_node then Some (-1, buf req)
            else do {
              found \<leftarrow> find_entry st parent_node (req_name req) (name_len req) 0 (unat (i_blocks parent_node));
              case found of
                None \<Rightarrow> Some (2, buf req)
              | Some entry \<Rightarrow>
                  if file_type entry \<noteq> EXT2_FT_DIR then Some (1, buf req)
                  else do {
                    (_, target_node) \<leftarrow> load_inode st (de_inode entry);
                    if i_blocks target_node = 0 then Some (-1, buf req)
                    else do {
                      dir_block \<leftarrow> arr_get (i_block target_node) 0;
                      if dir_block = 0 then Some (-1, buf req)
                      else do {
                        dataBuf \<leftarrow> read_block st (uninit st) dir_block;
                        if buffer_size req < i_size target_node then Some (-1, buf req)
                        else do {
                          guard (unat (i_size target_node) \<le> 8192);
                          Some (0, memcpy_into (buf req) 0 dataBuf 0 (unat (i_size target_node)))
                        }
                      }
                    }
                  }
            }
          })"

text \<open>
  The loops of \<open>read\<close> over a list of block pointers: they stop when nothing is left to read and
  at a zero pointer. The triple is the buffer, \<open>copied\<close> and \<open>to_read\<close>.
\<close>

fun read_list :: "fs \<Rightarrow> u32 list \<Rightarrow> mem \<times> nat \<times> nat \<Rightarrow> (mem \<times> nat \<times> nat) option" where
  "read_list st [] (out, copied, to_read) = Some (out, copied, to_read)"
| "read_list st (block_id # ids) (out, copied, to_read) =
     (if to_read > 0 \<and> block_id \<noteq> 0 then do {
        dataBuf \<leftarrow> read_block st (uninit st) block_id;
        let copy_len = (if to_read > BLOCK_SIZE then BLOCK_SIZE else to_read);
        let out = memcpy_into out copied dataBuf 0 copy_len;
        read_list st ids (out, copied + copy_len, to_read - copy_len)
      }
      else Some (out, copied, to_read))"

definition read_indirect :: "fs \<Rightarrow> u32 \<Rightarrow> mem \<times> nat \<times> nat \<Rightarrow> (mem \<times> nat \<times> nat) option" where
  "read_indirect st block s = do {
     indBuf \<leftarrow> read_block st (uninit st) block;
     read_list st (pointers indBuf PTRS_PER_BLOCK) s
   }"

fun read_double :: "fs \<Rightarrow> u32 list \<Rightarrow> mem \<times> nat \<times> nat \<Rightarrow> (mem \<times> nat \<times> nat) option" where
  "read_double st [] s = Some s"
| "read_double st (ind_block # ids) s =
     (if snd (snd s) > 0 \<and> ind_block \<noteq> 0 then do {
        s \<leftarrow> read_indirect st ind_block s;
        read_double st ids s
      }
      else Some s)"

definition read_data :: "fs \<Rightarrow> inode \<Rightarrow> mem \<Rightarrow> mem option" where
  "read_data st file_node out = do {
     s \<leftarrow> read_list st (take 12 (i_block file_node)) (out, 0, unat (i_size file_node));
     ind \<leftarrow> arr_get (i_block file_node) 12;
     s \<leftarrow> (if snd (snd s) > 0 \<and> ind \<noteq> 0 then read_indirect st ind s else Some s);
     dbl \<leftarrow> arr_get (i_block file_node) 13;
     s \<leftarrow> (if snd (snd s) > 0 \<and> dbl \<noteq> 0 then do {
            dblBuf \<leftarrow> read_block st (uninit st) dbl;
            read_double st (pointers dblBuf PTRS_PER_BLOCK) s
          }
          else Some s);
     Some (fst s)
   }"

definition ext2_read :: "fs \<Rightarrow> request \<Rightarrow> (int \<times> mem) option" where
  "ext2_read st req =
     (if parent_inode req = 0 then Some (-1, buf req)
      else do {
        (_, parent_node) \<leftarrow> load_inode st (parent_inode req);
        if \<not> is_dir_mode parent_node then Some (-1, buf req)
        else do {
          found \<leftarrow> find_entry st parent_node (req_name req) (name_len req) 0 (unat (i_blocks parent_node));
          case found of
            None \<Rightarrow> Some (2, buf req)
          | Some entry \<Rightarrow>
              if file_type entry \<noteq> EXT2_FT_REG_FILE then Some (1, buf req)
              else do {
                (_, file_node) \<leftarrow> load_inode st (de_inode entry);
                if buffer_size req < i_size file_node then Some (-1, buf req)
                else do {
                  out \<leftarrow> read_data st file_node (buf req);
                  Some (0, out)
                }
              }
        }
      })"

subsection \<open>Writing\<close>

text \<open>What the scan for space finds: the name itself, room behind the entry at an offset, or nothing.\<close>

datatype slot = Duplicate | Hole nat | NoSlot

function scan_slot :: "mem \<Rightarrow> mem \<Rightarrow> u8 \<Rightarrow> u16 \<Rightarrow> nat \<Rightarrow> slot" where
  "scan_slot dbuf name len need_rec off =
     (if off < BLOCK_SIZE
      then let e = get_directory_entry dbuf off;
               actual = get_entry_record_len (ucast (de_name_len e))
        in if entry_is dbuf off name len then Duplicate
           else if de_inode e \<noteq> 0 \<and> rec_len e > actual \<and> rec_len e - actual \<ge> need_rec then Hole off
           else if rec_len e = 0 then NoSlot
           else scan_slot dbuf name len need_rec (off + unat (rec_len e))
      else NoSlot)"
  by pat_completeness auto
termination
  by (relation "measure (\<lambda>(_, _, _, _, off). BLOCK_SIZE - off)")
    (auto simp: unat_gt_0 intro!: diff_less_mono2)

declare scan_slot.simps [simp del]

fun find_slot :: "fs \<Rightarrow> inode \<Rightarrow> mem \<Rightarrow> u8 \<Rightarrow> u16 \<Rightarrow> nat \<Rightarrow> nat \<Rightarrow> (u32 \<times> mem \<times> slot) option" where
  "find_slot st parent name len need_rec bi 0 = Some (0, uninit st, NoSlot)"
| "find_slot st parent name len need_rec bi (Suc n) = do {
     blk \<leftarrow> arr_get (i_block parent) bi;
     if blk = 0 then find_slot st parent name len need_rec (Suc bi) n
     else do {
       dbuf \<leftarrow> read_block st (uninit st) blk;
       case scan_slot dbuf name len need_rec 0 of
         NoSlot \<Rightarrow> find_slot st parent name len need_rec (Suc bi) n
       | s \<Rightarrow> Some (blk, dbuf, s)
     }
   }"

text \<open>The new inode, the same for both ways of finding a place for the entry.\<close>

definition make_node :: "fs \<Rightarrow> request \<Rightarrow> bool \<Rightarrow> u32 \<Rightarrow> fs option" where
  "make_node st req is_dir new_ino = do {
     let new_bgd = inode_to_bgd new_ino;
     (_, ni) \<leftarrow> load_inode st new_ino;
     (ni, st) \<leftarrow>
       (if is_dir then do {
          (ni, st) \<leftarrow> init_directory_table st ni new_ino (parent_inode req);
          st \<leftarrow> upd_bgd st (unat new_bgd) (\<lambda>d. d\<lparr>bg_used_dirs_count := bg_used_dirs_count d + 1\<rparr>);
          Some (ni, st)
        }
        else
          allocate_node_blocks st (buf req)
            (ni\<lparr>i_mode := EXT2_S_IFREG, i_size := buffer_size req,
                i_blocks := (buffer_size req + of_nat BLOCK_SIZE - 1) div of_nat BLOCK_SIZE\<rparr>) new_bgd);
     sync_node st ni new_ino
   }"

definition set_rec_len :: "mem \<Rightarrow> nat \<Rightarrow> u16 \<Rightarrow> mem" where
  "set_rec_len m off v = blit m (off + 4) (b16 v)"

text \<open>The entry at \<open>off\<close> is cut to its own length; the new one takes the rest of it.\<close>

definition insert_entry :: "mem \<Rightarrow> nat \<Rightarrow> u32 \<Rightarrow> u8 \<Rightarrow> mem \<Rightarrow> u8 \<Rightarrow> mem" where
  "insert_entry dbuf off new_ino ft name len =
     (let e = get_directory_entry dbuf off;
          actual = get_entry_record_len (ucast (de_name_len e));
          new_off = off + unat actual;
          dbuf = put_directory_entry dbuf new_off
                   \<lparr>de_inode = new_ino, rec_len = rec_len e - actual, de_name_len = ucast len, file_type = ft\<rparr>;
          dbuf = memcpy_into dbuf (get_entry_name new_off) name 0 (unat len)
      in set_rec_len dbuf off actual)"

definition ext2_write :: "fs \<Rightarrow> request option \<Rightarrow> (int \<times> fs) option" where
  "ext2_write st request =
     (case request of
        None \<Rightarrow> Some (-1, st)
      | Some req \<Rightarrow>
          if parent_inode req = 0 then Some (2, st)
          else do {
            block_idx \<leftarrow> inode_block st (parent_inode req);
            (pbuf, parent) \<leftarrow> load_inode st (parent_inode req);
            if \<not> is_dir_mode parent then Some (2, st)
            else do {
              let need_rec = get_entry_record_len (name_len req);
              let is_dir = (buffer_size req = 0 \<and> is_directory req);
              let ft = (if is_dir then EXT2_FT_DIR else EXT2_FT_REG_FILE);
              (blk, dbuf, s) \<leftarrow> find_slot st parent (req_name req) (name_len req) need_rec 0 (unat (i_blocks parent));
              case s of
                Duplicate \<Rightarrow> Some (1, st)
              | Hole off \<Rightarrow> do {
                  (new_ino, st) \<leftarrow> allocate_node st;
                  if new_ino = 0 then Some (-1, st)
                  else do {
                    st \<leftarrow> make_node st req is_dir new_ino;
                    st \<leftarrow> write_block st (insert_entry dbuf off new_ino ft (req_name req) (name_len req)) blk;
                    st \<leftarrow> sync_metadata st;
                    Some (0, st)
                  }
                }
              | NoSlot \<Rightarrow> do {
                  (newblock, st) \<leftarrow> alloc_newblock st (inode_to_bgd (parent_inode req));
                  if newblock = 0 then Some (-1, st)
                  else do {
                    ptrs \<leftarrow> arr_put (i_block parent) (unat (i_blocks parent)) newblock;
                    let parent = parent\<lparr>i_block := ptrs, i_blocks := i_blocks parent + 1,
                                       i_size := i_size parent + of_nat BLOCK_SIZE\<rparr>;
                    let pbuf = put_inode pbuf (inode_slot (parent_inode req)) parent;
                    (new_ino, st) \<leftarrow> allocate_node st;
                    if new_ino = 0 then Some (-1, st)
                    else do {
                      st \<leftarrow> make_node st req is_dir new_ino;
                      let dbuf = put_directory_entry (memset (uninit st) 0 0 BLOCK_SIZE) 0
                        \<lparr>de_inode = new_ino, rec_len = of_nat BLOCK_SIZE, de_name_len = ucast (name_len req), file_type = ft\<rparr>;
                      let dbuf = memcpy_into dbuf (get_entry_name 0) (req_name req) 0 (unat (name_len req));
                      st \<leftarrow> write_block st dbuf newblock;
                      st \<leftarrow> write_block st pbuf block_idx;
                      st \<leftarrow> sync_metadata st;
                      Some (0, st)
                    }
                  }
                }
            }
          })"

subsection \<open>Deleting\<close>

text \<open>The scan of \<open>delete\<close> tests the record length first and keeps the entry before the one found.\<close>

function scan_del :: "mem \<Rightarrow> mem \<Rightarrow> u8 \<Rightarrow> nat option \<Rightarrow> nat \<Rightarrow> (nat option \<times> nat) option" where
  "scan_del dirBuf name len prev offset =
     (if offset < BLOCK_SIZE
      then if rec_len (get_directory_entry dirBuf offset) = 0 then None
        else if entry_is dirBuf offset name len then Some (prev, offset)
        else scan_del dirBuf name len (Some offset) (offset + unat (rec_len (get_directory_entry dirBuf offset)))
      else None)"
  by pat_completeness auto
termination
  by (relation "measure (\<lambda>(_, _, _, _, offset). BLOCK_SIZE - offset)")
    (auto simp: unat_gt_0 intro!: diff_less_mono2)

declare scan_del.simps [simp del]

fun find_del :: "fs \<Rightarrow> inode \<Rightarrow> mem \<Rightarrow> u8 \<Rightarrow> nat \<Rightarrow> nat \<Rightarrow> (u32 \<times> nat option \<times> nat) option option" where
  "find_del st node name len bi 0 = Some None"
| "find_del st node name len bi (Suc n) = do {
     block_id \<leftarrow> arr_get (i_block node) bi;
     if block_id = 0 then find_del st node name len (Suc bi) n
     else do {
       dirBuf \<leftarrow> read_block st (uninit st) block_id;
       case scan_del dirBuf name len None 0 of
         Some (prev, offset) \<Rightarrow> Some (Some (block_id, prev, offset))
       | None \<Rightarrow> find_del st node name len (Suc bi) n
     }
   }"

text \<open>
  The name is cleared byte by byte, as long as an 8-bit counter is below the name's length. For a name of
  256 bytes and more the counter wraps around and the loop never ends: \<open>clear_ends\<close> says that it does
  not, and where it does not hold \<open>ext2_delete\<close> has no result.
\<close>

definition clear_ends :: "mem \<Rightarrow> nat option \<Rightarrow> nat \<Rightarrow> bool" where
  "clear_ends m prev off \<longleftrightarrow> prev = None \<or> unat (de_name_len (get_directory_entry m off)) < 256"

definition clear_entry :: "mem \<Rightarrow> nat \<Rightarrow> mem" where
  "clear_entry m off =
     (let len = unat (de_name_len (get_directory_entry m off));
          m = put_directory_entry m off ((get_directory_entry m off)\<lparr>de_inode := 0, rec_len := 0\<rparr>);
          m = memset m (get_entry_name off) 0 len
      in put_directory_entry m off \<lparr>de_inode = 0, rec_len = 0, de_name_len = 0, file_type = 0\<rparr>)"

definition remove_entry :: "mem \<Rightarrow> nat option \<Rightarrow> nat \<Rightarrow> mem" where
  "remove_entry m prev off =
     (case prev of
        Some p \<Rightarrow>
          let m = set_rec_len m p (rec_len (get_directory_entry m p) + rec_len (get_directory_entry m off))
          in clear_entry m off
      | None \<Rightarrow> put_directory_entry m off ((get_directory_entry m off)\<lparr>de_inode := 0\<rparr>))"

definition ext2_delete :: "fs \<Rightarrow> request \<Rightarrow> (int \<times> fs) option" where
  "ext2_delete st req =
     (if parent_inode req = 0 then Some (-1, st)
      else do {
        (_, parent_node) \<leftarrow> load_inode st (parent_inode req);
        if \<not> is_dir_mode parent_node then Some (-1, st)
        else do {
          found \<leftarrow> find_del st parent_node (req_name req) (name_len req) 0 (unat (i_blocks parent_node));
          case found of
            None \<Rightarrow> Some (1, st)
          | Some (entry_block, prev, entry_offset) \<Rightarrow> do {
              targetBuf \<leftarrow> read_block st (uninit st) entry_block;
              let entry = get_directory_entry targetBuf entry_offset;
              if de_inode entry = 0 then Some (1, st)
              else do {
                let target_inode = de_inode entry;
                refuse \<leftarrow>
                  (if is_directory req then
                     (if file_type entry \<noteq> EXT2_FT_DIR then Some (Some 1)
                      else do {
                        e \<leftarrow> is_directory_empty st target_inode;
                        Some (if e then None else Some 2)
                      })
                   else Some (if file_type entry \<noteq> EXT2_FT_REG_FILE then Some 1 else None));
                case refuse of
                  Some code \<Rightarrow> Some (code, st)
                | None \<Rightarrow> do {
                    _ \<leftarrow> load_inode st target_inode;
                    st \<leftarrow> deallocate_node st target_inode;
                    guard (clear_ends targetBuf prev entry_offset);
                    st \<leftarrow> write_block st (remove_entry targetBuf prev entry_offset) entry_block;
                    st \<leftarrow> sync_metadata st;
                    Some (0, st)
                  }
              }
            }
        }
      })"

subsection \<open>Paths\<close>

text \<open>
  \<open>get_inode_for_path\<close>: each component is first looked up with \<open>read_directory\<close>, with a buffer
  of size 0, then its inode number is searched again. \<open>path\<close> is the list of its bytes before the
  NUL; the buffer \<open>temp\<close> has 64 bytes, and the NUL behind a component of 64 bytes is a fault.
\<close>

fun find_inode :: "fs \<Rightarrow> inode \<Rightarrow> mem \<Rightarrow> u8 \<Rightarrow> nat \<Rightarrow> nat \<Rightarrow> u32 option option" where
  "find_inode st node name len bi 0 = Some None"
| "find_inode st node name len bi (Suc n) = do {
     block \<leftarrow> arr_get (i_block node) bi;
     if block = 0 then find_inode st node name len (Suc bi) n
     else do {
       dirBuf \<leftarrow> read_block st (uninit st) block;
       case scan_find dirBuf name len 0 of
         Some offset \<Rightarrow> Some (Some (de_inode (get_directory_entry dirBuf offset)))
       | None \<Rightarrow> find_inode st node name len (Suc bi) n
     }
   }"

function walk_path :: "fs \<Rightarrow> u32 \<Rightarrow> u8 list \<Rightarrow> u32 option" where
  "walk_path st current_inode [] = Some current_inode"
| "walk_path st current_inode (c # cs) =
     (let comp = takeWhile (\<lambda>b. b \<noteq> of_char CHR ''/'') (c # cs);
          len = length comp;
          rest = drop len (c # cs)
      in if len = 0 \<or> len > 64 then Some 0
         else do {
           guard (len < 64);
           let temp = blit (uninit st) 0 (comp @ [0]);
           (r, _) \<leftarrow> read_directory st (Some \<lparr>buf = uninit st, req_name = temp, name_len = of_nat len,
             parent_inode = current_inode, buffer_size = 0, is_directory = True\<rparr>);
           if r \<noteq> 0 then Some 0
           else do {
             (_, node) \<leftarrow> load_inode st current_inode;
             found \<leftarrow> find_inode st node temp (of_nat len) 0 (unat (i_blocks node));
             case found of
               None \<Rightarrow> Some 0
             | Some ino \<Rightarrow> walk_path st ino (tl rest)
           }
         })"
  by pat_completeness auto
termination
  by (relation "measure (\<lambda>(_, _, p). length p)") (auto simp: dropWhile_eq_drop)

definition get_inode_for_path :: "fs \<Rightarrow> u8 list \<Rightarrow> u32 option" where
  "get_inode_for_path st path =
     (case path of
        [] \<Rightarrow> Some 0
      | c # rest \<Rightarrow>
          if c \<noteq> of_char CHR ''/'' then Some 0
          else if rest = [] then Some 1
          else walk_path st 1 rest)"

end
