(* ===== verification/Ext2_Lookup.thy ===== *)
theory Ext2_Lookup
  imports Ext2_Ops
begin

section \<open>A directory block as a map from names\<close>

text \<open>
  The specification of the directory routines: the entries in use of a block, in the order of the
  chain, and the map from names they are. The scans of the code are lookups in that list,
  \<open>insert_entry\<close> adds a binding and \<open>remove_entry\<close> takes one away.
\<close>

definition bytes_of :: "mem \<Rightarrow> nat \<Rightarrow> u8 list" where
  "bytes_of m n = map m [0..<n]"

definition entry_name :: "mem \<Rightarrow> nat \<Rightarrow> u8 list" where
  "entry_name d off = map (\<lambda>i. d (off + sizeof_dirent + i)) [0..<unat (de_name_len (get_directory_entry d off))]"

text \<open>The space an entry needs by itself.\<close>

definition own_len :: "mem \<Rightarrow> nat \<Rightarrow> nat" where
  "own_len d off = unat (get_entry_record_len (ucast (de_name_len (get_directory_entry d off))))"

definition next_off :: "mem \<Rightarrow> nat \<Rightarrow> nat" where
  "next_off d off = off + unat (rec_len (get_directory_entry d off))"

text \<open>A well-formed chain: every entry has room for its name, the last one ends with the block.\<close>

function chain_ok :: "mem \<Rightarrow> nat \<Rightarrow> bool" where
  "chain_ok d off =
     (if off < 512
      then de_name_len (get_directory_entry d off) < 256 \<and> own_len d off \<le> unat (rec_len (get_directory_entry d off)) \<and>
        (if rec_len (get_directory_entry d off) = 0 then False else chain_ok d (next_off d off))
      else off = 512)"
  by pat_completeness auto
termination
  by (relation "measure (\<lambda>(_, off). 512 - off)") (auto simp: unat_gt_0 next_off_def intro!: diff_less_mono2)

declare chain_ok.simps [simp del]

function dir_entries :: "mem \<Rightarrow> nat \<Rightarrow> (u8 list \<times> u32 \<times> u8) list" where
  "dir_entries d off =
     (if off < 512
      then (let e = get_directory_entry d off in
            (if de_inode e \<noteq> 0 then [(entry_name d off, de_inode e, file_type e)] else []) @
            (if rec_len e = 0 then [] else dir_entries d (next_off d off)))
      else [])"
  by pat_completeness auto
termination
  by (relation "measure (\<lambda>(_, off). 512 - off)") (auto simp: unat_gt_0 next_off_def intro!: diff_less_mono2)

declare dir_entries.simps [simp del]

definition dir_map :: "mem \<Rightarrow> u8 list \<Rightarrow> (u32 \<times> u8) option" where
  "dir_map d = map_of (dir_entries d 0)"

definition entry_val :: "mem \<Rightarrow> nat \<Rightarrow> u32 \<times> u8" where
  "entry_val d off = (de_inode (get_directory_entry d off), file_type (get_directory_entry d off))"

lemma entry_is_iff:
  "entry_is d off name len \<longleftrightarrow>
     de_inode (get_directory_entry d off) \<noteq> 0 \<and> entry_name d off = bytes_of name (unat len)"
proof -
  let ?n = "de_name_len (get_directory_entry d off)"
  have "?n = ucast len \<longleftrightarrow> unat ?n = unat len"
    by (simp add: word_unat_eq_iff)
  moreover have "(\<forall>i<unat ?n. d (off + 9 + i) = name i) \<longleftrightarrow> entry_name d off = bytes_of name (unat len)"
    if "unat ?n = unat len"
    using that by (auto simp: entry_name_def bytes_of_def list_eq_iff_nth_eq)
  moreover have "unat ?n = unat len" if "entry_name d off = bytes_of name (unat len)"
    using arg_cong [OF that, of length] by (simp add: entry_name_def bytes_of_def)
  ultimately show ?thesis
    by (auto simp: entry_is_def Let_def memcmp_eq_0_iff get_entry_name_def)
qed

lemma dir_entries_step:
  "off < 512 \<Longrightarrow> dir_entries d off =
     (if de_inode (get_directory_entry d off) \<noteq> 0 then [(entry_name d off, entry_val d off)] else []) @
     (if rec_len (get_directory_entry d off) = 0 then [] else dir_entries d (next_off d off))"
  by (subst dir_entries.simps) (simp add: Let_def entry_val_def)

lemma dir_entries_end: "512 \<le> off \<Longrightarrow> dir_entries d off = []"
  by (subst dir_entries.simps) simp

lemma chain_okI:
  "off < 512 \<Longrightarrow> de_name_len (get_directory_entry d off) < 256 \<Longrightarrow>
    own_len d off \<le> unat (rec_len (get_directory_entry d off)) \<Longrightarrow> 0 < unat (rec_len (get_directory_entry d off)) \<Longrightarrow>
    chain_ok d (next_off d off) \<Longrightarrow> chain_ok d off"
  by (subst chain_ok.simps) auto

lemma chain_okD:
  assumes "chain_ok d off" "off < 512"
  shows "own_len d off \<le> unat (rec_len (get_directory_entry d off))" "chain_ok d (next_off d off)"
    "rec_len (get_directory_entry d off) \<noteq> 0" "de_name_len (get_directory_entry d off) < 256"
    "off < next_off d off" "off + own_len d off \<le> next_off d off"
  using assms by (auto simp: chain_ok.simps [of d off] next_off_def unat_gt_0 split: if_splits)

lemma chain_ok_bound: "chain_ok d off \<Longrightarrow> off \<le> 512"
  by (subst (asm) chain_ok.simps) (auto split: if_splits)

lemma own_len_room:
  "chain_ok d off \<Longrightarrow> off < 512 \<Longrightarrow> unat (de_name_len (get_directory_entry d off)) + 9 \<le> own_len d off"
proof -
  assume "chain_ok d off" "off < 512"
  then have "unat (de_name_len (get_directory_entry d off)) < 256"
    using chain_okD(4) by (simp add: word_less_nat_alt)
  then have "unat (ucast (de_name_len (get_directory_entry d off)) :: u8) = unat (de_name_len (get_directory_entry d off))"
    by (simp add: unsigned_ucast_eq take_bit_nat_eq_self)
  then show ?thesis
    using record_len_fits [of "ucast (de_name_len (get_directory_entry d off))"] by (simp add: own_len_def)
qed

text \<open>The scans are lookups.\<close>

lemma scan_find_lookup:
  "map_option (entry_val d) (scan_find d name len off) = map_of (dir_entries d off) (bytes_of name (unat len))"
proof (induction d name len off rule: scan_find.induct)
  case (1 d name len off)
  show ?case
  proof (cases "off < 512")
    case False
    then show ?thesis by (simp add: scan_find.simps dir_entries_end)
  next
    case True
    then show ?thesis
      using 1 by (subst scan_find.simps) (auto simp: dir_entries_step entry_is_iff next_off_def)
  qed
qed

lemma scan_slot_NoSlot: "scan_slot d name len need off = NoSlot \<Longrightarrow> scan_find d name len off = None"
proof (induction d name len need off rule: scan_slot.induct)
  case (1 d name len need off)
  then show ?case
    by (subst scan_find.simps) (auto simp: scan_slot.simps [of d name len need off] Let_def split: if_splits)
qed

lemma scan_slot_Duplicate:
  "scan_slot d name len need off = Duplicate \<Longrightarrow> scan_find d name len off \<noteq> None"
proof (induction d name len need off rule: scan_slot.induct)
  case (1 d name len need off)
  then show ?case
    by (subst scan_find.simps) (auto simp: scan_slot.simps [of d name len need off] Let_def split: if_splits)
qed

subsection \<open>Entries depend on their own bytes\<close>

lemma entry_cong:
  assumes "chain_ok d off" "off < 512" "\<And>a. off \<le> a \<Longrightarrow> a < off + own_len d off \<Longrightarrow> m a = d a"
  shows "get_directory_entry m off = get_directory_entry d off" "entry_name m off = entry_name d off"
proof -
  note room = own_len_room [OF assms(1,2)]
  show e: "get_directory_entry m off = get_directory_entry d off"
    using room assms(3) by (intro get_directory_entry_cong) auto
  show "entry_name m off = entry_name d off"
    using room assms(3) by (simp add: entry_name_def e)
qed

lemma entry_cong_own:
  "get_directory_entry m off = get_directory_entry d off \<Longrightarrow>
    own_len m off = own_len d off \<and> next_off m off = next_off d off \<and> entry_val m off = entry_val d off"
  by (simp add: own_len_def next_off_def entry_val_def)

text \<open>The chain from \<open>off\<close> on depends on the bytes from there to the end of the block.\<close>

lemma chain_cong:
  "chain_ok d off \<Longrightarrow> (\<And>a. off \<le> a \<Longrightarrow> a < 512 \<Longrightarrow> m a = d a) \<Longrightarrow>
    chain_ok m off \<and> dir_entries m off = dir_entries d off"
proof (induction d off rule: chain_ok.induct)
  case (1 d off)
  show ?case
  proof (cases "off < 512")
    case False
    with 1(2) have "off = 512" by (simp add: chain_ok.simps [of d off])
    then show ?thesis by (simp add: chain_ok.simps [of m 512] dir_entries_end)
  next
    case True
    note ok = chain_okD [OF 1(2) True]
    have bound: "next_off d off \<le> 512" by (rule chain_ok_bound [OF ok(2)])
    have near: "m a = d a" if "off \<le> a" "a < off + own_len d off" for a
    proof (rule 1(3) [OF that(1)])
      show "a < 512" using that(2) ok(6) bound by linarith
    qed
    note same = entry_cong [OF 1(2) True near]
    note own = entry_cong_own [OF same(1)]
    have "chain_ok m (next_off d off) \<and> dir_entries m (next_off d off) = dir_entries d (next_off d off)"
    proof (rule 1(1) [OF True ok(3,2)])
      show "m a = d a" if "next_off d off \<le> a" "a < 512" for a
        using that ok(5) by (intro 1(3)) simp_all
    qed
    then show ?thesis
      using True ok own same by (subst chain_ok.simps) (simp add: dir_entries_step)
  qed
qed

subsection \<open>Insertion\<close>

lemma insert_entry_apply:
  assumes "a < off + 4 \<or> off + 6 \<le> a" "a < off + own_len d off \<or> off + own_len d off + 9 + unat len \<le> a"
  shows "insert_entry d off ino ft name len a = d a"
  using assms by (auto simp: insert_entry_def Let_def set_rec_len_def own_len_def get_entry_name_def
      put_directory_entry_def blit_def memcpy_into_apply)

lemma get_directory_entry_set_rec_len:
  "get_directory_entry (set_rec_len m off v) off = (get_directory_entry m off)\<lparr>rec_len := v\<rparr>"
  by (simp add: get_directory_entry_def set_rec_len_def mem_simps blit_outside)

lemma inserted_old:
  assumes "chain_ok d off" "off < 512"
  shows "get_directory_entry (insert_entry d off ino ft name len) off =
      (get_directory_entry d off)\<lparr>rec_len := get_entry_record_len (ucast (de_name_len (get_directory_entry d off)))\<rparr>"
    "entry_name (insert_entry d off ino ft name len) off = entry_name d off"
proof -
  note room = own_len_room [OF assms]
  let ?new = "off + own_len d off"
  have "9 \<le> own_len d off" using room by simp
  then have "get_directory_entry (memcpy_into (put_directory_entry d ?new e) (?new + 9) name 0 (unat len)) off =
      get_directory_entry d off" for e
    by (intro get_directory_entry_cong) (auto simp: memcpy_into_apply put_directory_entry_def blit_def)
  then show e: "get_directory_entry (insert_entry d off ino ft name len) off =
      (get_directory_entry d off)\<lparr>rec_len := get_entry_record_len (ucast (de_name_len (get_directory_entry d off)))\<rparr>"
    by (simp add: insert_entry_def Let_def get_directory_entry_set_rec_len own_len_def [symmetric] get_entry_name_def)
  have "insert_entry d off ino ft name len (off + 9 + i) = d (off + 9 + i)"
    if "i < unat (de_name_len (get_directory_entry d off))" for i
    using room that by (intro insert_entry_apply) auto
  then show "entry_name (insert_entry d off ino ft name len) off = entry_name d off"
    by (simp add: entry_name_def e)
qed

lemma inserted_new:
  assumes "9 \<le> own_len d off"
  shows "get_directory_entry (insert_entry d off ino ft name len) (off + own_len d off) =
      \<lparr>de_inode = ino, rec_len = rec_len (get_directory_entry d off) -
         get_entry_record_len (ucast (de_name_len (get_directory_entry d off))), de_name_len = ucast len, file_type = ft\<rparr>"
    "entry_name (insert_entry d off ino ft name len) (off + own_len d off) = bytes_of name (unat len)"
proof -
  let ?new = "off + own_len d off"
  let ?e = "\<lparr>de_inode = ino, rec_len = rec_len (get_directory_entry d off) -
         get_entry_record_len (ucast (de_name_len (get_directory_entry d off))), de_name_len = ucast len, file_type = ft\<rparr>"
  let ?m = "memcpy_into (put_directory_entry d ?new ?e) (?new + 9) name 0 (unat len)"
  have ins: "insert_entry d off ino ft name len a = ?m a" if "?new \<le> a" for a
    using that assms by (simp add: insert_entry_def Let_def set_rec_len_def own_len_def [symmetric]
        get_entry_name_def blit_outside)
  have "get_directory_entry ?m ?new = get_directory_entry (put_directory_entry d ?new ?e) ?new"
    by (intro get_directory_entry_cong) (simp add: memcpy_into_apply)
  then show e: "get_directory_entry (insert_entry d off ino ft name len) ?new = ?e"
    using get_directory_entry_cong [of "insert_entry d off ino ft name len" ?new ?m ?new] ins
    by (simp add: dirent_roundtrip)
  show "entry_name (insert_entry d off ino ft name len) ?new = bytes_of name (unat len)"
    by (simp add: entry_name_def e ins memcpy_into_apply bytes_of_def)
qed

lemma ucast_u8_u16_u8 [simp]: "ucast (ucast (x :: u8) :: u16) = x"
  by (rule bit_word_eqI) (simp add: bit_simps)

lemma scan_slot_insert:
  assumes "scan_slot d name len need s = Hole off" "need = get_entry_record_len len" "chain_ok d s" "ino \<noteq> 0"
  shows "off < 512 \<and> s \<le> off \<and> chain_ok d off \<and> chain_ok (insert_entry d off ino ft name len) s \<and>
    (\<exists>pre suf. dir_entries d s = pre @ (entry_name d off, entry_val d off) # suf \<and>
      bytes_of name (unat len) \<notin> fst ` set (pre @ [(entry_name d off, entry_val d off)]) \<and>
      dir_entries (insert_entry d off ino ft name len) s =
        pre @ (entry_name d off, entry_val d off) # (bytes_of name (unat len), ino, ft) # suf)"
  using assms
proof (induction d name len need s rule: scan_slot.induct)
  case (1 d name len need s)
  let ?d = "insert_entry d off ino ft name len"
  let ?e = "get_directory_entry d s"
  from 1(2) have s: "s < 512" by (auto simp: scan_slot.simps [of d name len need s] split: if_splits)
  note ok = chain_okD [OF 1(4) s]
  from 1(2) s have not_dup: "\<not> entry_is d s name len"
    by (auto simp: scan_slot.simps [of d name len need s] Let_def split: if_splits)
  let ?actual = "get_entry_record_len (ucast (de_name_len ?e))"
  let ?fits = "de_inode ?e \<noteq> 0 \<and> ?actual < rec_len ?e \<and> need \<le> rec_len ?e - ?actual"
  show ?case
  proof (cases ?fits)
    case True
    with 1(2) s not_dup have off: "off = s"
      by (auto simp: scan_slot.simps [of d name len need s] Let_def split: if_splits)
    let ?new = "s + own_len d s"
    have own: "9 \<le> own_len d s" using own_len_room [OF 1(4) s] by simp
    have len: "unat (rec_len ?e - ?actual) = unat (rec_len ?e) - own_len d s"
      using True by (simp add: own_len_def unat_sub less_imp_le)
    have "unat need \<le> unat (rec_len ?e) - own_len d s"
      using True len by (metis word_le_nat_alt)
    then have room: "9 + unat len \<le> unat (rec_len ?e) - own_len d s" "unat (get_entry_record_len len) \<le> unat (rec_len ?e) - own_len d s"
      using record_len_fits [of len] 1(3) by simp_all
    then have new: "?new < 512" using ok(1) chain_ok_bound [OF ok(2)] by (simp add: next_off_def)
    have next_new: "next_off ?d ?new = next_off d s"
      using len ok(1) by (simp add: off next_off_def inserted_new [OF own])
    have next_s: "next_off ?d s = ?new"
      by (simp add: off next_off_def inserted_old [OF 1(4) s] own_len_def)
    have own_s: "own_len ?d s = own_len d s"
      by (simp add: off own_len_def inserted_old [OF 1(4) s])
    have own_new: "own_len ?d ?new = unat (get_entry_record_len len)"
      by (simp only: off own_len_def [of "insert_entry d s ino ft name len"] inserted_new [OF own]) simp
    have keep: "?d a = d a" if "next_off d s \<le> a" "a < 512" for a
      unfolding off using that room own ok(1) by (intro insert_entry_apply) (auto simp: next_off_def)
    note rest = conjunct1 [OF chain_cong [OF ok(2) keep]] conjunct2 [OF chain_cong [OF ok(2) keep]]
    have "de_name_len (get_directory_entry ?d ?new) < 256"
      using unat_u8_less [of len] by (simp add: off inserted_new [OF own] word_less_nat_alt)
    note name_new = this
    have rec_new: "rec_len (get_directory_entry ?d ?new) = rec_len ?e - ?actual"
      by (simp add: off inserted_new [OF own])
    have chain_new: "chain_ok ?d ?new"
    proof (rule chain_okI [OF new name_new])
      show "own_len ?d ?new \<le> unat (rec_len (get_directory_entry ?d ?new))"
        unfolding own_new rec_new len by (rule room(2))
      show "0 < unat (rec_len (get_directory_entry ?d ?new))"
        unfolding rec_new len using room(1) by simp
      show "chain_ok ?d (next_off ?d ?new)"
        unfolding next_new by (rule rest(1))
    qed
    have rec_s: "unat (rec_len (get_directory_entry ?d s)) = own_len d s"
      by (simp add: off inserted_old [OF 1(4) s] own_len_def)
    have "chain_ok ?d s"
    proof (rule chain_okI [OF s])
      show "de_name_len (get_directory_entry ?d s) < 256"
        using ok(4) by (simp add: off inserted_old [OF 1(4) s])
    qed (use own own_s rec_s next_s chain_new in simp_all)
    moreover have "dir_entries ?d s = (entry_name d s, entry_val d s) # dir_entries ?d ?new"
    proof -
      have "rec_len (get_directory_entry ?d s) \<noteq> 0" using rec_s own by auto
      moreover have "entry_name ?d s = entry_name d s" "entry_val ?d s = entry_val d s"
        "de_inode (get_directory_entry ?d s) \<noteq> 0"
        using True by (simp_all add: off entry_val_def inserted_old [OF 1(4) s])
      ultimately show ?thesis using s by (simp add: dir_entries_step next_s)
    qed
    moreover have "dir_entries ?d ?new = (bytes_of name (unat len), ino, ft) # dir_entries d (next_off d s)"
    proof -
      have "rec_len (get_directory_entry ?d ?new) \<noteq> 0" using rec_new len room(1) by auto
      moreover have "entry_name ?d ?new = bytes_of name (unat len)" "entry_val ?d ?new = (ino, ft)"
        "de_inode (get_directory_entry ?d ?new) \<noteq> 0"
        using 1(5) by (simp_all add: off entry_val_def inserted_new [OF own])
      ultimately show ?thesis using new rest(2) by (simp add: dir_entries_step next_new)
    qed
    moreover have "dir_entries d s = (entry_name d s, entry_val d s) # dir_entries d (next_off d s)"
      using s True ok(3) by (simp add: dir_entries_step)
    moreover have "bytes_of name (unat len) \<noteq> entry_name d s"
      using not_dup True by (auto simp: entry_is_iff)
    ultimately show ?thesis
      using s 1(4) unfolding off by (intro conjI exI [of _ "[]"] exI [of _ "dir_entries d (next_off d s)"]) simp_all
  next
    case False
    with 1(2) s not_dup ok(3) have rec: "scan_slot d name len need (next_off d s) = Hole off"
      by (auto simp: scan_slot.simps [of d name len need s] Let_def next_off_def split: if_splits)
    have IH: "off < 512 \<and> next_off d s \<le> off \<and> chain_ok d off \<and> chain_ok ?d (next_off d s) \<and>
      (\<exists>pre suf. dir_entries d (next_off d s) = pre @ (entry_name d off, entry_val d off) # suf \<and>
      bytes_of name (unat len) \<notin> fst ` set (pre @ [(entry_name d off, entry_val d off)]) \<and>
      dir_entries ?d (next_off d s) =
        pre @ (entry_name d off, entry_val d off) # (bytes_of name (unat len), ino, ft) # suf)"
    proof -
      have "s < BLOCK_SIZE" using s by simp
      from 1(1) [OF this refl refl not_dup False ok(3) rec [unfolded next_off_def] 1(3)
          ok(2) [unfolded next_off_def] 1(5)]
      show ?thesis by (simp add: next_off_def)
    qed
    then have below: "?d a = d a" if "a < next_off d s" for a
      using that by (intro insert_entry_apply) auto
    have same: "get_directory_entry ?d s = get_directory_entry d s" "entry_name ?d s = entry_name d s"
      using entry_cong [OF 1(4) s, of ?d] below ok(6) by auto
    note own = entry_cong_own [OF same(1)]
    have chain: "chain_ok ?d s"
      using s ok own same IH by (subst chain_ok.simps) simp
    let ?live = "if de_inode ?e \<noteq> 0 then [(entry_name d s, entry_val d s)] else []"
    have lists: "dir_entries ?d s = ?live @ dir_entries ?d (next_off d s)" "dir_entries d s = ?live @ dir_entries d (next_off d s)"
      using s ok(3) own same by (simp_all add: dir_entries_step)
    have live: "bytes_of name (unat len) \<notin> fst ` set ?live"
      using not_dup by (auto simp: entry_is_iff)
    from IH obtain pre suf where
      "dir_entries d (next_off d s) = pre @ (entry_name d off, entry_val d off) # suf"
      "bytes_of name (unat len) \<notin> fst ` set (pre @ [(entry_name d off, entry_val d off)])"
      "dir_entries ?d (next_off d s) =
        pre @ (entry_name d off, entry_val d off) # (bytes_of name (unat len), ino, ft) # suf"
      by blast
    with lists live have "\<exists>pre suf. dir_entries d s = pre @ (entry_name d off, entry_val d off) # suf \<and>
      bytes_of name (unat len) \<notin> fst ` set (pre @ [(entry_name d off, entry_val d off)]) \<and>
      dir_entries ?d s = pre @ (entry_name d off, entry_val d off) # (bytes_of name (unat len), ino, ft) # suf"
      by (intro exI [of _ "?live @ pre"] exI [of _ suf]) (simp add: image_Un)
    with IH chain ok(5) show ?thesis by simp
  qed
qed

lemma dir_map_insert:
  assumes "scan_slot d name len (get_entry_record_len len) 0 = Hole off" "chain_ok d 0" "ino \<noteq> 0"
  shows "dir_map (insert_entry d off ino ft name len) = (dir_map d)(bytes_of name (unat len) \<mapsto> (ino, ft))"
proof -
  from scan_slot_insert [OF assms(1) refl assms(2,3), of ft] obtain pre suf where
    l: "dir_entries d 0 = pre @ (entry_name d off, entry_val d off) # suf"
      "bytes_of name (unat len) \<notin> fst ` set (pre @ [(entry_name d off, entry_val d off)])"
      "dir_entries (insert_entry d off ino ft name len) 0 =
        pre @ (entry_name d off, entry_val d off) # (bytes_of name (unat len), ino, ft) # suf"
    by blast
  have "map_of pre (bytes_of name (unat len)) = None"
    using l(2) by (simp add: map_of_eq_None_iff)
  then show ?thesis
    using l by (auto simp: dir_map_def fun_eq_iff map_add_def split: option.split)
qed

subsection \<open>Removal\<close>

lemma scan_del_entry: "scan_del d name len prev s = Some (p, off) \<Longrightarrow> entry_is d off name len"
proof (induction d name len prev s rule: scan_del.induct)
  case (1 d name len prev s)
  from 1(2) show ?case
    by (subst (asm) scan_del.simps) (use 1(1) in \<open>auto split: if_splits\<close>)
qed

lemma scan_del_clear: "scan_del d name len prev s = Some (p, off) \<Longrightarrow> clear_ends d p off"
  using scan_del_entry [of d name len prev s p off] unat_u8_less [of len]
  by (auto simp: clear_ends_def entry_is_def Let_def)

lemma clear_entry_apply:
  "a < off \<or> off + 9 + unat (de_name_len (get_directory_entry m off)) \<le> a \<Longrightarrow> clear_entry m off a = m a"
  by (auto simp: clear_entry_def Let_def put_directory_entry_def blit_def memset_apply get_entry_name_def)

lemma set_rec_len_apply: "a < off + 4 \<or> off + 6 \<le> a \<Longrightarrow> set_rec_len m off v a = m a"
  by (auto simp: set_rec_len_def blit_def)

lemma scan_del_found:
  assumes "scan_del d name len prev s = Some (p', off)" "chain_ok d s"
  shows "off < 512 \<and> s \<le> off \<and> chain_ok d off \<and> entry_is d off name len \<and>
    (p' = prev \<and> off = s \<or> (\<exists>p. p' = Some p \<and> s \<le> p \<and> p < 512 \<and> chain_ok d p \<and> next_off d p = off))"
  using assms
proof (induction d name len prev s rule: scan_del.induct)
  case (1 d name len prev s)
  from 1(2) have s: "s < BLOCK_SIZE" "s < 512" and rec: "rec_len (get_directory_entry d s) \<noteq> 0"
    by (auto simp: scan_del.simps [of d name len prev s] split: if_splits)
  note ok = chain_okD [OF 1(3) s(2)]
  show ?case
  proof (cases "entry_is d s name len")
    case True
    with 1(2,3) s rec show ?thesis by (auto simp: scan_del.simps [of d name len prev s])
  next
    case False
    with 1(2) s rec have "scan_del d name len (Some s) (next_off d s) = Some (p', off)"
      by (simp add: scan_del.simps [of d name len prev s] next_off_def)
    with 1(1) [OF s(1) rec False] ok(2) have
      "off < 512 \<and> next_off d s \<le> off \<and> chain_ok d off \<and> entry_is d off name len \<and>
    (p' = Some s \<and> off = next_off d s \<or> (\<exists>p. p' = Some p \<and> next_off d s \<le> p \<and> p < 512 \<and> chain_ok d p \<and> next_off d p = off))"
      by (simp add: next_off_def)
    then show ?thesis
      using ok(5) s(2) 1(3) by auto
  qed
qed

lemma removed_merge:
  assumes "chain_ok d p" "p < 512" "next_off d p = off" "off < 512"
  defines "d' \<equiv> remove_entry d (Some p) off"
  shows "chain_ok d' p" "dir_entries d' p =
      (if de_inode (get_directory_entry d p) \<noteq> 0 then [(entry_name d p, entry_val d p)] else []) @
      dir_entries d (next_off d off)"
    "a < p \<Longrightarrow> d' a = d a"
proof -
  note okp = chain_okD [OF assms(1,2)]
  have chain_off: "chain_ok d off" using okp(2) assms(3) by simp
  note ok = chain_okD [OF chain_off assms(4)]
  note roomp = own_len_room [OF assms(1,2)] and room = own_len_room [OF chain_off assms(4)]
  let ?sum = "rec_len (get_directory_entry d p) + rec_len (get_directory_entry d off)"
  let ?m = "set_rec_len d p ?sum"
  have p_off: "p + own_len d p \<le> off" using okp(6) assms(3) by simp
  have m_off: "get_directory_entry ?m off = get_directory_entry d off"
    using roomp p_off by (intro get_directory_entry_cong) (simp add: set_rec_len_apply)
  have d': "d' a = ?m a" if "a < off \<or> off + 9 + unat (de_name_len (get_directory_entry d off)) \<le> a" for a
    using that by (simp add: d'_def remove_entry_def Let_def clear_entry_apply m_off)
  have bound: "next_off d off \<le> 512" by (rule chain_ok_bound [OF ok(2)])
  have sum: "unat ?sum = unat (rec_len (get_directory_entry d p)) + unat (rec_len (get_directory_entry d off))"
    using bound assms(3) by (simp add: next_off_def unat_word_ariths)
  have e: "get_directory_entry d' p = (get_directory_entry d p)\<lparr>rec_len := ?sum\<rparr>"
  proof -
    have "get_directory_entry d' p = get_directory_entry ?m p"
      using roomp p_off by (intro get_directory_entry_cong d') auto
    then show ?thesis by (simp add: get_directory_entry_set_rec_len)
  qed
  have "d' (p + 9 + i) = d (p + 9 + i)" if "i < unat (de_name_len (get_directory_entry d p))" for i
    using that roomp p_off by (subst d') (auto simp: set_rec_len_apply)
  then have name: "entry_name d' p = entry_name d p"
    by (simp add: entry_name_def e)
  have next': "next_off d' p = next_off d off"
    using assms(3) by (simp add: next_off_def e sum)
  have keep: "d' a = d a" if "next_off d off \<le> a" "a < 512" for a
  proof -
    have "off + 9 + unat (de_name_len (get_directory_entry d off)) \<le> a"
      using room ok(6) that(1) by simp
    moreover have "p + 6 \<le> a" using roomp p_off that(1) ok(5) by simp
    ultimately show ?thesis using d' by (simp add: set_rec_len_apply)
  qed
  note rest = conjunct1 [OF chain_cong [OF ok(2) keep]] conjunct2 [OF chain_cong [OF ok(2) keep]]
  show "chain_ok d' p"
  proof (rule chain_okI [OF assms(2)])
    show "own_len d' p \<le> unat (rec_len (get_directory_entry d' p))" using okp(1) by (simp add: own_len_def e sum)
  qed (use okp(3,4) rest(1) next' in \<open>simp_all add: e sum unat_gt_0\<close>)
  have "unat (rec_len (get_directory_entry d' p)) \<noteq> 0"
    using okp(1) roomp sum by (simp add: e)
  then have "rec_len (get_directory_entry d' p) \<noteq> 0" by auto
  then show "dir_entries d' p =
      (if de_inode (get_directory_entry d p) \<noteq> 0 then [(entry_name d p, entry_val d p)] else []) @
      dir_entries d (next_off d off)"
    using assms(2) rest(2) next' name by (simp add: dir_entries_step e entry_val_def)
  show "d' a = d a" if "a < p"
    using d' [of a] that assms(3) okp(5) by (simp add: set_rec_len_apply)
qed

lemma scan_del_remove:
  assumes "scan_del d name len prev s = Some (p', off)" "chain_ok d s" "p' \<noteq> prev \<or> off \<noteq> s"
    and "\<And>q. prev = Some q \<Longrightarrow> q < s"
  shows "chain_ok (remove_entry d p' off) s \<and> (\<exists>pre suf. dir_entries d s = pre @ (entry_name d off, entry_val d off) # suf \<and>
      bytes_of name (unat len) \<notin> fst ` set pre \<and> dir_entries (remove_entry d p' off) s = pre @ suf) \<and> (\<exists>p. p' = Some p \<and> s \<le> p)"
  using assms
proof (induction d name len prev s rule: scan_del.induct)
  case (1 d name len prev s)
  let ?d = "remove_entry d p' off"
  from 1(2) have s: "s < BLOCK_SIZE" "s < 512" and rec: "rec_len (get_directory_entry d s) \<noteq> 0"
    by (auto simp: scan_del.simps [of d name len prev s] split: if_splits)
  note ok = chain_okD [OF 1(3) s(2)]
  let ?live = "if de_inode (get_directory_entry d s) \<noteq> 0 then [(entry_name d s, entry_val d s)] else []"
  have no: "\<not> entry_is d s name len"
  proof
    assume "entry_is d s name len"
    with 1(2,4) s rec show False by (simp add: scan_del.simps [of d name len prev s])
  qed
  with 1(2) s rec have scan: "scan_del d name len (Some s) (next_off d s) = Some (p', off)"
    by (simp add: scan_del.simps [of d name len prev s] next_off_def)
  have live: "bytes_of name (unat len) \<notin> fst ` set ?live"
    using no by (auto simp: entry_is_iff)
  have list: "dir_entries d s = ?live @ dir_entries d (next_off d s)"
    using s ok(3) by (simp add: dir_entries_step)
  show ?case
  proof (cases "p' = Some s \<and> off = next_off d s")
    case True
    from scan_del_found [OF scan ok(2)] have off: "off < 512" "chain_ok d off" "entry_is d off name len" by auto
    note merge = removed_merge [OF 1(3) s(2) conjunct2 [OF True, symmetric] off(1)]
    have "dir_entries d off = (entry_name d off, entry_val d off) # dir_entries d (next_off d off)"
      using off chain_okD(3) [OF off(2,1)] by (simp add: dir_entries_step entry_is_iff)
    with list live True merge show ?thesis
      by (intro conjI exI [of _ ?live] exI [of _ "dir_entries d (next_off d off)"]) auto
  next
    case False
    have IH: "chain_ok ?d (next_off d s) \<and> (\<exists>pre suf. dir_entries d (next_off d s) = pre @ (entry_name d off, entry_val d off) # suf \<and>
      bytes_of name (unat len) \<notin> fst ` set pre \<and> dir_entries ?d (next_off d s) = pre @ suf) \<and> (\<exists>p. p' = Some p \<and> next_off d s \<le> p)"
      using 1(1) [OF s(1) rec no] scan ok(2,5) False by (simp add: next_off_def)
    then obtain p pre suf where p: "p' = Some p" "next_off d s \<le> p"
      and l: "dir_entries d (next_off d s) = pre @ (entry_name d off, entry_val d off) # suf"
      "bytes_of name (unat len) \<notin> fst ` set pre" "dir_entries ?d (next_off d s) = pre @ suf" by blast
    from scan_del_found [OF scan ok(2)] False p(1) have
      "chain_ok d p" "p < 512" "next_off d p = off" "off < 512" by auto
    note below = removed_merge(3) [OF this, folded p(1)]
    have "?d a = d a" if "s \<le> a" "a < s + own_len d s" for a
      using that ok(6) p(2) by (intro below) simp
    note same = entry_cong [OF 1(3) s(2) this]
    note own = entry_cong_own [OF same(1)]
    have "chain_ok ?d s"
    proof (rule chain_okI [OF s(2)])
      show "de_name_len (get_directory_entry ?d s) < 256" using ok(4) same by simp
      show "own_len ?d s \<le> unat (rec_len (get_directory_entry ?d s))" using ok(1) own same by simp
      show "0 < unat (rec_len (get_directory_entry ?d s))" using ok(3) same by (simp add: unat_gt_0)
      show "chain_ok ?d (next_off ?d s)" using IH own by simp
    qed
    moreover have list': "dir_entries ?d s = ?live @ dir_entries ?d (next_off d s)"
      using dir_entries_step [OF s(2), of ?d] ok(3) by (simp only: own same if_False)
    have "dir_entries d s = (?live @ pre) @ (entry_name d off, entry_val d off) # suf"
      by (simp only: list l(1) append_assoc)
    moreover have "bytes_of name (unat len) \<notin> fst ` set (?live @ pre)"
      using l(2) live by (simp only: set_append image_Un Un_iff simp_thms)
    moreover have "dir_entries ?d s = (?live @ pre) @ suf"
      by (simp only: list' l(3) append_assoc)
    moreover have "s \<le> p" using p(2) ok(5) by simp
    ultimately show ?thesis
      using p(1) by blast
  qed
qed

lemma removed_first:
  assumes "chain_ok d 0" "entry_is d 0 name len"
  shows "chain_ok (remove_entry d None 0) 0 \<and> dir_entries d 0 = (entry_name d 0, entry_val d 0) # dir_entries d (next_off d 0) \<and>
    dir_entries (remove_entry d None 0) 0 = dir_entries d (next_off d 0)"
proof -
  let ?d = "remove_entry d None 0" and ?e = "get_directory_entry d 0"
  have s: "(0 :: nat) < 512" by simp
  note ok = chain_okD [OF assms(1) s]
  have e: "get_directory_entry ?d 0 = ?e\<lparr>de_inode := 0\<rparr>"
    by (simp add: remove_entry_def dirent_roundtrip)
  have "9 \<le> next_off d 0" using own_len_room [OF assms(1) s] ok(6) by simp
  then have keep: "?d a = d a" if "next_off d 0 \<le> a" "a < 512" for a
    using that by (simp add: remove_entry_def put_directory_entry_def blit_outside)
  note rest = conjunct1 [OF chain_cong [OF ok(2) keep]] conjunct2 [OF chain_cong [OF ok(2) keep]]
  have next': "next_off ?d 0 = next_off d 0" by (simp add: next_off_def e)
  have "chain_ok ?d 0"
  proof (rule chain_okI [OF s])
    show "own_len ?d 0 \<le> unat (rec_len (get_directory_entry ?d 0))" using ok(1) by (simp add: own_len_def e)
    show "chain_ok ?d (next_off ?d 0)" using rest(1) next' by simp
  qed (use ok(3,4) in \<open>simp_all add: e unat_gt_0\<close>)
  moreover have "dir_entries ?d 0 = dir_entries d (next_off d 0)"
    using dir_entries_step [OF s, of ?d] ok(3) rest(2) next' by (simp add: e)
  moreover have "dir_entries d 0 = (entry_name d 0, entry_val d 0) # dir_entries d (next_off d 0)"
    using dir_entries_step [OF s, of d] ok(3) assms(2) by (simp add: entry_is_iff)
  ultimately show ?thesis by blast
qed

lemma dir_remove:
  assumes "scan_del d name len None 0 = Some (p, off)" "chain_ok d 0"
  shows "chain_ok (remove_entry d p off) 0" (is ?A)
    and "\<exists>pre suf. dir_entries d 0 = pre @ (bytes_of name (unat len), entry_val d off) # suf \<and>
      bytes_of name (unat len) \<notin> fst ` set pre \<and> dir_entries (remove_entry d p off) 0 = pre @ suf" (is ?B)
proof -
  note found = scan_del_found [OF assms]
  have name: "entry_name d off = bytes_of name (unat len)"
    using found by (simp add: entry_is_iff)
  have "?A \<and> ?B"
  proof (cases "p = None \<and> off = 0")
    case True
    with found removed_first [OF assms(2), of name len] name show ?thesis
      by (intro conjI exI [of _ "[]"] exI [of _ "dir_entries d (next_off d 0)"]) auto
  next
    case False
    with scan_del_remove [OF assms] name show ?thesis by auto
  qed
  then show ?A ?B by blast+
qed

lemma scan_del_None: "chain_ok d s \<Longrightarrow> scan_del d name len prev s = None \<longleftrightarrow> scan_find d name len s = None"
proof (induction d name len prev s rule: scan_del.induct)
  case (1 d name len prev s)
  show ?case
  proof (cases "s < 512")
    case True
    note ok = chain_okD [OF 1(2) True]
    show ?thesis
    proof (cases "entry_is d s name len")
      case True
      with \<open>s < 512\<close> ok(3) show ?thesis by (simp add: scan_del.simps [of d name len prev s] scan_find.simps [of d name len s])
    next
      case False
      from 1(1) [OF _ ok(3) False] ok(2) \<open>s < 512\<close>
      have "scan_del d name len (Some s) (next_off d s) = None \<longleftrightarrow> scan_find d name len (next_off d s) = None"
        by (simp add: next_off_def)
      with False \<open>s < 512\<close> ok(3) show ?thesis
        by (simp add: scan_del.simps [of d name len prev s] scan_find.simps [of d name len s] next_off_def)
    qed
  next
    case False
    then show ?thesis by (simp add: scan_del.simps [of d name len prev s] scan_find.simps [of d name len s])
  qed
qed

subsection \<open>The interface: a map from names\<close>

text \<open>
  What the operations of the file system rely on when they look into a directory block: names
  are unique, an insertion adds exactly one binding, a removal takes exactly one away and fails
  only when the name is not there.
\<close>

locale name_map =
  fixes good :: "'d \<Rightarrow> bool" and look :: "'d \<Rightarrow> 'n \<Rightarrow> 'v option"
    and add :: "'n \<Rightarrow> 'v \<Rightarrow> 'd \<Rightarrow> 'd option" and del :: "'n \<Rightarrow> 'd \<Rightarrow> 'd option"
    and valid :: "'v \<Rightarrow> bool"
  assumes add_good: "good d \<Longrightarrow> valid v \<Longrightarrow> look d n = None \<Longrightarrow> add n v d = Some d' \<Longrightarrow> good d' \<and> look d' = (look d)(n \<mapsto> v)"
    and del_good: "good d \<Longrightarrow> del n d = Some d' \<Longrightarrow> good d' \<and> look d' = (look d)(n := None)"
    and del_fails: "good d \<Longrightarrow> del n d = None \<longleftrightarrow> look d n = None"
begin

lemma del_removes: "good d \<Longrightarrow> del n d = Some d' \<Longrightarrow> look d' n = None \<and> (\<forall>m. m \<noteq> n \<longrightarrow> look d' m = look d m)"
  using del_good by simp

text \<open>Adding a name and removing it leaves the same directory.\<close>

lemma add_del:
  assumes "good d" "valid v" "look d n = None" "add n v d = Some d1"
  shows "\<exists>d2. del n d1 = Some d2 \<and> good d2 \<and> look d2 = look d"
proof -
  note a = add_good [OF assms]
  then have "look d1 n \<noteq> None" by simp
  with a del_fails [of d1 n] have "del n d1 \<noteq> None" by simp
  then obtain d2 where d2: "del n d1 = Some d2" by blast
  have "good d2 \<and> look d2 = (look d1)(n := None)" by (rule del_good [OF conjunct1 [OF a] d2])
  moreover have "(look d1)(n := None) = look d" unfolding conjunct2 [OF a] using assms(3) by (simp add: fun_upd_idem)
  ultimately show ?thesis using d2 by simp
qed

lemma adds_commute:
  assumes "good d" "valid v" "valid w" "m \<noteq> n" "look d m = None" "look d n = None"
    and "add m v d = Some d1" "add n w d1 = Some d2" "add n w d = Some e1" "add m v e1 = Some e2"
  shows "look d2 = look e2"
proof -
  have d1: "good d1" "look d1 = (look d)(m \<mapsto> v)" and e1: "good e1" "look e1 = (look d)(n \<mapsto> w)"
    using add_good [OF assms(1,2,5,7)] add_good [OF assms(1,3,6,9)] by simp_all
  then have "look d2 = (look d1)(n \<mapsto> w)" "look e2 = (look e1)(m \<mapsto> v)"
    using add_good [OF d1(1) assms(3) _ assms(8)] add_good [OF e1(1) assms(2) _ assms(10)] assms(4-6) by auto
  with d1 e1 assms(4) show ?thesis by (simp add: fun_upd_twist)
qed

end

definition name_mem :: "u8 list \<Rightarrow> mem" where
  "name_mem n = blit (\<lambda>_. 0) 0 n"

definition block_add :: "u8 list \<Rightarrow> u32 \<times> u8 \<Rightarrow> mem \<Rightarrow> mem option" where
  "block_add n v d =
     (if length n < 256
      then case scan_slot d (name_mem n) (of_nat (length n)) (get_entry_record_len (of_nat (length n))) 0 of
          Hole off \<Rightarrow> Some (insert_entry d off (fst v) (snd v) (name_mem n) (of_nat (length n)))
        | _ \<Rightarrow> None
      else None)"

definition block_del :: "u8 list \<Rightarrow> mem \<Rightarrow> mem option" where
  "block_del n d =
     (if length n < 256
      then case scan_del d (name_mem n) (of_nat (length n)) None 0 of
          Some (p, off) \<Rightarrow> Some (remove_entry d p off)
        | None \<Rightarrow> None
      else None)"

definition dir_good :: "mem \<Rightarrow> bool" where
  "dir_good d \<longleftrightarrow> chain_ok d 0 \<and> distinct (map fst (dir_entries d 0))"

lemma dir_good_cong:
  assumes "dir_good d" "\<And>a. a < 512 \<Longrightarrow> m a = d a"
  shows "dir_good m" "dir_entries m 0 = dir_entries d 0" "dir_map m = dir_map d"
  using chain_cong [of d 0 m] assms by (auto simp: dir_good_def dir_map_def)

lemma bytes_name_mem: "length n < 256 \<Longrightarrow> bytes_of (name_mem n) (unat (of_nat (length n) :: u8)) = n"
proof -
  assume "length n < 256"
  then have "unat (of_nat (length n) :: u8) = length n" by (simp add: unat_of_nat)
  then show ?thesis
    by (intro nth_equalityI) (simp_all add: bytes_of_def name_mem_def blit_def)
qed

lemma entry_name_short: "chain_ok d off \<Longrightarrow> off < 512 \<Longrightarrow> length (entry_name d off) < 256"
  using chain_okD(4) [of d off] by (simp add: entry_name_def word_less_nat_alt)

lemma dir_entries_short: "chain_ok d off \<Longrightarrow> n \<in> fst ` set (dir_entries d off) \<Longrightarrow> length n < 256"
proof (induction d off rule: dir_entries.induct)
  case (1 d off)
  show ?case
  proof (cases "off < 512")
    case True
    note ok = chain_okD [OF 1(2) True]
    from 1(3) True ok(3) have "n = entry_name d off \<or> n \<in> fst ` set (dir_entries d (next_off d off))"
      by (auto simp: dir_entries_step split: if_splits)
    then show ?thesis
      using entry_name_short [OF 1(2) True] 1(1) [OF True refl ok(3,2)] by blast
  next
    case False
    with 1(3) show ?thesis by (simp add: dir_entries_end)
  qed
qed

lemma map_of_remove:
  "distinct (map fst (pre @ (n, v) # suf)) \<Longrightarrow> map_of (pre @ suf) = (map_of (pre @ (n, v) # suf))(n := None)"
proof (induction pre)
  case Nil
  then have "map_of suf n = None" by (simp add: map_of_eq_None_iff)
  then show ?case by (auto simp: fun_eq_iff)
next
  case (Cons a pre)
  then show ?case by (cases a) (auto simp: fun_eq_iff)
qed

interpretation dir: name_map dir_good dir_map block_add block_del "\<lambda>v. fst v \<noteq> 0"
proof (unfold_locales, goal_cases)
  case (1 d v n d')
  then obtain off where n: "length n < 256" and slot:
    "scan_slot d (name_mem n) (of_nat (length n)) (get_entry_record_len (of_nat (length n))) 0 = Hole off"
    "d' = insert_entry d off (fst v) (snd v) (name_mem n) (of_nat (length n))"
    by (auto simp: block_add_def split: if_splits slot.splits)
  have chain: "chain_ok d 0" using 1(1) by (simp add: dir_good_def)
  note ins = scan_slot_insert [OF slot(1) refl chain 1(2), of "snd v", folded slot(2), unfolded bytes_name_mem [OF n]]
  obtain pre suf off where l: "dir_entries d 0 = pre @ (entry_name d off, entry_val d off) # suf"
      "dir_entries d' 0 = pre @ (entry_name d off, entry_val d off) # (n, fst v, snd v) # suf" using ins by blast
  have "n \<notin> fst ` set (dir_entries d 0)"
    using 1(3) by (simp add: dir_map_def map_of_eq_None_iff)
  then have "distinct (map fst (dir_entries d' 0))"
    using 1(1) unfolding dir_good_def l by auto
  with ins dir_map_insert [OF slot(1) chain 1(2), of "snd v"] show ?case
    by (simp add: dir_good_def slot(2) bytes_name_mem [OF n])
next
  case (2 d n d')
  then obtain p off where n: "length n < 256" and scan: "scan_del d (name_mem n) (of_nat (length n)) None 0 = Some (p, off)"
    and d': "d' = remove_entry d p off"
    by (auto simp: block_del_def split: if_splits option.splits)
  have chain: "chain_ok d 0" using 2(1) by (simp add: dir_good_def)
  from dir_remove(2) [OF scan chain] obtain pre suf where
    l: "dir_entries d 0 = pre @ (n, entry_val d off) # suf" "dir_entries d' 0 = pre @ suf"
    unfolding bytes_name_mem [OF n] d' by blast
  have dist: "distinct (map fst (dir_entries d 0))" using 2(1) by (simp add: dir_good_def)
  have "map_of (dir_entries d' 0) = (map_of (dir_entries d 0))(n := None)"
    unfolding l by (rule map_of_remove) (use dist l(1) in simp)
  moreover have "distinct (map fst (dir_entries d' 0))"
    using dist unfolding l by simp
  ultimately show ?case
    using dir_remove(1) [OF scan chain] by (simp only: dir_good_def dir_map_def d' simp_thms)
next
  case (3 d n)
  have chain: "chain_ok d 0" using 3 by (simp add: dir_good_def)
  show ?case
  proof (cases "length n < 256")
    case True
    have "block_del n d = None \<longleftrightarrow> scan_del d (name_mem n) (of_nat (length n)) None 0 = None"
      using True by (auto simp: block_del_def split: option.split)
    also have "\<dots> \<longleftrightarrow> scan_find d (name_mem n) (of_nat (length n)) 0 = None"
      by (rule scan_del_None [OF chain])
    also have "\<dots> \<longleftrightarrow> dir_map d n = None"
      using scan_find_lookup [of d "name_mem n" "of_nat (length n)" 0]
      unfolding bytes_name_mem [OF True] dir_map_def by (metis map_option_is_None)
    finally show ?thesis .
  next
    case False
    with dir_entries_short [OF chain, of n] show ?thesis
      by (auto simp: block_del_def dir_map_def map_of_eq_None_iff)
  qed
qed

text \<open>Reading an inode gives the inode table block and the inode in it.\<close>

lemma load_inode_eq:
  assumes "fs_ok st" "unat inode \<le> 896"
  shows "load_inode st inode = Some (overlay (fs_disk st (of_nat (node_block (unat inode)))) (uninit st), node_of st (unat inode))"
proof -
  let ?b = "node_block (unat inode)"
  have "inode_at (overlay (fs_disk st (of_nat ?b)) (uninit st)) (node_slot (unat inode)) = node_of st (unat inode)"
    unfolding node_of_def by (rule inode_at_cong) simp_all
  then show ?thesis
    using assms by (simp add: load_inode_def inode_block_eq read_block_eq unat_of_nat_block inode_slot_eq)
qed

end
