(* ===== verification/Ext2_Theorems.thy ===== *)
theory Ext2_Theorems
  imports Ext2_Ops Ext2_Lookup
begin

section \<open>Properties of the file system driver\<close>

text \<open>
  The properties of \<open>filesystem/ext2.c\<close>, each with an application to a concrete state: the file
  system that \<open>initialize_filesystem_ext2\<close> makes on a blank disk.
\<close>

definition blank_fs :: fs where
  "blank_fs = \<lparr>fs_disk = \<lambda>_ _. 0, superBlock = dec_superblock (\<lambda>_. 0),
     bgdtCache = replicate 8 (dec_bgd (\<lambda>_. 0) 0), uninit = \<lambda>_. 0\<rparr>"

definition fresh_fs :: fs where
  "fresh_fs = the (initialize_filesystem_ext2 blank_fs)"

lemma blank_bitmap: "bg_block_bitmap (bgdtCache blank_fs ! 0) = 0" "length (bgdtCache blank_fs) = 8"
    "get16 (fs_disk blank_fs 0) 0 \<noteq> of2 (fs_signature ! 0) (fs_signature ! 1)"
  by (simp_all add: blank_fs_def dec_bgd_def get32_def get16_def of4_def of2_def fs_signature_def of_char_def)

lemma initialize_blank: "initialize_filesystem_ext2 blank_fs = Some fresh_fs"
  and fresh_ok: "fs_ok fresh_fs" and fresh_created: "created fresh_fs"
  and fresh_caches: "superBlock fresh_fs = create_superblock" "bgdtCache fresh_fs = map create_bgd [0..<8]"
    "uninit fresh_fs = (\<lambda>_. 0)"
proof -
  obtain st where st: "initialize_filesystem_ext2 blank_fs = Some st" "fs_ok st" "created st"
    "superBlock st = create_superblock" "bgdtCache st = map create_bgd [0..<8]" "uninit st = uninit blank_fs"
    using initialize_fresh [OF blank_bitmap(2,1,3)] by (rule okE) blast
  then have f: "fresh_fs = st" by (simp only: fresh_fs_def option.sel)
  show "initialize_filesystem_ext2 blank_fs = Some fresh_fs" "fs_ok fresh_fs" "created fresh_fs"
    "superBlock fresh_fs = create_superblock" "bgdtCache fresh_fs = map create_bgd [0..<8]"
    using st unfolding f by simp_all
  show "uninit fresh_fs = (\<lambda>_. 0)"
    using st(6) unfolding f by (simp add: blank_fs_def)
qed

lemma fresh_used:
  "n < 2048 \<Longrightarrow> block_used fresh_fs n \<longleftrightarrow> n < 22 \<or> 256 \<le> n \<and> n mod 256 < 18"
  "0 < n \<Longrightarrow> n \<le> 896 \<Longrightarrow> inode_used fresh_fs n \<longleftrightarrow> n = 1"
  by (rule created_used(1) [OF fresh_created], assumption) (rule created_used(2) [OF fresh_created])

lemma find_upt_eq:
  assumes "a \<le> n" "n < b" "P n" "\<And>m. a \<le> m \<Longrightarrow> m < n \<Longrightarrow> \<not> P m"
  shows "List.find P [a..<b] = Some n"
  using assms by (auto simp: find_Some_iff intro!: exI [of _ "n - a"])

lemma fresh_alloc: "alloc_block fresh_fs 0 = Some (Some 22, take_block fresh_fs 22)"
proof -
  have "List.find (\<lambda>n. \<not> block_used fresh_fs n) [0..<2048] = Some 22"
    by (rule find_upt_eq) (simp_all add: fresh_used)
  moreover have "256 * unat (0 :: u32) = 0" by simp
  ultimately show ?thesis by (simp only: alloc_block_eq [OF fresh_ok] option.case of_nat_numeral)
qed

lemma fresh_inode: "allocate_node fresh_fs = Some (2, synced (take_inode fresh_fs 2))"
proof -
  have "List.find (\<lambda>n. \<not> inode_used fresh_fs n) [1..<897] = Some 2"
    by (rule find_upt_eq) (auto simp: fresh_used)
  then show ?thesis by (simp only: allocate_node_eq [OF fresh_ok] option.case of_nat_numeral)
qed

text \<open>The entries of a new directory block.\<close>

lemma entry_upd: "a < off \<or> off + 9 \<le> a \<Longrightarrow> get_directory_entry (m(a := x)) off = get_directory_entry m off"
  by (rule get_directory_entry_cong) auto

lemma record_len_1: "get_entry_record_len 1 = 12"
  by (simp add: word_unat_eq_iff unat_get_entry_record_len)

lemma new_dir_entry:
  "get_directory_entry (new_dir_block m i p) 0 = \<lparr>de_inode = i, rec_len = 12, de_name_len = 1, file_type = EXT2_FT_DIR\<rparr>"
  "get_directory_entry (new_dir_block m i p) 12 = \<lparr>de_inode = p, rec_len = 500, de_name_len = 2, file_type = EXT2_FT_DIR\<rparr>"
  "new_dir_block m i p 9 = 0x2E" "new_dir_block m i p 21 = 0x2E" "new_dir_block m i p 22 = 0x2E"
proof -
  note unfolds = new_dir_block_def Let_def get_entry_name_def record_len_1 of_char_def
  show "get_directory_entry (new_dir_block m i p) 0 = \<lparr>de_inode = i, rec_len = 12, de_name_len = 1, file_type = EXT2_FT_DIR\<rparr>"
    "get_directory_entry (new_dir_block m i p) 12 = \<lparr>de_inode = p, rec_len = 500, de_name_len = 2, file_type = EXT2_FT_DIR\<rparr>"
    by (simp_all add: unfolds entry_upd dirent_other dirent_roundtrip)
  show "new_dir_block m i p 9 = 0x2E" "new_dir_block m i p 21 = 0x2E" "new_dir_block m i p 22 = 0x2E"
    by (simp_all add: unfolds put_directory_entry_def blit_outside)
qed

lemma new_dir_good:
  assumes "i \<noteq> 0" "p \<noteq> 0"
  shows "dir_entries (new_dir_block m i p) 0 = [([0x2E], i, EXT2_FT_DIR), ([0x2E, 0x2E], p, EXT2_FT_DIR)]"
    and "dir_good (new_dir_block m i p)"
proof -
  let ?d = "new_dir_block m i p"
  have len: "get_entry_record_len 2 = 12" by (simp add: word_unat_eq_iff unat_get_entry_record_len)
  have two: "[0..<2] = [0, 1 :: nat]" by (simp add: numeral_2_eq_2)
  have "dir_entries ?d 12 = [([0x2E, 0x2E], p, EXT2_FT_DIR)]"
    using assms by (subst dir_entries_step)
      (simp_all add: new_dir_entry next_off_def dir_entries_end entry_name_def entry_val_def two)
  then show e: "dir_entries ?d 0 = [([0x2E], i, EXT2_FT_DIR), ([0x2E, 0x2E], p, EXT2_FT_DIR)]"
    using assms by (subst dir_entries_step)
      (simp_all add: new_dir_entry next_off_def entry_name_def entry_val_def)
  have "chain_ok ?d 512" by (simp add: chain_ok.simps)
  then have "chain_ok ?d (next_off ?d 12)" by (simp only: next_off_def new_dir_entry) simp
  then have "chain_ok ?d 12"
    by (rule chain_okI [rotated 4]) (simp_all add: new_dir_entry own_len_def len)
  then have "chain_ok ?d (next_off ?d 0)" by (simp only: next_off_def new_dir_entry) simp
  then have "chain_ok ?d 0"
    by (rule chain_okI [rotated 4]) (simp_all add: new_dir_entry own_len_def record_len_1)
  then show "dir_good ?d" by (simp add: dir_good_def e)
qed

subsection \<open>Creation and the caches\<close>

text \<open>
  C8: on a disk without the signature, \<open>initialize_filesystem_ext2\<close> does not fault and leaves a
  well-formed file system: bitmaps and free counts agree, the metadata is marked, the caches are
  those written to the disk, and the only inode in use is the root directory's.
\<close>
theorem initialize_creates:
  assumes "length (bgdtCache st) = 8" "bg_block_bitmap (bgdtCache st ! 0) = 0"
    and "get16 (fs_disk st 0) 0 \<noteq> of2 (fs_signature ! 0) (fs_signature ! 1)"
  shows "ok (initialize_filesystem_ext2 st) (\<lambda>st'. fs_ok st' \<and> superBlock st' = create_superblock \<and>
    bgdtCache st' = map create_bgd [0..<8] \<and> node_of st' 1 = root_inode \<and>
    (\<forall>n\<in>{1..896}. inode_used st' n \<longleftrightarrow> n = 1) \<and>
    (\<forall>n<2048. block_used st' n \<longleftrightarrow> n < 22 \<or> 256 \<le> n \<and> n mod 256 < 18))"
  by (rule ok_mono [OF initialize_fresh [OF assms]]) (use created_used(3) in \<open>auto simp: created_used\<close>)

lemma initialize_creates_witness:
  "ok (initialize_filesystem_ext2 blank_fs) (\<lambda>st'. fs_ok st' \<and> superBlock st' = create_superblock \<and>
    bgdtCache st' = map create_bgd [0..<8] \<and> node_of st' 1 = root_inode \<and>
    (\<forall>n\<in>{1..896}. inode_used st' n \<longleftrightarrow> n = 1) \<and>
    (\<forall>n<2048. block_used st' n \<longleftrightarrow> n < 22 \<or> 256 \<le> n \<and> n mod 256 < 18))"
  by (rule initialize_creates [OF blank_bitmap(2,1,3)])

text \<open>
  the root directory of a fresh file system lists itself under both of its names.
\<close>
theorem initialize_root:
  assumes "length (bgdtCache st) = 8" "bg_block_bitmap (bgdtCache st ! 0) = 0"
    and "get16 (fs_disk st 0) 0 \<noteq> of2 (fs_signature ! 0) (fs_signature ! 1)"
  shows "ok (initialize_filesystem_ext2 st) (\<lambda>st'. dir_good (fs_disk st' 21) \<and>
    dir_map (fs_disk st' 21) = [[0x2E] \<mapsto> (1, EXT2_FT_DIR), [0x2E, 0x2E] \<mapsto> (1, EXT2_FT_DIR)])"
proof (rule ok_mono [OF initialize_fresh [OF assms]], elim conjE)
  fix st'
  assume "created st'"
  then have same: "a < 512 \<Longrightarrow> fs_disk st' 21 a = new_dir_block (\<lambda>_. 0) 1 1 a" for a
    by (simp add: created_def holds_def)
  note good = new_dir_good [of 1 1 "\<lambda>_. 0"]
  show "dir_good (fs_disk st' 21) \<and> dir_map (fs_disk st' 21) = [[0x2E] \<mapsto> (1, EXT2_FT_DIR), [0x2E, 0x2E] \<mapsto> (1, EXT2_FT_DIR)]"
    using dir_good_cong [OF good(2) same] good(1) by (auto simp: dir_map_def)
qed

lemma initialize_root_witness:
  "ok (initialize_filesystem_ext2 blank_fs) (\<lambda>st'. dir_good (fs_disk st' 21) \<and>
    dir_map (fs_disk st' 21) = [[0x2E] \<mapsto> (1, EXT2_FT_DIR), [0x2E, 0x2E] \<mapsto> (1, EXT2_FT_DIR)])"
  by (rule initialize_root [OF blank_bitmap(2,1,3)])

text \<open>
  what \<open>sync_metadata\<close> writes is what the loading half of \<open>initialize_filesystem_ext2\<close> reads,
  whatever the caches held in between.
\<close>
theorem sync_then_load:
  assumes "length (bgdtCache st) = 8"
  shows "(sync_metadata st \<bind> (\<lambda>st'. load_metadata (st'\<lparr>superBlock := sb, bgdtCache := table\<rparr>)))
     = sync_metadata st"
  by (rule load_after_sync [OF assms])

lemma sync_then_load_witness:
  "(sync_metadata blank_fs \<bind> (\<lambda>st'. load_metadata (st'\<lparr>superBlock := create_superblock, bgdtCache := []\<rparr>)))
     = sync_metadata blank_fs"
  by (rule sync_then_load) (simp add: blank_fs_def)

subsection \<open>Allocation\<close>

text \<open>
  C20: the search that \<open>init_directory_table\<close> and \<open>allocate_node_blocks\<close> write out over groups,
  bytes and bits never faults; it takes the first free block from the preferred group on, marks
  it and lowers the two free counts, and changes nothing when there is none.
\<close>
theorem alloc_first_free:
  assumes "fs_ok st"
  shows "alloc_block st pref =
    Some (case List.find (\<lambda>n. \<not> block_used st n) [256 * unat pref..<2048] of
       None \<Rightarrow> (None, st) | Some n \<Rightarrow> (Some (of_nat n), take_block st n))"
  by (rule alloc_block_eq [OF assms])

lemma alloc_first_free_witness:
  "fs_ok fresh_fs \<and> alloc_block fresh_fs 0 =
    Some (case List.find (\<lambda>n. \<not> block_used fresh_fs n) [256 * unat (0 :: u32)..<2048] of
       None \<Rightarrow> (None, fresh_fs) | Some n \<Rightarrow> (Some (of_nat n), take_block fresh_fs n))"
  using fresh_ok alloc_first_free [OF fresh_ok, of 0] by (rule conjI)

text \<open>
  a block that was just allocated and is freed again leaves the state as it was: bitmap,
  descriptor counts and superblock.
\<close>
theorem alloc_free_block:
  assumes "fs_ok st" "alloc_block st pref = Some (Some b, st')"
  shows "free_block st' b = Some st"
proof -
  from assms(2) obtain n where n: "List.find (\<lambda>n. \<not> block_used st n) [256 * unat pref..<2048] = Some n"
      "b = of_nat n" "st' = take_block st n"
    unfolding alloc_block_eq [OF assms(1)] by (auto split: option.splits)
  then have free: "n < 2048" "\<not> block_used st n" using find_upt_SomeD by blast+
  then have "fs_ok st'" and "unat b = n"
    using n inv_take_block [OF assms(1)] by (simp_all add: unat_of_nat_block)
  then show ?thesis
    using free n(3) release_take_block [OF assms(1) free] by (simp add: free_block_eq)
qed

lemma alloc_free_block_witness: "free_block (take_block fresh_fs 22) 22 = Some fresh_fs"
  by (rule alloc_free_block [OF fresh_ok fresh_alloc])

text \<open>
  blocks handed out one after the other are pairwise different, were all free, lie in the
  searched groups and are the only ones whose marks change, and the invariant of bitmaps and
  counts holds at the end.
\<close>
theorem blocks_handed_out:
  assumes "fs_ok st" "allocs (next_block pref) k st = Some (ns, st')"
  shows "fs_ok st' \<and> distinct ns \<and> set ns \<subseteq> {256 * unat pref..<2048} \<and> (\<forall>n\<in>set ns. \<not> block_used st n) \<and>
    (\<forall>m\<in>{..<2048}. block_used st' m \<longleftrightarrow> block_used st m \<or> m \<in> set ns)"
  by (rule block_alloc.allocs_fresh [OF assms])

lemma blocks_handed_out_witness:
  "\<exists>ns st'. allocs (next_block 1) 3 fresh_fs = Some (ns, st') \<and> fs_ok st' \<and> distinct ns \<and>
    set ns \<subseteq> {256 * unat (1 :: u32)..<2048} \<and> (\<forall>n\<in>set ns. \<not> block_used fresh_fs n) \<and>
    (\<forall>m\<in>{..<2048}. block_used st' m \<longleftrightarrow> block_used fresh_fs m \<or> m \<in> set ns)"
proof -
  obtain ns st' where run: "allocs (next_block 1) 3 fresh_fs = Some (ns, st')"
    using block_alloc.allocs_total [OF fresh_ok] by blast
  with blocks_handed_out [OF fresh_ok run] show ?thesis by blast
qed

text \<open>
  allocation is not premature: a run of allocations that ends early has used every block it
  searches.
\<close>
theorem blocks_run_out:
  assumes "fs_ok st"
  shows "ok (allocs (next_block pref) k st) (\<lambda>(ns, st'). length ns < k \<longrightarrow>
    (\<forall>m\<in>{256 * unat pref..<2048}. block_used st' m))"
proof -
  obtain ns st' where run: "allocs (next_block pref) k st = Some (ns, st')"
    using block_alloc.allocs_total [OF assms] by blast
  with block_alloc.allocs_short [OF assms run] show ?thesis by simp
qed

lemma blocks_run_out_witness:
  "ok (allocs (next_block 7) 300 fresh_fs) (\<lambda>(ns, st'). length ns < 300 \<longrightarrow>
    (\<forall>m\<in>{256 * unat (7 :: u32)..<2048}. block_used st' m))"
  by (rule blocks_run_out [OF fresh_ok])

text \<open>
  \<open>allocate_node\<close> returns the first free inode number and marks it, and 0 with the state
  unchanged only when all 896 are in use.
\<close>
theorem allocate_node_first:
  assumes "fs_ok st"
  shows "ok (allocate_node st) (\<lambda>(n, st'). fs_ok st' \<and>
    (if n = 0 then st' = st \<and> (\<forall>m\<in>{1..896}. inode_used st m)
     else unat n \<le> 896 \<and> \<not> inode_used st (unat n) \<and> (\<forall>m\<in>{1..<unat n}. inode_used st m) \<and>
       (\<forall>m\<in>{1..896}. inode_used st' m \<longleftrightarrow> inode_used st m \<or> m = unat n)))"
proof (cases "List.find (\<lambda>n. \<not> inode_used st n) [1..<897]")
  case None
  with assms find_upt_NoneD [OF this] show ?thesis by (auto simp: allocate_node_eq)
next
  case (Some n)
  note n = find_upt_SomeD [OF Some]
  moreover from n have "unat (of_nat n :: u32) = n" "of_nat n \<noteq> (0 :: u32)"
    using of_nat_u32_eq_iff [of n 0] by (simp_all add: unat_of_nat_block)
  ultimately show ?thesis
    using Some assms by (auto simp: allocate_node_eq inv_synced inv_take_inode used_take_inode)
qed

lemma allocate_node_first_witness:
  "ok (allocate_node fresh_fs) (\<lambda>(n, st'). fs_ok st' \<and>
    (if n = 0 then st' = fresh_fs \<and> (\<forall>m\<in>{1..896}. inode_used fresh_fs m)
     else unat n \<le> 896 \<and> \<not> inode_used fresh_fs (unat n) \<and> (\<forall>m\<in>{1..<unat n}. inode_used fresh_fs m) \<and>
       (\<forall>m\<in>{1..896}. inode_used st' m \<longleftrightarrow> inode_used fresh_fs m \<or> m = unat n)))"
  by (rule allocate_node_first [OF fresh_ok])

text \<open>
  the copy of the block search in \<open>write\<close>, which has no flag and stops on a non-zero number,
  finds the same block and makes the same state as the search of \<open>allocate_node_blocks\<close>.
\<close>
theorem newblock_same:
  assumes "fs_ok st"
  shows "alloc_newblock st pref = do {(r, st') \<leftarrow> alloc_block st pref;
     Some (case r of Some b \<Rightarrow> b | None \<Rightarrow> 0, st')}"
  by (rule alloc_newblock_eq [OF assms])

lemma newblock_same_witness: "alloc_newblock fresh_fs 0 = Some (22, take_block fresh_fs 22)"
  unfolding newblock_same [OF fresh_ok, of 0] fresh_alloc by simp

text \<open>
  the byte-wise search of a bitmap, which skips full bytes and stops at the end of the group,
  is the search for the first clear bit.
\<close>
theorem bitmap_search:
  assumes "limit \<le> 4096"
  shows "map_option (\<lambda>(b, k). b * 8 + k) (find_free_bit bmp limit) =
     List.find (\<lambda>i. \<not> bit_used bmp i) [0..<limit]"
  by (rule find_free_bit_find [OF assms])

lemma bitmap_search_witness: "map_option (\<lambda>(b, k). b * 8 + k) (find_free_bit (\<lambda>_. 0xFF) 16) = None"
proof -
  have "map_option (\<lambda>(b, k). b * 8 + k) (find_free_bit (\<lambda>_. 0xFF) 16) =
      List.find (\<lambda>i. \<not> bit_used (\<lambda>_. 0xFF) i) [0..<16]"
    by (rule bitmap_search) simp
  also have "\<dots> = None"
  proof -
    have "bit_used (\<lambda>_. 0xFF) i" for i
      using bit_used_full [of "\<lambda>_. 0xFF" "i div 8" "i mod 8"] by simp
    then show ?thesis by (simp only: find_None_iff not_not simp_thms)
  qed
  finally show ?thesis .
qed


subsection \<open>Inodes and file data\<close>

text \<open>
  \<open>sync_node\<close> keeps the invariant; afterwards the inode number reads as the new inode and
  every other inode number as before, although seven inodes share a block.
\<close>
theorem sync_node_read_back:
  assumes "fs_ok st" "0 < inode" "unat inode \<le> 896" "length (i_block node) = 15"
  shows "ok (sync_node st node inode) (\<lambda>st'. fs_ok st' \<and>
    (\<forall>j. 0 < j \<and> unat j \<le> 896 \<longrightarrow>
      map_option snd (load_inode st' j) = (if j = inode then Some node else map_option snd (load_inode st j))))"
proof -
  have ok: "fs_ok (put_node st (unat inode) node)" by (rule inv_put_node [OF assms(1,3)])
  have "map_option snd (load_inode (put_node st (unat inode) node) j) =
      (if j = inode then Some node else map_option snd (load_inode st j))"
    if "0 < j" "unat j \<le> 896" for j
    using node_of_put_node [of "unat inode" "unat j" node st] assms that
    by (simp add: load_inode_eq ok word_less_nat_alt word_unat_eq_iff [of j inode])
  with ok assms show ?thesis by (simp add: sync_node_eq)
qed

lemma sync_node_read_back_witness:
  "ok (sync_node fresh_fs root_inode 5) (\<lambda>st'. fs_ok st' \<and>
    (\<forall>j. 0 < j \<and> unat j \<le> 896 \<longrightarrow>
      map_option snd (load_inode st' j) = (if j = 5 then Some root_inode else map_option snd (load_inode fresh_fs j))))"
  by (rule sync_node_read_back [OF fresh_ok]) (simp_all add: root_inode_def)

text \<open>
  C22: \<open>allocate_node_blocks\<close> is safe for a file of any size and any amount of free space: no
  fault, the invariant is kept, the mode, size and block count of the inode stay, every block it
  marks was free, and it writes to no other block than those, the block bitmaps and blocks 1, 2.
\<close>
theorem allocate_blocks_safe:
  assumes "fs_ok st" "length (i_block node) = 15"
  shows "ok (allocate_node_blocks st data node pref) (\<lambda>(node', st'). fs_ok st' \<and>
    i_mode node' = i_mode node \<and> i_size node' = i_size node \<and> i_blocks node' = i_blocks node \<and>
    (\<exists>S. (\<forall>n\<in>S. n < 2048 \<and> \<not> block_used st n) \<and>
      (\<forall>n<2048. block_used st' n \<longleftrightarrow> block_used st n \<or> n \<in> S) \<and>
      (\<forall>n<8192. n \<notin> S \<and> (\<forall>g. n \<noteq> bbm g) \<and> n \<noteq> 1 \<and> n \<noteq> 2 \<longrightarrow>
        fs_disk st' (of_nat n) = fs_disk st (of_nat n))))"
proof (rule ok_mono [OF allocate_node_blocks_grows [OF assms]], clarify, intro conjI)
  fix node' st' S
  assume *: "same_head node node'" "grows st st' S"
  then show "fs_ok st'" "i_mode node' = i_mode node" "i_size node' = i_size node" "i_blocks node' = i_blocks node"
    by (simp_all add: same_head_def grows_ok)
  show "\<exists>S. (\<forall>n\<in>S. n < 2048 \<and> \<not> block_used st n) \<and>
      (\<forall>n<2048. block_used st' n \<longleftrightarrow> block_used st n \<or> n \<in> S) \<and>
      (\<forall>n<8192. n \<notin> S \<and> (\<forall>g. n \<noteq> bbm g) \<and> n \<noteq> 1 \<and> n \<noteq> 2 \<longrightarrow>
        fs_disk st' (of_nat n) = fs_disk st (of_nat n))"
    using *(2) unfolding grows_def by (intro exI [of _ S]) blast
qed

lemma allocate_blocks_safe_witness:
  "ok (allocate_node_blocks fresh_fs (\<lambda>_. 7) (root_inode\<lparr>i_blocks := 5000\<rparr>) 0) (\<lambda>(node', st'). fs_ok st' \<and>
    i_mode node' = EXT2_S_IFDIR \<and> i_size node' = 512 \<and> i_blocks node' = 5000 \<and>
    (\<exists>S. (\<forall>n\<in>S. n < 2048 \<and> \<not> block_used fresh_fs n) \<and>
      (\<forall>n<2048. block_used st' n \<longleftrightarrow> block_used fresh_fs n \<or> n \<in> S) \<and>
      (\<forall>n<8192. n \<notin> S \<and> (\<forall>g. n \<noteq> bbm g) \<and> n \<noteq> 1 \<and> n \<noteq> 2 \<longrightarrow>
        fs_disk st' (of_nat n) = fs_disk fresh_fs (of_nat n))))"
  using allocate_blocks_safe [OF fresh_ok, of "root_inode\<lparr>i_blocks := 5000\<rparr>" "\<lambda>_. 7" 0]
  by (simp add: root_inode_def)

text \<open>
  C21: a file of at most 140 blocks (the direct blocks and one block of pointers) is stored
  completely when the groups searched have room for it: each of its blocks is reached from the
  inode and holds its 512 bytes of the data, the last one padded with zeros.
\<close>
theorem allocate_blocks_store:
  assumes "fs_ok st" "length (i_block node) = 15" "unat (i_blocks node) \<le> 140"
    and "unat (i_blocks node) + (if 12 < unat (i_blocks node) then 1 else 0) \<le> card (room pref st)"
  shows "ok (allocate_node_blocks st data node pref) (\<lambda>(node', st'). \<forall>k<unat (i_blocks node).
    holds st' (unat (file_block st' node' k))
      (data_block (uninit st) data (i_size node) (unat (i_blocks node)) k))"
proof (rule ok_mono [OF allocate_node_blocks_stores [OF assms]], clarify)
  fix node' st' S k
  assume *: "same_head node node'" "grows st st' S" "stored st' node' data S" "k < unat (i_blocks node)"
  then obtain n where n: "n \<in> S" "file_block st' node' k = of_nat n"
      "holds st' n (data_block (uninit st) data (i_size node) (unat (i_blocks node)) k)"
    unfolding stored_def same_head_def by (auto simp: grows_ok(2))
  moreover have "n < 8192" using grows_new [OF *(2) n(1)] by simp
  ultimately show "holds st' (unat (file_block st' node' k)) (data_block (uninit st) data (i_size node) (unat (i_blocks node)) k)"
    by (simp add: unat_of_nat_block)
qed

lemma fresh_room: "card (room 7 fresh_fs) = 238"
proof -
  have "room 7 fresh_fs = {1810..<2048}"
  proof (rule set_eqI)
    fix n :: nat
    show "n \<in> room 7 fresh_fs \<longleftrightarrow> n \<in> {1810..<2048}"
    proof (cases "1792 \<le> n \<and> n < 2048")
      case True
      then have "n - 1792 < 256" "256 * 7 + (n - 1792) = n" by arith+
      then have "n mod 256 = n - 1792" using mult_add_mod [of "n - 1792" 256 7] by simp
      moreover have "block_used fresh_fs n \<longleftrightarrow> n < 22 \<or> 256 \<le> n \<and> n mod 256 < 18"
        by (rule fresh_used(1)) (use True in simp)
      ultimately have "block_used fresh_fs n \<longleftrightarrow> n < 1810" using True by (simp only:) auto
      moreover have "256 * unat (7 :: u32) = 1792" by simp
      ultimately show ?thesis using True by (simp only: room_def mem_Collect_eq atLeastLessThan_iff) linarith
    qed (auto simp: room_def)
  qed
  then show ?thesis by simp
qed

definition sample_node :: inode where
  "sample_node = \<lparr>i_mode = EXT2_S_IFREG, i_size = 51000, i_blocks = 100, i_block = replicate 15 0\<rparr>"

lemma sample_node: "length (i_block sample_node) = 15" "unat (i_blocks sample_node) = 100"
  by (simp_all add: sample_node_def)

lemma allocate_blocks_store_witness:
  "ok (allocate_node_blocks fresh_fs (\<lambda>_. 7) sample_node 7) (\<lambda>(node', st'). \<forall>k<unat (i_blocks sample_node).
    holds st' (unat (file_block st' node' k))
      (data_block (uninit fresh_fs) (\<lambda>_. 7) (i_size sample_node) (unat (i_blocks sample_node)) k))"
proof (rule allocate_blocks_store [OF fresh_ok sample_node(1)])
  show "unat (i_blocks sample_node) \<le> 140" unfolding sample_node by simp
  show "unat (i_blocks sample_node) + (if 12 < unat (i_blocks sample_node) then 1 else 0) \<le> card (room 7 fresh_fs)"
    unfolding sample_node fresh_room by simp
qed

text \<open>
  C23: \<open>deallocate_node\<close> gives back exactly what the inode held, for a file of any size whose blocks of
  pointers are there: its data blocks, the indirect block, the doubly indirect block with the blocks it
  points to, and the inode itself. Every other block and inode keeps its mark and its contents, and the
  invariant holds again.
\<close>
theorem deallocate_node_exact:
  assumes "fs_ok st" "0 < ino" "unat ino \<le> 896" "inode_used st (unat ino)"
    and "freeable st (held_ids st (node_of st (unat ino)))" "pointers_there st (node_of st (unat ino))"
  shows "ok (deallocate_node st ino) (\<lambda>st'. fs_ok st' \<and>
    (\<forall>n<2048. block_used st' n \<longleftrightarrow> block_used st n \<and> n \<notin> unat ` set (held_ids st (node_of st (unat ino)))) \<and>
    (\<forall>n\<in>{1..896}. inode_used st' n \<longleftrightarrow> inode_used st n \<and> n \<noteq> unat ino) \<and>
    (\<forall>n\<in>{1..896}. node_of st' n = (if n = unat ino then zero_inode else node_of st n)) \<and>
    (\<forall>n<8192. \<not> reserved n \<longrightarrow> fs_disk st' (of_nat n) = fs_disk st (of_nat n)))"
  by (rule ok_mono [OF deallocate_node_spec [OF assms(1-4) refl assms(5,6)]]) (simp add: node_gone_def)

lemma fresh_root: "node_of fresh_fs (unat (1 :: u32)) = root_inode"
  using created_used(3) [OF fresh_created] by simp

lemma fresh_root_ids: "used_ids fresh_fs root_inode = [21]" "unat (i_blocks root_inode) = 1"
  by (simp_all add: used_ids_def file_ids_def root_inode_def Let_def)

lemma fresh_root_held: "held_ids fresh_fs root_inode = [21]" "pointers_there fresh_fs root_inode"
  using held_used [of root_inode fresh_fs] fresh_root_ids by simp_all

lemma deallocate_node_exact_witness:
  "ok (deallocate_node fresh_fs 1) (\<lambda>st'. fs_ok st' \<and>
    (\<forall>n<2048. block_used st' n \<longleftrightarrow> block_used fresh_fs n \<and> n \<notin> unat ` set (held_ids fresh_fs (node_of fresh_fs (unat (1 :: u32))))) \<and>
    (\<forall>n\<in>{1..896}. inode_used st' n \<longleftrightarrow> inode_used fresh_fs n \<and> n \<noteq> unat (1 :: u32)) \<and>
    (\<forall>n\<in>{1..896}. node_of st' n = (if n = unat (1 :: u32) then zero_inode else node_of fresh_fs n)) \<and>
    (\<forall>n<8192. \<not> reserved n \<longrightarrow> fs_disk st' (of_nat n) = fs_disk fresh_fs (of_nat n)))"
proof (rule deallocate_node_exact [OF fresh_ok])
  show "inode_used fresh_fs (unat (1 :: u32))" using fresh_used(2) [of 1] by simp
  show "freeable fresh_fs (held_ids fresh_fs (node_of fresh_fs (unat (1 :: u32))))"
    unfolding fresh_root fresh_root_held using fresh_used(1) [of 21] by (simp add: freeable_def reserved_def)
  show "pointers_there fresh_fs (node_of fresh_fs (unat (1 :: u32)))" unfolding fresh_root by (rule fresh_root_held(2))
qed simp_all

subsection \<open>Directory blocks\<close>

text \<open>
  the scan for a name that \<open>read\<close>, \<open>read_directory\<close> and \<open>get_inode_for_path\<close> write out is
  the lookup in the map of names of the block, for any bytes in the block.
\<close>
theorem scan_is_lookup:
  "map_option (\<lambda>off. (de_inode (get_directory_entry d off), file_type (get_directory_entry d off)))
     (scan_find d name len 0) = dir_map d (bytes_of name (unat len))"
  using scan_find_lookup [of d name len 0] unfolding dir_map_def entry_val_def .

lemma insert_entry_adds:
  assumes "dir_good d" "ino \<noteq> 0" "dir_map d (bytes_of name (unat len)) = None"
    and "scan_slot d name len (get_entry_record_len len) 0 = Hole off"
  shows "dir_good (insert_entry d off ino ft name len) \<and>
    dir_map (insert_entry d off ino ft name len) = (dir_map d)(bytes_of name (unat len) \<mapsto> (ino, ft))"
proof -
  let ?n = "bytes_of name (unat len)" and ?d = "insert_entry d off ino ft name len"
  have chain: "chain_ok d 0" and dist: "distinct (map fst (dir_entries d 0))"
    using assms(1) by (simp_all add: dir_good_def)
  from scan_slot_insert [OF assms(4) refl chain assms(2), of ft] obtain pre suf where
    l: "chain_ok ?d 0" "dir_entries d 0 = pre @ (entry_name d off, entry_val d off) # suf"
      "dir_entries ?d 0 = pre @ (entry_name d off, entry_val d off) # (?n, ino, ft) # suf" by blast
  have "?n \<notin> fst ` set (dir_entries d 0)"
    using assms(3) by (simp add: dir_map_def map_of_eq_None_iff)
  then have "distinct (map fst (dir_entries ?d 0))" using dist unfolding l by auto
  then show ?thesis using l(1) dir_map_insert [OF assms(4) chain assms(2)] by (simp add: dir_good_def)
qed

text \<open>
  where the scan of \<open>write\<close> finds a hole, the insertion keeps the block a well-formed chain
  and adds exactly the binding of the new name.
\<close>
theorem insert_adds_name:
  assumes "dir_good d" "ino \<noteq> 0" "dir_map d (bytes_of name (unat len)) = None"
    and "scan_slot d name len (get_entry_record_len len) 0 = Hole off"
  shows "dir_good (insert_entry d off ino ft name len) \<and>
    dir_map (insert_entry d off ino ft name len) = (dir_map d)(bytes_of name (unat len) \<mapsto> (ino, ft))"
  by (rule insert_entry_adds [OF assms])

text \<open>A new directory has room for any name but its own two.\<close>

lemma scan_slot_new:
  assumes "bytes_of name (unat len) \<notin> {[0x2E], [0x2E, 0x2E]}"
  shows "scan_slot (new_dir_block m i p) name len (get_entry_record_len len) 0 =
    (if p = 0 then NoSlot else Hole 12)"
proof -
  let ?d = "new_dir_block m i p"
  have two: "[0..<2] = [0, 1 :: nat]" by (simp add: numeral_2_eq_2)
  have names: "entry_name ?d 0 = [0x2E]" "entry_name ?d 12 = [0x2E, 0x2E]"
    by (simp_all add: entry_name_def new_dir_entry two)
  have no: "\<not> entry_is ?d 0 name len" "\<not> entry_is ?d 12 name len"
    using assms by (auto simp: entry_is_iff names)
  have len2: "get_entry_record_len 2 = 12" by (simp add: word_unat_eq_iff unat_get_entry_record_len)
  have need: "get_entry_record_len len \<le> 488"
    using unat_u8_less [of len] by (simp add: word_le_nat_alt unat_get_entry_record_len)
  have "scan_slot ?d name len (get_entry_record_len len) 12 = (if p = 0 then NoSlot else Hole 12)"
    using no need by (subst scan_slot.simps) (simp add: new_dir_entry len2 scan_slot.simps [of _ _ _ _ 512])
  then show ?thesis
    using no by (subst scan_slot.simps) (simp add: new_dir_entry record_len_1)
qed

lemma insert_adds_name_witness:
  "dir_map (insert_entry (new_dir_block (\<lambda>_. 0) 1 1) 12 2 EXT2_FT_REG_FILE (\<lambda>_. 0x61) 1) [0x61] = Some (2, EXT2_FT_REG_FILE)"
proof -
  let ?d = "new_dir_block (\<lambda>_. 0) 1 1"
  have n: "bytes_of (\<lambda>_. 0x61) (Suc 0) = [0x61]" by (simp add: bytes_of_def)
  have "dir_map ?d [0x61] = None" by (simp add: dir_map_def new_dir_good)
  then show ?thesis
    using insert_adds_name [of ?d 2 "\<lambda>_. 0x61" 1 12 EXT2_FT_REG_FILE] scan_slot_new [of "\<lambda>_. 0x61" 1] new_dir_good(2)
    by (simp add: n)
qed

text \<open>
  the scan and the removal of \<open>delete\<close>: the scan fails exactly when the name is not bound;
  otherwise the removal keeps the chain well-formed and takes exactly that binding away, also
  when the entry is the first one of the block.
\<close>
theorem remove_deletes_name:
  assumes "dir_good d" "length n < 256"
  shows "case scan_del d (name_mem n) (of_nat (length n)) None 0 of
      None \<Rightarrow> dir_map d n = None
    | Some (prev, off) \<Rightarrow> dir_map d n = Some (entry_val d off) \<and> dir_good (remove_entry d prev off) \<and>
        dir_map (remove_entry d prev off) = (dir_map d)(n := None)"
proof (cases "scan_del d (name_mem n) (of_nat (length n)) None 0")
  case None
  then have "block_del n d = None" using assms(2) by (simp add: block_del_def)
  with None show ?thesis using dir.del_fails [OF assms(1)] by simp
next
  case (Some r)
  obtain prev off where r: "r = (prev, off)" by force
  have del: "block_del n d = Some (remove_entry d prev off)" using Some assms(2) by (simp add: block_del_def r)
  have chain: "chain_ok d 0" and dist: "distinct (map fst (dir_entries d 0))"
    using assms(1) by (simp_all add: dir_good_def)
  from dir_remove(2) [OF Some [unfolded r] chain] obtain pre suf where
    "dir_entries d 0 = pre @ (n, entry_val d off) # suf" "n \<notin> fst ` set pre"
    unfolding bytes_name_mem [OF assms(2)] by blast
  then have "dir_map d n = Some (entry_val d off)" unfolding dir_map_def by (simp add: map_add_Some_iff map_of_eq_None_iff)
  then show ?thesis unfolding Some r using dir.del_good [OF assms(1) del] by simp
qed

lemma remove_deletes_name_witness:
  "dir_map (new_dir_block (\<lambda>_. 0) 1 1) [0x61] = None \<and>
    (case scan_del (new_dir_block (\<lambda>_. 0) 1 1) (name_mem [0x2E]) (of_nat (length [0x2E :: u8])) None 0 of
      None \<Rightarrow> dir_map (new_dir_block (\<lambda>_. 0) 1 1) [0x2E] = None
    | Some (prev, off) \<Rightarrow> dir_map (new_dir_block (\<lambda>_. 0) 1 1) [0x2E] = Some (entry_val (new_dir_block (\<lambda>_. 0) 1 1) off) \<and>
        dir_good (remove_entry (new_dir_block (\<lambda>_. 0) 1 1) prev off) \<and>
        dir_map (remove_entry (new_dir_block (\<lambda>_. 0) 1 1) prev off) = (dir_map (new_dir_block (\<lambda>_. 0) 1 1))([0x2E] := None))"
  by (intro conjI remove_deletes_name new_dir_good) (simp_all add: dir_map_def new_dir_good)

text \<open>
  adding a name to a directory block and removing it again gives back the same map of names.
\<close>
theorem add_then_delete:
  assumes "dir_good d" "ino \<noteq> 0" "dir_map d n = None" "block_add n (ino, ft) d = Some d1"
  shows "\<exists>d2. block_del n d1 = Some d2 \<and> dir_good d2 \<and> dir_map d2 = dir_map d"
  using dir.add_del [OF assms(1) _ assms(3,4)] assms(2) by simp

lemma add_then_delete_witness:
  "\<exists>d1 d2. block_add [0x61] (2, EXT2_FT_REG_FILE) (new_dir_block (\<lambda>_. 0) 1 1) = Some d1 \<and> block_del [0x61] d1 = Some d2 \<and>
    dir_good d2 \<and> dir_map d2 = dir_map (new_dir_block (\<lambda>_. 0) 1 1)"
proof -
  let ?d = "new_dir_block (\<lambda>_. 0) 1 1"
  have n: "bytes_of (name_mem [0x61]) (unat (1 :: u8)) = [0x61]" using bytes_name_mem [of "[0x61]"] by simp
  have "block_add [0x61] (2, EXT2_FT_REG_FILE) ?d = Some (insert_entry ?d 12 2 EXT2_FT_REG_FILE (name_mem [0x61]) 1)"
    using scan_slot_new [of "name_mem [0x61]" 1 "\<lambda>_. 0" 1 1] n by (simp add: block_add_def)
  from add_then_delete [OF _ _ _ this] this show ?thesis by (simp add: new_dir_good) (simp add: dir_map_def new_dir_good)
qed


end
