(* ===== verification/Paging.thy ===== *)
theory Paging
  imports Prelude
begin

section \<open>Page directories and page frames: \<open>memory/paging.c\<close>\<close>

text \<open>
  The page manager: which of the 32 physical frames of 4 MiB are in use, the 32 page directories
  user processes can have and which of them are taken, and the kernel's own directory. A pointer
  to a page directory is \<open>NULL\<close>, the kernel's directory, or an element of the list; writing
  through \<open>NULL\<close> and indexing outside an array are faults. The TLB flush has no
  effect on this state.
\<close>

subsection \<open>Structures\<close>

record pde_flag =
  present_bit :: bool
  write_bit :: bool
  user_supervisor :: bool
  pwt :: bool
  pcd :: bool
  accessed :: bool
  dirty :: bool
  use_pagesize_4_mb :: bool

record pde =
  pde_flag :: pde_flag
  global_page :: bool
  ignored :: "3 word"
  pat :: bool
  higher_address :: u8
  reserved_2 :: bool
  lower_address :: "10 word"

definition PAGE_ENTRY_COUNT :: nat where "PAGE_ENTRY_COUNT = 1024"
definition PAGE_FRAME_SIZE :: u32 where "PAGE_FRAME_SIZE = push_bit (2 + 10 + 10) 1"
definition SYSTEM_MEMORY_MB :: u32 where "SYSTEM_MEMORY_MB = 128"
definition PAGE_FRAME_MAX_COUNT :: nat where
  "PAGE_FRAME_MAX_COUNT = unat (push_bit 20 SYSTEM_MEMORY_MB div PAGE_FRAME_SIZE)"
definition PAGING_DIRECTORY_TABLE_MAX_COUNT :: nat where "PAGING_DIRECTORY_TABLE_MAX_COUNT = 32"

lemma paging_consts [simp]:
  "PAGE_ENTRY_COUNT = 1024" "PAGE_FRAME_SIZE = 4194304" "PAGE_FRAME_MAX_COUNT = 32"
  "PAGING_DIRECTORY_TABLE_MAX_COUNT = 32"
  by (simp_all add: PAGE_ENTRY_COUNT_def PAGE_FRAME_SIZE_def PAGE_FRAME_MAX_COUNT_def
      SYSTEM_MEMORY_MB_def PAGING_DIRECTORY_TABLE_MAX_COUNT_def push_bit_eq_mult)

datatype pd_ptr = PD_NULL | PD_KERNEL | PD nat

record paging =
  page_frame_map :: "bool list"
  free_page_frame_count :: u32
  kernel_directory :: "pde list"
  page_directory_list :: "pde list list"
  page_directory_used :: "bool list"

definition no_flag :: pde_flag where
  "no_flag = \<lparr>present_bit = False, write_bit = False, user_supervisor = False, pwt = False, pcd = False,
     accessed = False, dirty = False, use_pagesize_4_mb = False\<rparr>"

definition empty_pde :: pde where
  "empty_pde = \<lparr>pde_flag = no_flag, global_page = False, ignored = 0, pat = False, higher_address = 0,
     reserved_2 = False, lower_address = 0\<rparr>"

definition kernel_flag :: pde_flag where
  "kernel_flag = no_flag\<lparr>present_bit := True, write_bit := True, use_pagesize_4_mb := True\<rparr>"

definition user_flag :: pde_flag where
  "user_flag = kernel_flag\<lparr>user_supervisor := True\<rparr>"

text \<open>The kernel maps its first frame at 0 and at the higher half; frame 0 is never given away.\<close>

definition paging_kernel_page_directory :: "pde list" where
  "paging_kernel_page_directory =
     (replicate PAGE_ENTRY_COUNT empty_pde)
       [0 := empty_pde\<lparr>pde_flag := kernel_flag\<rparr>, 0x300 := empty_pde\<lparr>pde_flag := kernel_flag\<rparr>]"

definition paging_init :: paging where
  "paging_init =
     \<lparr> page_frame_map = True # replicate (PAGE_FRAME_MAX_COUNT - 1) False,
       free_page_frame_count = of_nat (PAGE_FRAME_MAX_COUNT - 1),
       kernel_directory = paging_kernel_page_directory,
       page_directory_list = replicate PAGING_DIRECTORY_TABLE_MAX_COUNT (replicate PAGE_ENTRY_COUNT empty_pde),
       page_directory_used = replicate PAGING_DIRECTORY_TABLE_MAX_COUNT False \<rparr>"

subsection \<open>Operations\<close>

text \<open>Access through a pointer to a page directory.\<close>

definition get_dir :: "paging \<Rightarrow> pd_ptr \<Rightarrow> pde list option" where
  "get_dir s p =
     (case p of PD_NULL \<Rightarrow> None | PD_KERNEL \<Rightarrow> Some (kernel_directory s) | PD i \<Rightarrow> arr_get (page_directory_list s) i)"

definition put_dir :: "paging \<Rightarrow> pd_ptr \<Rightarrow> pde list \<Rightarrow> paging option" where
  "put_dir s p d =
     (case p of
        PD_NULL \<Rightarrow> None
      | PD_KERNEL \<Rightarrow> Some (s\<lparr>kernel_directory := d\<rparr>)
      | PD i \<Rightarrow> do { ds \<leftarrow> arr_put (page_directory_list s) i d; Some (s\<lparr>page_directory_list := ds\<rparr>) })"

definition page_index :: "u32 \<Rightarrow> nat" where
  "page_index virtual_addr = unat (drop_bit 22 virtual_addr AND 0x3FF)"

definition update_page_directory_entry :: "paging \<Rightarrow> pd_ptr \<Rightarrow> u32 \<Rightarrow> u32 \<Rightarrow> pde_flag \<Rightarrow> paging option" where
  "update_page_directory_entry s page_dir physical_addr virtual_addr flag = do {
     dir \<leftarrow> get_dir s page_dir;
     e \<leftarrow> arr_get dir (page_index virtual_addr);
     dir \<leftarrow> arr_put dir (page_index virtual_addr)
       (e\<lparr>pde_flag := flag, lower_address := ucast (drop_bit 22 physical_addr AND 0x3FF)\<rparr>);
     put_dir s page_dir dir
   }"

text \<open>The sum of the test is 32 bits wide.\<close>

definition paging_allocate_check :: "paging \<Rightarrow> u32 \<Rightarrow> bool" where
  "paging_allocate_check s amount \<longleftrightarrow>
     (let frameAmount = (amount + PAGE_FRAME_SIZE - 1) div PAGE_FRAME_SIZE
      in free_page_frame_count s \<ge> frameAmount)"

definition paging_allocate_user_page_frame :: "paging \<Rightarrow> pd_ptr \<Rightarrow> u32 \<Rightarrow> (bool \<times> paging) option" where
  "paging_allocate_user_page_frame s page_dir virtual_addr =
     (if free_page_frame_count s = 0 then Some (False, s)
      else case List.find (\<lambda>i. \<not> page_frame_map s ! i) [1..<PAGE_FRAME_MAX_COUNT] of
          None \<Rightarrow> Some (True, s)
        | Some i \<Rightarrow> do {
            m \<leftarrow> arr_put (page_frame_map s) i True;
            let physical_addr = PAGE_FRAME_SIZE * of_nat i;
            s \<leftarrow> update_page_directory_entry (s\<lparr>page_frame_map := m\<rparr>) page_dir physical_addr virtual_addr user_flag;
            Some (True, s\<lparr>free_page_frame_count := free_page_frame_count s - 1\<rparr>)
          })"

text \<open>
  The frame number is computed from the 10-bit field shifted right by 22 places, so it is 0 before
  the decrement.
\<close>

definition paging_free_user_page_frame :: "paging \<Rightarrow> pd_ptr \<Rightarrow> u32 \<Rightarrow> (bool \<times> paging) option" where
  "paging_free_user_page_frame s page_dir virtual_addr = do {
     dir \<leftarrow> get_dir s page_dir;
     e \<leftarrow> arr_get dir (page_index virtual_addr);
     if present_bit (pde_flag e) then do {
       let i = drop_bit 22 (ucast (lower_address e) :: u32);
       let i = i - 1;
       m \<leftarrow> arr_put (page_frame_map s) (unat i) False;
       dir \<leftarrow> arr_put dir (page_index virtual_addr) (e\<lparr>pde_flag := no_flag\<rparr>);
       s \<leftarrow> put_dir (s\<lparr>page_frame_map := m\<rparr>) page_dir dir;
       Some (True, s)
     }
     else Some (False, s)
   }"

definition paging_create_new_page_directory :: "paging \<Rightarrow> (pd_ptr \<times> paging) option" where
  "paging_create_new_page_directory s =
     (case List.find (\<lambda>i. \<not> page_directory_used s ! i) [0..<PAGING_DIRECTORY_TABLE_MAX_COUNT] of
        None \<Rightarrow> Some (PD_NULL, s)
      | Some i \<Rightarrow> do {
          u \<leftarrow> arr_put (page_directory_used s) i True;
          dir \<leftarrow> get_dir s (PD i);
          dir \<leftarrow> arr_put dir 0x300 (empty_pde\<lparr>pde_flag := kernel_flag\<rparr>);
          s \<leftarrow> put_dir (s\<lparr>page_directory_used := u\<rparr>) (PD i) dir;
          Some (PD i, s)
        })"

definition clear_pde :: "pde \<Rightarrow> pde" where
  "clear_pde e = e\<lparr>pde_flag := (pde_flag e)\<lparr>present_bit := False, write_bit := False, use_pagesize_4_mb := False\<rparr>\<rparr>"

definition paging_free_page_directory :: "paging \<Rightarrow> pd_ptr \<Rightarrow> (bool \<times> paging) option" where
  "paging_free_page_directory s page_dir =
     (case List.find (\<lambda>i. PD i = page_dir) [0..<PAGING_DIRECTORY_TABLE_MAX_COUNT] of
        None \<Rightarrow> Some (False, s)
      | Some i \<Rightarrow> do {
          u \<leftarrow> arr_put (page_directory_used s) i False;
          dir \<leftarrow> get_dir s (PD i);
          s \<leftarrow> put_dir (s\<lparr>page_directory_used := u\<rparr>) (PD i) (map clear_pde dir);
          Some (True, s)
        })"

text \<open>CR3 holds a physical address; the directories live in the kernel's higher half.\<close>

definition KERNEL_VIRTUAL_ADDRESS_BASE :: u32 where "KERNEL_VIRTUAL_ADDRESS_BASE = 0xC0000000"

definition paging_get_current_page_directory_addr :: "u32 \<Rightarrow> u32" where
  "paging_get_current_page_directory_addr cr3 = cr3 + KERNEL_VIRTUAL_ADDRESS_BASE"

definition paging_use_page_directory :: "u32 \<Rightarrow> u32" where
  "paging_use_page_directory page_dir_virtual_addr =
     (if page_dir_virtual_addr > KERNEL_VIRTUAL_ADDRESS_BASE
      then page_dir_virtual_addr - KERNEL_VIRTUAL_ADDRESS_BASE else page_dir_virtual_addr)"

subsection \<open>What the directories mean to the processor\<close>

text \<open>
  Address translation with 4 MiB pages: the entry selected by the upper ten bits, when present,
  gives the frame; the lower 22 bits are the offset.
\<close>

definition translate :: "pde list \<Rightarrow> u32 \<Rightarrow> u32 option" where
  "translate dir va =
     (let e = dir ! page_index va in
      if present_bit (pde_flag e) \<and> use_pagesize_4_mb (pde_flag e)
      then Some (push_bit 22 (ucast (lower_address e)) OR (va AND 0x3FFFFF)) else None)"

definition user_entry :: "pde \<Rightarrow> bool" where
  "user_entry e \<longleftrightarrow> present_bit (pde_flag e) \<and> user_supervisor (pde_flag e)"

text \<open>The places where user mode can reach a frame: directory and index.\<close>

definition user_maps :: "paging \<Rightarrow> (nat option \<times> nat) set" where
  "user_maps s = {(Some d, k) | d k. d < 32 \<and> k < 1024 \<and> user_entry (page_directory_list s ! d ! k)} \<union>
     {(None, k) | k. k < 1024 \<and> user_entry (kernel_directory s ! k)}"

definition entry_at :: "paging \<Rightarrow> nat option \<times> nat \<Rightarrow> pde" where
  "entry_at s p = (case p of (Some d, k) \<Rightarrow> page_directory_list s ! d ! k | (None, k) \<Rightarrow> kernel_directory s ! k)"

text \<open>
  The invariant: the free count is the number of free frames, frame 0 is taken, every frame that
  user mode can reach is marked, and no two places reach the same frame.
\<close>

definition paging_ok :: "paging \<Rightarrow> bool" where
  "paging_ok s \<longleftrightarrow> length (page_frame_map s) = 32 \<and> length (page_directory_list s) = 32 \<and>
     length (page_directory_used s) = 32 \<and> length (kernel_directory s) = 1024 \<and>
     (\<forall>d<32. length (page_directory_list s ! d) = 1024) \<and>
     unat (free_page_frame_count s) = card {i. i < 32 \<and> \<not> page_frame_map s ! i} \<and> page_frame_map s ! 0 \<and>
     (\<forall>p\<in>user_maps s. 0 < unat (lower_address (entry_at s p)) \<and> unat (lower_address (entry_at s p)) < 32 \<and>
        page_frame_map s ! unat (lower_address (entry_at s p))) \<and>
     inj_on (\<lambda>p. lower_address (entry_at s p)) (user_maps s)"

subsection \<open>One entry of one directory\<close>

definition valid_ptr :: "pd_ptr \<Rightarrow> bool" where
  "valid_ptr p \<longleftrightarrow> (case p of PD_NULL \<Rightarrow> False | PD_KERNEL \<Rightarrow> True | PD i \<Rightarrow> i < 32)"

definition dir_key :: "pd_ptr \<Rightarrow> nat option" where
  "dir_key p = (case p of PD i \<Rightarrow> Some i | _ \<Rightarrow> None)"

definition dir_of :: "paging \<Rightarrow> nat option \<Rightarrow> pde list" where
  "dir_of s k = (case k of Some d \<Rightarrow> page_directory_list s ! d | None \<Rightarrow> kernel_directory s)"

definition put_entry :: "paging \<Rightarrow> nat option \<Rightarrow> nat \<Rightarrow> pde \<Rightarrow> paging" where
  "put_entry s k j e =
     (case k of
        Some d \<Rightarrow> s\<lparr>page_directory_list := (page_directory_list s)[d := (page_directory_list s ! d)[j := e]]\<rparr>
      | None \<Rightarrow> s\<lparr>kernel_directory := (kernel_directory s)[j := e]\<rparr>)"

definition places :: "(nat option \<times> nat) set" where
  "places = {(k, j). (case k of Some d \<Rightarrow> d < 32 | None \<Rightarrow> True) \<and> j < 1024}"

definition shaped :: "paging \<Rightarrow> bool" where
  "shaped s \<longleftrightarrow> length (page_frame_map s) = 32 \<and> length (page_directory_list s) = 32 \<and>
     length (page_directory_used s) = 32 \<and> length (kernel_directory s) = 1024 \<and>
     (\<forall>d<32. length (page_directory_list s ! d) = 1024)"

lemma entry_at_dir: "entry_at s (k, j) = dir_of s k ! j"
  by (simp add: entry_at_def dir_of_def split: option.split)

lemma user_maps_places: "user_maps s = {p \<in> places. user_entry (entry_at s p)}"
  by (auto simp: user_maps_def places_def entry_at_def split: option.splits)

lemma and_3FF: "(x :: u32) AND 0x3FF = take_bit 10 x"
  using take_bit_eq_mask [of 10 x] mask_eq_exp_minus_1 [of 10, where 'a = u32] by simp

lemma page_index_less [simp]: "page_index va < 1024"
proof -
  have "drop_bit 22 va AND 0x3FF = take_bit 10 (drop_bit 22 va)" by (rule and_3FF)
  then have "page_index va = take_bit 10 (unat (drop_bit 22 va))"
    by (simp add: page_index_def unsigned_take_bit_eq)
  then show ?thesis using take_bit_nat_less_exp [of 10 "unat (drop_bit 22 va)"] by simp
qed

lemma place_index: "valid_ptr p \<Longrightarrow> (dir_key p, page_index va) \<in> places"
  by (cases p) (auto simp: valid_ptr_def dir_key_def places_def)

lemma shaped_put_entry [simp]: "shaped s \<Longrightarrow> shaped (put_entry s k j e)"
  by (auto simp: shaped_def put_entry_def nth_list_upd split: option.split)

lemma put_entry_simps [simp]:
  "page_frame_map (put_entry s k j e) = page_frame_map s"
  "free_page_frame_count (put_entry s k j e) = free_page_frame_count s"
  "page_directory_used (put_entry s k j e) = page_directory_used s"
  by (simp_all add: put_entry_def split: option.split)

lemma entry_at_more [simp]:
  "entry_at (s\<lparr>page_frame_map := m\<rparr>) p = entry_at s p"
  "entry_at (s\<lparr>free_page_frame_count := c\<rparr>) p = entry_at s p"
  "entry_at (s\<lparr>page_directory_used := u\<rparr>) p = entry_at s p"
  by (cases p; simp add: entry_at_def split: option.split)+

lemma entry_at_put:
  "shaped s \<Longrightarrow> (k, j) \<in> places \<Longrightarrow> p \<in> places \<Longrightarrow> entry_at (put_entry s k j e) p = (if p = (k, j) then e else entry_at s p)"
  by (cases p) (auto simp: shaped_def places_def entry_at_def put_entry_def nth_list_update split: option.splits)

lemma get_dir_eq: "shaped s \<Longrightarrow> valid_ptr p \<Longrightarrow> get_dir s p = Some (dir_of s (dir_key p))"
  by (cases p) (auto simp: get_dir_def valid_ptr_def dir_of_def dir_key_def shaped_def)

lemma length_dir: "shaped s \<Longrightarrow> valid_ptr p \<Longrightarrow> length (dir_of s (dir_key p)) = 1024"
  by (cases p) (auto simp: valid_ptr_def dir_of_def dir_key_def shaped_def)

lemma put_dir_eq:
  "shaped s \<Longrightarrow> valid_ptr p \<Longrightarrow> put_dir s p ((dir_of s (dir_key p))[j := e]) = Some (put_entry s (dir_key p) j e)"
  by (cases p) (auto simp: put_dir_def valid_ptr_def dir_of_def dir_key_def shaped_def put_entry_def)

lemma update_entry_eq:
  "shaped s \<Longrightarrow> valid_ptr p \<Longrightarrow> update_page_directory_entry s p pa va flag =
    Some (put_entry s (dir_key p) (page_index va)
      ((entry_at s (dir_key p, page_index va))\<lparr>pde_flag := flag, lower_address := ucast (drop_bit 22 pa AND 0x3FF)\<rparr>))"
  by (simp add: update_page_directory_entry_def get_dir_eq length_dir put_dir_eq entry_at_dir)

lemma paging_ok_shaped: "paging_ok s \<Longrightarrow> shaped s"
  by (simp add: paging_ok_def shaped_def)

lemma paging_ok_iff: "paging_ok s \<longleftrightarrow> shaped s \<and>
    unat (free_page_frame_count s) = card {i. i < 32 \<and> \<not> page_frame_map s ! i} \<and> page_frame_map s ! 0 \<and>
    (\<forall>p\<in>user_maps s. 0 < unat (lower_address (entry_at s p)) \<and> unat (lower_address (entry_at s p)) < 32 \<and>
       page_frame_map s ! unat (lower_address (entry_at s p))) \<and>
    inj_on (\<lambda>p. lower_address (entry_at s p)) (user_maps s)"
  by (auto simp: paging_ok_def shaped_def)

text \<open>An entry that user mode cannot use, written anywhere, keeps the invariant.\<close>

lemma paging_ok_hide:
  assumes "paging_ok s" "shaped s'" "page_frame_map s' = page_frame_map s"
    and "free_page_frame_count s' = free_page_frame_count s" "user_maps s' \<subseteq> user_maps s"
    and "\<And>p. p \<in> user_maps s' \<Longrightarrow> entry_at s' p = entry_at s p"
  shows "paging_ok s'"
proof -
  have "inj_on (\<lambda>p. lower_address (entry_at s' p)) (user_maps s')"
    using assms(1,5,6) unfolding paging_ok_iff inj_on_def by (metis subsetD)
  then show ?thesis using assms unfolding paging_ok_iff by auto
qed

lemma free_frames_update:
  assumes "length m = 32" "i < 32" "\<not> m ! i"
  shows "Suc (card {j. j < 32 \<and> \<not> m[i := True] ! j}) = card {j. j < 32 \<and> \<not> m ! j}"
proof -
  have "{j. j < 32 \<and> \<not> m ! j} = insert i {j. j < 32 \<and> \<not> m[i := True] ! j}"
    using assms by (auto simp: nth_list_update)
  then show ?thesis using assms by simp
qed

lemma paging_ok_map:
  assumes ok: "paging_ok s" and i: "0 < i" "i < 32" "\<not> page_frame_map s ! i"
    and q: "(k, j) \<in> places" and e: "lower_address e = of_nat i"
  shows "paging_ok ((put_entry (s\<lparr>page_frame_map := (page_frame_map s)[i := True]\<rparr>) k j e)
    \<lparr>free_page_frame_count := free_page_frame_count s - 1\<rparr>)" (is "paging_ok ?s")
proof -
  let ?m = "(page_frame_map s)[i := True]"
  have sh: "shaped (s\<lparr>page_frame_map := ?m\<rparr>)" using paging_ok_shaped [OF ok] by (simp add: shaped_def)
  have at: "entry_at ?s p = (if p = (k, j) then e else entry_at s p)" if "p \<in> places" for p
    using entry_at_put [OF sh q that] by simp
  have maps: "user_maps ?s \<subseteq> insert (k, j) (user_maps s)"
    using at by (auto simp: user_maps_places)
  have low: "unat (lower_address e) = i" using e i by (simp add: unat_of_nat)
  have m: "length (page_frame_map s) = 32" using paging_ok_shaped [OF ok] by (simp add: shaped_def)
  have old: "0 < unat (lower_address (entry_at s p)) \<and> unat (lower_address (entry_at s p)) < 32 \<and>
      page_frame_map s ! unat (lower_address (entry_at s p))" if "p \<in> user_maps s" for p
    using ok that unfolding paging_ok_iff by blast
  have places: "p \<in> places" if "p \<in> user_maps ?s" for p
    using that by (simp add: user_maps_places)
  have "shaped ?s" using shaped_put_entry [OF sh, of k j e] by (simp add: shaped_def)
  moreover have "unat (free_page_frame_count ?s) = card {j. j < 32 \<and> \<not> ?m ! j}"
  proof -
    have "unat (free_page_frame_count s) = Suc (card {j. j < 32 \<and> \<not> ?m ! j})"
      using ok free_frames_update [OF m i(2,3)] unfolding paging_ok_iff by simp
    moreover from this have "free_page_frame_count s \<noteq> 0" by auto
    ultimately show ?thesis by (simp add: unat_minus_one)
  qed
  moreover have "?m ! 0" using ok i m unfolding paging_ok_iff by (simp add: nth_list_update)
  moreover have "0 < unat (lower_address (entry_at ?s p)) \<and> unat (lower_address (entry_at ?s p)) < 32 \<and>
      ?m ! unat (lower_address (entry_at ?s p))" if "p \<in> user_maps ?s" for p
  proof (cases "p = (k, j)")
    case False
    with that maps have "p \<in> user_maps s" by auto
    with old False at [OF places [OF that]] m show ?thesis by (simp add: nth_list_upd)
  qed (use at [OF places [OF that]] low i m in simp)
  moreover have "inj_on (\<lambda>p. lower_address (entry_at ?s p)) (user_maps ?s)"
  proof (rule inj_onI)
    fix p p'
    assume p: "p \<in> user_maps ?s" "p' \<in> user_maps ?s" "lower_address (entry_at ?s p) = lower_address (entry_at ?s p')"
    have neq: "lower_address (entry_at s r) \<noteq> lower_address e" if "r \<in> user_maps s" for r
      using old [OF that] i low by auto
    have inj: "inj_on (\<lambda>p. lower_address (entry_at s p)) (user_maps s)"
      using ok unfolding paging_ok_iff by blast
    show "p = p'"
      using p maps at [OF places [OF p(1)]] at [OF places [OF p(2)]] neq [of p] neq [of p'] inj
      by (cases "p = (k, j)"; cases "p' = (k, j)") (auto dest: inj_onD)
  qed
  ultimately show ?thesis unfolding paging_ok_iff by simp
qed

subsection \<open>The operations\<close>

lemma ucast_frame: "i < 32 \<Longrightarrow> ucast (drop_bit 22 (PAGE_FRAME_SIZE * of_nat i) AND 0x3FF :: u32) = (of_nat i :: 10 word)"
proof -
  assume i: "i < 32"
  have "4194304 * of_nat i = (of_nat (4194304 * i) :: u32)" by simp
  then have "unat (4194304 * of_nat i :: u32) = 4194304 * i"
    using i by (simp add: unat_of_nat_u32 del: of_nat_mult)
  then have "drop_bit 22 (4194304 * of_nat i :: u32) = of_nat i"
    using i by (simp add: word_unat_eq_iff drop_bit_eq_div unat_div unat_of_nat_u32)
  then show ?thesis
    using i by (simp add: and_3FF word_unat_eq_iff unsigned_ucast_eq unsigned_take_bit_eq unsigned_of_nat take_bit_nat_eq_self)
qed

lemma allocate_frame_eq:
  assumes "paging_ok s" "valid_ptr p" "free_page_frame_count s \<noteq> 0"
  obtains i e where "0 < i" "i < 32" "\<not> page_frame_map s ! i" "lower_address e = of_nat i" "pde_flag e = user_flag"
    "paging_allocate_user_page_frame s p va = Some (True,
      (put_entry (s\<lparr>page_frame_map := (page_frame_map s)[i := True]\<rparr>) (dir_key p) (page_index va) e)
        \<lparr>free_page_frame_count := free_page_frame_count s - 1\<rparr>)"
proof -
  have sh: "shaped s" by (rule paging_ok_shaped [OF assms(1)])
  have "card {i. i < 32 \<and> \<not> page_frame_map s ! i} \<noteq> 0"
    using assms(1,3) unfolding paging_ok_iff by (metis unat_eq_zero)
  then obtain i where i: "i < 32" "\<not> page_frame_map s ! i"
    by (metis (mono_tags, lifting) card.empty empty_Collect_eq)
  with assms(1) have "i \<noteq> 0" unfolding paging_ok_iff by metis
  with i have "\<not> (\<forall>i\<in>{1..<32}. page_frame_map s ! i)" by auto
  then obtain i where find: "List.find (\<lambda>i. \<not> page_frame_map s ! i) [1..<32] = Some i"
    using find_None_iff [of "\<lambda>i. \<not> page_frame_map s ! i" "[1..<32]"] by (cases "List.find (\<lambda>i. \<not> page_frame_map s ! i) [1..<32]") auto
  then have i: "0 < i" "i < 32" "\<not> page_frame_map s ! i" by (auto simp: find_Some_iff)
  let ?s = "s\<lparr>page_frame_map := (page_frame_map s)[i := True]\<rparr>"
  let ?e = "(entry_at s (dir_key p, page_index va))\<lparr>pde_flag := user_flag, lower_address := of_nat i\<rparr>"
  have "shaped ?s" using sh by (simp add: shaped_def)
  note upd = update_entry_eq [OF this assms(2)]
  show thesis
  proof (rule that [of i ?e])
    have len: "length (page_frame_map s) = 32" using sh by (simp add: shaped_def)
    show "paging_allocate_user_page_frame s p va = Some (True,
      (put_entry ?s (dir_key p) (page_index va) ?e)\<lparr>free_page_frame_count := free_page_frame_count s - 1\<rparr>)"
      using assms(3) find len i upd ucast_frame [OF i(2)]
      by (simp add: paging_allocate_user_page_frame_def Let_def)
  qed (use i in simp_all)
qed

definition fresh_mapping :: "paging \<Rightarrow> pd_ptr \<Rightarrow> u32 \<Rightarrow> paging \<Rightarrow> nat \<Rightarrow> bool" where
  "fresh_mapping s p va s' i \<longleftrightarrow> 0 < i \<and> i < 32 \<and> \<not> page_frame_map s ! i \<and>
     page_frame_map s' = (page_frame_map s)[i := True] \<and>
     translate (dir_of s' (dir_key p)) va = Some (push_bit 22 (of_nat i) OR (va AND 0x3FFFFF)) \<and>
     (\<forall>q\<in>places. q \<noteq> (dir_key p, page_index va) \<longrightarrow> entry_at s' q = entry_at s q)"

lemma allocate_frame_spec:
  assumes "paging_ok s" "valid_ptr p"
  shows "ok (paging_allocate_user_page_frame s p va) (\<lambda>(b, s'). paging_ok s' \<and> page_directory_used s' = page_directory_used s \<and>
    (if free_page_frame_count s = 0 then \<not> b \<and> s' = s else b \<and> (\<exists>i. fresh_mapping s p va s' i)))"
proof (cases "free_page_frame_count s = 0")
  case True
  then show ?thesis using assms by (simp add: paging_allocate_user_page_frame_def)
next
  case False
  from allocate_frame_eq [OF assms this, of va] obtain i e where
    i: "0 < i" "i < 32" "\<not> page_frame_map s ! i" and e: "lower_address e = of_nat i" "pde_flag e = user_flag"
    and eq: "paging_allocate_user_page_frame s p va = Some (True,
      (put_entry (s\<lparr>page_frame_map := (page_frame_map s)[i := True]\<rparr>) (dir_key p) (page_index va) e)
        \<lparr>free_page_frame_count := free_page_frame_count s - 1\<rparr>)" by blast
  let ?s = "s\<lparr>page_frame_map := (page_frame_map s)[i := True]\<rparr>"
  let ?s' = "(put_entry ?s (dir_key p) (page_index va) e)\<lparr>free_page_frame_count := free_page_frame_count s - 1\<rparr>"
  note place = place_index [OF assms(2), of va]
  have sh: "shaped ?s" using paging_ok_shaped [OF assms(1)] by (simp add: shaped_def)
  have at: "entry_at ?s' q = (if q = (dir_key p, page_index va) then e else entry_at s q)" if "q \<in> places" for q
    using entry_at_put [OF sh place that] by simp
  have "dir_of ?s' (dir_key p) ! page_index va = e" using at [OF place] by (simp add: entry_at_dir)
  moreover have "(ucast (of_nat i :: 10 word) :: u32) = of_nat i"
    using i by (simp add: word_unat_eq_iff unsigned_ucast_eq unsigned_of_nat take_bit_nat_eq_self)
  ultimately have "translate (dir_of ?s' (dir_key p)) va = Some (push_bit 22 (of_nat i) OR (va AND 0x3FFFFF))"
    using e by (simp add: translate_def user_flag_def kernel_flag_def)
  then have "fresh_mapping s p va ?s' i" using i at by (simp add: fresh_mapping_def)
  moreover have "paging_ok ?s'" by (rule paging_ok_map [OF assms(1) i place e(1)])
  ultimately show ?thesis using eq False by auto
qed

lemma create_directory_spec:
  assumes "paging_ok s"
  shows "ok (paging_create_new_page_directory s) (\<lambda>(p, s'). paging_ok s' \<and>
    (if \<forall>i<32. page_directory_used s ! i then p = PD_NULL \<and> s' = s
     else \<exists>i<32. p = PD i \<and> \<not> page_directory_used s ! i \<and> page_directory_used s' = (page_directory_used s)[i := True] \<and>
       (\<forall>q\<in>places. q \<noteq> (Some i, 0x300) \<longrightarrow> entry_at s' q = entry_at s q) \<and>
       entry_at s' (Some i, 0x300) = empty_pde\<lparr>pde_flag := kernel_flag\<rparr> \<and>
       page_frame_map s' = page_frame_map s \<and> free_page_frame_count s' = free_page_frame_count s))"
proof (cases "List.find (\<lambda>i. \<not> page_directory_used s ! i) [0..<32]")
  case None
  then have "\<forall>i<32. page_directory_used s ! i" by (auto simp: find_None_iff)
  then show ?thesis using None assms by (simp add: paging_create_new_page_directory_def)
next
  case (Some i)
  then have i: "i < 32" "\<not> page_directory_used s ! i" by (auto simp: find_Some_iff)
  let ?e = "empty_pde\<lparr>pde_flag := kernel_flag\<rparr>"
  let ?s = "s\<lparr>page_directory_used := (page_directory_used s)[i := True]\<rparr>"
  let ?s' = "put_entry ?s (Some i) 0x300 ?e"
  have sh: "shaped s" "shaped ?s" using paging_ok_shaped [OF assms] by (simp_all add: shaped_def)
  have ptr: "valid_ptr (PD i)" "dir_key (PD i) = Some i" "(Some i, 0x300) \<in> places"
    using i by (simp_all add: valid_ptr_def dir_key_def places_def)
  have eq: "paging_create_new_page_directory s = Some (PD i, ?s')"
    using Some i sh ptr get_dir_eq [OF sh(1) ptr(1)] put_dir_eq [OF sh(2) ptr(1), of "0x300" ?e] length_dir [OF sh(1) ptr(1)]
    by (simp add: paging_create_new_page_directory_def shaped_def) (simp add: dir_of_def)
  have at: "entry_at ?s' q = (if q = (Some i, 0x300) then ?e else entry_at s q)" if "q \<in> places" for q
    using entry_at_put [OF sh(2) ptr(3) that] by simp
  have hide: "\<not> user_entry ?e" by (simp add: user_entry_def kernel_flag_def no_flag_def)
  have maps: "p \<in> user_maps s \<and> entry_at ?s' p = entry_at s p" if "p \<in> user_maps ?s'" for p
  proof -
    from that have p: "p \<in> places" "user_entry (entry_at ?s' p)" by (simp_all add: user_maps_places)
    with at [OF p(1)] hide show ?thesis by (simp add: user_maps_places split: if_splits)
  qed
  have "paging_ok ?s'"
    by (rule paging_ok_hide [OF assms shaped_put_entry [OF sh(2)]]) (use maps in auto)
  then show ?thesis using eq i at ptr by auto
qed

lemma free_directory_spec:
  assumes "paging_ok s"
  shows "ok (paging_free_page_directory s p) (\<lambda>(b, s'). paging_ok s' \<and>
    (case p of
      PD i \<Rightarrow> if i < 32 then b \<and> page_directory_used s' = (page_directory_used s)[i := False] \<and>
          (\<forall>k<1024. translate (dir_of s' (Some i)) (push_bit 22 (of_nat k)) = None) \<and>
          (\<forall>q\<in>places. fst q \<noteq> Some i \<longrightarrow> entry_at s' q = entry_at s q)
        else \<not> b \<and> s' = s
    | _ \<Rightarrow> \<not> b \<and> s' = s))"
proof (cases "\<exists>i<32. p = PD i")
  case False
  then have "List.find (\<lambda>i. PD i = p) [0..<32] = None" by (auto simp: find_None_iff)
  then show ?thesis using False assms by (auto simp: paging_free_page_directory_def split: pd_ptr.split)
next
  case True
  then obtain i where i: "i < 32" "p = PD i" by blast
  have find: "List.find (\<lambda>i. PD i = p) [0..<32] = Some i"
    unfolding find_Some_iff using i by (intro exI [of _ i]) auto
  let ?d = "map clear_pde (page_directory_list s ! i)"
  let ?s' = "s\<lparr>page_directory_used := (page_directory_used s)[i := False], page_directory_list := (page_directory_list s)[i := ?d]\<rparr>"
  have sh: "shaped s" by (rule paging_ok_shaped [OF assms])
  then have eq: "paging_free_page_directory s p = Some (True, ?s')"
    using find i by (simp add: paging_free_page_directory_def get_dir_def put_dir_def shaped_def)
  have at: "entry_at ?s' (k, j) = (if k = Some i then clear_pde (entry_at s (k, j)) else entry_at s (k, j))"
    if "(k, j) \<in> places" for k j
    using that i sh by (auto simp: entry_at_def places_def shaped_def split: option.split)
  have none: "\<not> present_bit (pde_flag (clear_pde e))" for e by (simp add: clear_pde_def)
  have maps: "p \<in> user_maps s \<and> entry_at ?s' p = entry_at s p" if "p \<in> user_maps ?s'" for p
    using that at none by (cases p) (auto simp: user_maps_places user_entry_def split: if_splits)
  have sh': "shaped ?s'" using sh i by (auto simp: shaped_def nth_list_upd)
  have "paging_ok ?s'" by (rule paging_ok_hide [OF assms sh']) (use maps in auto)
  moreover have "translate (dir_of ?s' (Some i)) va = None" for va
  proof -
    have "(Some i, page_index va) \<in> places" using i by (simp add: places_def)
    from at [OF this] show ?thesis using none by (simp add: translate_def entry_at_dir)
  qed
  moreover have "entry_at ?s' q = entry_at s q" if "q \<in> places" "fst q \<noteq> Some i" for q
    using at [of "fst q" "snd q"] that by simp
  ultimately show ?thesis using eq i by simp
qed

text \<open>Freeing a mapped page indexes the frame map at \<open>0 - 1\<close>.\<close>

lemma free_frame_faults:
  assumes "paging_ok s" "valid_ptr p"
  shows "paging_free_user_page_frame s p va =
    (if present_bit (pde_flag (entry_at s (dir_key p, page_index va))) then None else Some (False, s))"
proof -
  have sh: "shaped s" by (rule paging_ok_shaped [OF assms(1)])
  have "drop_bit 22 (ucast (x :: 10 word) :: u32) = 0" for x
    by (rule bit_word_eqI) (auto simp: bit_simps dest: bit_imp_le_length)
  moreover have "\<not> unat (- 1 :: u32) < 32" by (simp add: unsigned_minus_1_eq_mask mask_eq_exp_minus_1)
  ultimately show ?thesis
    using sh get_dir_eq [OF sh assms(2)] length_dir [OF sh assms(2)]
    by (simp add: paging_free_user_page_frame_def entry_at_dir arr_put_def shaped_def Let_def)
qed

lemma paging_init_ok: "paging_ok paging_init"
proof -
  have at: "entry_at paging_init p \<in> {empty_pde, empty_pde\<lparr>pde_flag := kernel_flag\<rparr>}" if "p \<in> places" for p
    using that by (auto simp: entry_at_def places_def paging_init_def paging_kernel_page_directory_def nth_list_upd
        split: option.splits)
  have "user_maps paging_init = {}"
    using at by (fastforce simp: user_maps_places user_entry_def empty_pde_def no_flag_def kernel_flag_def)
  moreover have "{i. i < 32 \<and> \<not> page_frame_map paging_init ! i} = {1..<32}"
    by (auto simp: paging_init_def nth_Cons')
  moreover have "shaped paging_init" by (simp add: shaped_def paging_init_def paging_kernel_page_directory_def)
  ultimately show ?thesis unfolding paging_ok_iff by (simp add: paging_init_def)
qed

end
