(* ===== verification/Process.thy ===== *)
theory Process
  imports Paging Ext2_Ops "HOL-Library.Signed_Division"
begin

section \<open>Processes and the scheduler: \<open>process/process.c\<close>, \<open>process/scheduler.c\<close>\<close>

text \<open>
  The process control blocks, the manager's state, the page manager, the register CR3 and the
  tick counter make the state. Creating a process reads its executable with the driver's
  \<open>read\<close>; what that leaves in the new address space is part of the result. Switching to a
  process never returns to its caller, so the switch gives the context that is handed to
  \<open>process_context_switch\<close>, the assembly that loads the registers. The blanks
  \<open>process_destroy\<close> draws over the clock are screen output and no part of this state.
\<close>

subsection \<open>Structures\<close>

record cpu_register =
  reg_edi :: u32
  reg_esi :: u32
  reg_ebp :: u32
  reg_esp :: u32
  reg_ebx :: u32
  reg_edx :: u32
  reg_ecx :: u32
  reg_eax :: u32
  reg_gs :: u32
  reg_fs :: u32
  reg_es :: u32
  reg_ds :: u32

record task_context =
  cpu :: cpu_register
  eip :: u32
  eflags :: u32
  page_directory_virtual_addr :: pd_ptr

datatype process_state = READY | RUNNING | BLOCK

record pcb =
  pcb_pid :: u32
  pcb_name :: mem
  process_state :: process_state
  pcb_context :: task_context
  virtual_addr_used :: "u32 list"
  data_virtual_addr_used :: "bool list"
  page_frame_used_count :: u32

definition PROCESS_COUNT_MAX :: nat where "PROCESS_COUNT_MAX = 16"
definition PROCESS_NAME_LENGTH_MAX :: nat where "PROCESS_NAME_LENGTH_MAX = 32"
definition PROCESS_PAGE_FRAME_COUNT_MAX :: u32 where "PROCESS_PAGE_FRAME_COUNT_MAX = 8"
definition CPU_EFLAGS_BASE_FLAG :: u32 where "CPU_EFLAGS_BASE_FLAG = 0x2"
definition CPU_EFLAGS_FLAG_INTERRUPT_ENABLE :: u32 where "CPU_EFLAGS_FLAG_INTERRUPT_ENABLE = 0x200"
definition PROCESS_CREATE_SUCCESS :: int where "PROCESS_CREATE_SUCCESS = 0"
definition PROCESS_CREATE_FAIL_MAX_PROCESS_EXCEEDED :: int where "PROCESS_CREATE_FAIL_MAX_PROCESS_EXCEEDED = 1"
definition PROCESS_CREATE_FAIL_INVALID_ENTRYPOINT :: int where "PROCESS_CREATE_FAIL_INVALID_ENTRYPOINT = 2"
definition PROCESS_CREATE_FAIL_NOT_ENOUGH_MEMORY :: int where "PROCESS_CREATE_FAIL_NOT_ENOUGH_MEMORY = 3"
definition PROCESS_CREATE_FAIL_FS_READ_FAILURE :: int where "PROCESS_CREATE_FAIL_FS_READ_FAILURE = 4"

lemmas process_codes = PROCESS_CREATE_SUCCESS_def PROCESS_CREATE_FAIL_MAX_PROCESS_EXCEEDED_def
  PROCESS_CREATE_FAIL_INVALID_ENTRYPOINT_def PROCESS_CREATE_FAIL_NOT_ENOUGH_MEMORY_def
  PROCESS_CREATE_FAIL_FS_READ_FAILURE_def

lemma process_consts [simp]:
  "PROCESS_COUNT_MAX = 16" "PROCESS_NAME_LENGTH_MAX = 32" "PROCESS_PAGE_FRAME_COUNT_MAX = 8"
  by (simp_all add: PROCESS_COUNT_MAX_def PROCESS_NAME_LENGTH_MAX_def PROCESS_PAGE_FRAME_COUNT_MAX_def)

record kernel =
  process_list :: "pcb list"
  is_process_active :: "bool list"
  active_process_count :: u32
  current_running_pid :: u32
  pages :: paging
  cr3 :: pd_ptr
  kernel_fs :: fs
  pit_ticks :: u32

definition zero_cpu :: cpu_register where
  "zero_cpu = \<lparr>reg_edi = 0, reg_esi = 0, reg_ebp = 0, reg_esp = 0, reg_ebx = 0, reg_edx = 0, reg_ecx = 0, reg_eax = 0,
     reg_gs = 0, reg_fs = 0, reg_es = 0, reg_ds = 0\<rparr>"

text \<open>The control block after \<open>memset\<close> with 0, which is also the initial one.\<close>

definition zero_pcb :: pcb where
  "zero_pcb =
     \<lparr> pcb_pid = 0, pcb_name = (\<lambda>_. 0), process_state = READY,
       pcb_context = \<lparr>cpu = zero_cpu, eip = 0, eflags = 0, page_directory_virtual_addr = PD_NULL\<rparr>,
       virtual_addr_used = replicate 8 0, data_virtual_addr_used = replicate 8 False, page_frame_used_count = 0 \<rparr>"

definition process_init :: "paging \<Rightarrow> fs \<Rightarrow> kernel" where
  "process_init pg st =
     \<lparr> process_list = replicate PROCESS_COUNT_MAX zero_pcb, is_process_active = replicate PROCESS_COUNT_MAX False,
       active_process_count = 0, current_running_pid = -1, pages = pg, cr3 = PD_KERNEL, kernel_fs = st, pit_ticks = 0 \<rparr>"

subsection \<open>Process management\<close>

text \<open>When no index is free the loop ends at \<open>PROCESS_COUNT_MAX\<close>, and the write after it is a fault.\<close>

definition process_list_get_inactive_index :: "kernel \<Rightarrow> (nat \<times> kernel) option" where
  "process_list_get_inactive_index k = do {
     let ret = length (takeWhile (\<lambda>b. b) (take PROCESS_COUNT_MAX (is_process_active k)));
     act \<leftarrow> arr_put (is_process_active k) ret True;
     Some (ret, k\<lparr>is_process_active := act, active_process_count := active_process_count k + 1\<rparr>)
   }"

definition process_get_current_running_pcb_pointer :: "kernel \<Rightarrow> nat option" where
  "process_get_current_running_pcb_pointer k =
     List.find (\<lambda>i. is_process_active k ! i \<and> process_state (process_list k ! i) = RUNNING) [0..<PROCESS_COUNT_MAX]"

definition ceil_div :: "u32 \<Rightarrow> u32 \<Rightarrow> u32" where
  "ceil_div numerator denominator = (numerator + denominator - 1) div denominator"

definition bool_addr :: "bool \<Rightarrow> u32" where
  "bool_addr b = KERNEL_VIRTUAL_ADDRESS_BASE + (if b then 1 else 0)"

text \<open>The context and metadata of a new process, in the control block it is given.\<close>

definition setup_pcb :: "pcb \<Rightarrow> request \<Rightarrow> u32 \<Rightarrow> pd_ptr \<Rightarrow> nat \<Rightarrow> pcb" where
  "setup_pcb p req entry pd_new p_index =
     p\<lparr> pcb_context := (pcb_context p)
          \<lparr> cpu := (cpu (pcb_context p))\<lparr>reg_ds := 0x3 OR 0x20, reg_es := 0x3 OR 0x20, reg_fs := 0x3 OR 0x20, reg_gs := 0x3 OR 0x20,
                                 reg_ebp := 0xBFFFFFFC, reg_esp := 0xBFFFFFFC\<rparr>,
            eip := entry, page_directory_virtual_addr := pd_new,
            eflags := eflags (pcb_context p) OR (CPU_EFLAGS_BASE_FLAG OR CPU_EFLAGS_FLAG_INTERRUPT_ENABLE) \<rparr>,
        process_state := READY, pcb_pid := of_nat p_index,
        pcb_name := memcpy_into (memset (pcb_name p) 0 0 PROCESS_NAME_LENGTH_MAX) 0 (req_name req) 0 8 \<rparr>"

text \<open>
  \<open>entry\<close> is the address in \<open>request.buf\<close>. When the read fails, the slot stays active and CR3
  keeps the new directory.
\<close>

definition process_create_user_process :: "kernel \<Rightarrow> request \<Rightarrow> u32 \<Rightarrow> (int \<times> kernel \<times> mem) option" where
  "process_create_user_process k req entry =
     (if active_process_count k \<ge> of_nat PROCESS_COUNT_MAX
      then Some (PROCESS_CREATE_FAIL_MAX_PROCESS_EXCEEDED, k, buf req)
      else if entry \<ge> KERNEL_VIRTUAL_ADDRESS_BASE
      then Some (PROCESS_CREATE_FAIL_INVALID_ENTRYPOINT, k, buf req)
      else
        let page_frame_count_needed = ceil_div (buffer_size req + PAGE_FRAME_SIZE) PAGE_FRAME_SIZE in
        if \<not> paging_allocate_check (pages k) page_frame_count_needed \<or> page_frame_count_needed > PROCESS_PAGE_FRAME_COUNT_MAX
        then Some (PROCESS_CREATE_FAIL_NOT_ENOUGH_MEMORY, k, buf req)
        else do {
          (p_index, k) \<leftarrow> process_list_get_inactive_index k;
          let filename_copy = memset (uninit (kernel_fs k)) 0 0 256;
          let filename_copy = memcpy_into filename_copy 0 (req_name req) 0 (unat (name_len req));
          let pd_old = cr3 k;
          (pd_new, pg) \<leftarrow> paging_create_new_page_directory (pages k);
          new_pcb \<leftarrow> arr_get (process_list k) p_index;
          (b0, pg) \<leftarrow> paging_allocate_user_page_frame pg pd_new entry;
          (b1, pg) \<leftarrow> paging_allocate_user_page_frame pg pd_new 0xBFFFFFFC;
          let new_pcb = new_pcb\<lparr>virtual_addr_used := (virtual_addr_used new_pcb)[0 := bool_addr b0, 1 := bool_addr b1]\<rparr>;
          pl \<leftarrow> arr_put (process_list k) p_index new_pcb;
          let k = k\<lparr>process_list := pl, pages := pg, cr3 := pd_new\<rparr>;
          (r, image) \<leftarrow> ext2_read (kernel_fs k) (req\<lparr>req_name := filename_copy\<rparr>);
          if r \<noteq> 0 then Some (PROCESS_CREATE_FAIL_FS_READ_FAILURE, k, image)
          else do {
            pl \<leftarrow> arr_put (process_list k) p_index (setup_pcb new_pcb req entry pd_new p_index);
            Some (PROCESS_CREATE_SUCCESS, k\<lparr>process_list := pl, cr3 := pd_old\<rparr>, image)
          }
        })"

definition process_destroy :: "kernel \<Rightarrow> u32 \<Rightarrow> (bool \<times> kernel) option" where
  "process_destroy k pid = do {
     active \<leftarrow> arr_get (is_process_active k) (unat pid);
     if \<not> active then Some (False, k)
     else do {
       act \<leftarrow> arr_put (is_process_active k) (unat pid) False;
       delete_process \<leftarrow> arr_get (process_list k) (unat pid);
       (_, pg) \<leftarrow> paging_free_page_directory (pages k) (page_directory_virtual_addr (pcb_context delete_process));
       pl \<leftarrow> arr_put (process_list k) (unat pid) zero_pcb;
       Some (True, k\<lparr>is_process_active := act, active_process_count := active_process_count k - 1, pages := pg, process_list := pl\<rparr>)
     }
   }"

subsection \<open>The scheduler\<close>

definition scheduler_save_context_to_current_running_pcb :: "kernel \<Rightarrow> task_context \<Rightarrow> kernel" where
  "scheduler_save_context_to_current_running_pcb k ctx =
     (case process_get_current_running_pcb_pointer k of
        None \<Rightarrow> k
      | Some i \<Rightarrow>
          let p = process_list k ! i;
              p = p\<lparr>process_state := READY, pcb_context := (pcb_context p)\<lparr>cpu := cpu ctx, eip := eip ctx, eflags := eflags ctx\<rparr>\<rparr>
          in k\<lparr>process_list := (process_list k)[i := p]\<rparr>)"

text \<open>The search for the next active process has no other exit than finding one.\<close>

partial_function (option) next_active :: "bool list \<Rightarrow> int \<Rightarrow> nat option" where
  "next_active act next_pid =
     (let next_pid = (next_pid + 1) smod int PROCESS_COUNT_MAX in
      if next_pid < 0 then None
      else arr_get act (nat next_pid) \<bind> (\<lambda>a. if a then Some (nat next_pid) else next_active act next_pid))"

text \<open>A process list entry at a C index: negative ones and those past the end are faults.\<close>

definition set_state :: "pcb list \<Rightarrow> int \<Rightarrow> process_state \<Rightarrow> pcb list option" where
  "set_state pl i s =
     (if i < 0 then None
      else do { p \<leftarrow> arr_get pl (nat i); arr_put pl (nat i) (p\<lparr>process_state := s\<rparr>) })"

definition scheduler_switch_to_next_process :: "kernel \<Rightarrow> (task_context \<times> kernel) option" where
  "scheduler_switch_to_next_process k = do {
     let current_pid = sint (current_running_pid k);
     next_pid \<leftarrow> next_active (is_process_active k) (if current_pid = -1 then -1 else current_pid);
     next_process \<leftarrow> arr_get (process_list k) next_pid;
     pl \<leftarrow> set_state (process_list k) (int next_pid) RUNNING;
     pl \<leftarrow> (if int next_pid \<noteq> current_pid then set_state pl current_pid READY else Some pl);
     let k = k\<lparr>process_list := pl, current_running_pid := of_nat next_pid,
              cr3 := page_directory_virtual_addr (pcb_context next_process)\<rparr>;
     Some (pcb_context next_process, k)
   }"

text \<open>
  The first switch comes from no process: the current number is \<open>-1\<close>, and the loop stores \<open>READY\<close> in
  the state of the element before the array, in memory of some other object. C gives that no meaning,
  and it is a fault of \<open>scheduler_switch_to_next_process\<close>. \<open>first_switch\<close> is the run of the same loop
  in which the store hits a place where it does no harm, and the machine starts.
\<close>

definition first_switch :: "kernel \<Rightarrow> (task_context \<times> kernel) option" where
  "first_switch k =
     (if current_running_pid k = -1 then do {
        next_pid \<leftarrow> next_active (is_process_active k) (-1);
        next_process \<leftarrow> arr_get (process_list k) next_pid;
        pl \<leftarrow> set_state (process_list k) (int next_pid) RUNNING;
        let k = k\<lparr>process_list := pl, current_running_pid := of_nat next_pid,
                 cr3 := page_directory_virtual_addr (pcb_context next_process)\<rparr>;
        Some (pcb_context next_process, k)
      }
      else None)"

subsection \<open>The context switch: \<open>process/context-switch.s\<close>\<close>

text \<open>The words of \<open>struct Context\<close> in memory, up to the page directory.\<close>

definition context_words :: "task_context \<Rightarrow> u32 list" where
  "context_words ctx =
     (let c = cpu ctx in
      [reg_edi c, reg_esi c, reg_ebp c, reg_esp c, reg_ebx c, reg_edx c, reg_ecx c, reg_eax c,
       reg_gs c, reg_fs c, reg_es c, reg_ds c, eip ctx, eflags ctx])"

text \<open>What the processor holds after the \<open>iret\<close>.\<close>

record loaded =
  ld_cpu :: cpu_register
  ld_eip :: u32
  ld_eflags :: u32
  ld_cs :: u32
  ld_ss :: u32

text \<open>The loads in the order of the source, each from its offset. EAX comes from the offset 0x14.\<close>

definition process_context_switch :: "task_context \<Rightarrow> loaded" where
  "process_context_switch ctx =
     (let ecx_at = (\<lambda>offset. context_words ctx ! (offset div 4)) in
      \<lparr> ld_cpu =
          \<lparr> reg_edi = ecx_at 0, reg_esi = ecx_at 0x4, reg_ebp = ecx_at 0x8, reg_esp = ecx_at 0xC,
            reg_ebx = ecx_at 0x10, reg_edx = ecx_at 0x14, reg_ecx = ecx_at 0x18, reg_eax = ecx_at 0x14,
            reg_gs = ecx_at 0x20, reg_fs = ecx_at 0x24, reg_es = ecx_at 0x28, reg_ds = ecx_at 0x2C \<rparr>,
        ld_eip = ecx_at 0x30, ld_eflags = ecx_at 0x34, ld_cs = 0x18 OR 0x3, ld_ss = 0x23 \<rparr>)"

lemma context_loaded:
  "ld_cpu (process_context_switch ctx) = (cpu ctx)\<lparr>reg_eax := reg_edx (cpu ctx)\<rparr>"
  "ld_eip (process_context_switch ctx) = eip ctx" "ld_eflags (process_context_switch ctx) = eflags ctx"
  by (simp_all add: process_context_switch_def context_words_def Let_def)

subsection \<open>The timer and the end of a process\<close>

text \<open>The timer interrupt, and the system calls that end a process.\<close>

definition timer_interrupt :: "kernel \<Rightarrow> task_context \<Rightarrow> (task_context \<times> kernel) option" where
  "timer_interrupt k ctx =
     (let k = scheduler_save_context_to_current_running_pcb k ctx;
          k = k\<lparr>pit_ticks := pit_ticks k + 1\<rparr>
      in scheduler_switch_to_next_process k)"

definition syscall_exit :: "kernel \<Rightarrow> (task_context \<times> kernel) option" where
  "syscall_exit k =
     (case process_get_current_running_pcb_pointer k of
        None \<Rightarrow> None
      | Some current \<Rightarrow> do {
          (_, k) \<leftarrow> process_destroy k (pcb_pid (process_list k ! current));
          scheduler_switch_to_next_process k
        })"

definition PIT_TIMER_FREQUENCY :: u32 where "PIT_TIMER_FREQUENCY = 1000"

definition sleep_ticks :: "u32 \<Rightarrow> u32" where
  "sleep_ticks ms = (ms + 1000 div PIT_TIMER_FREQUENCY - 1) div (1000 div PIT_TIMER_FREQUENCY)"

text \<open>
  The loop of \<open>sleep_ms\<close>: \<open>now\<close> is the tick counter, \<open>n\<close> counts the \<open>hlt\<close>s. With interrupts enabled
  (\<open>iflag\<close>) a \<open>hlt\<close> ends with the next interrupt, and \<open>wakes n\<close> tells whether that is one of the timer,
  whose handler advances the counter. With interrupts disabled a \<open>hlt\<close> never ends.
\<close>

partial_function (option) sleep_loop :: "bool \<Rightarrow> (nat \<Rightarrow> bool) \<Rightarrow> u32 \<Rightarrow> u32 \<Rightarrow> nat \<Rightarrow> u32 \<Rightarrow> u32 option" where
  "sleep_loop iflag wakes start ticks_to_wait n now =
     (if now - start < ticks_to_wait then
        if iflag then sleep_loop iflag wakes start ticks_to_wait (n + 1) (if wakes n then now + 1 else now) else None
      else Some now)"

definition sleep_ms :: "bool \<Rightarrow> (nat \<Rightarrow> bool) \<Rightarrow> u32 \<Rightarrow> u32 \<Rightarrow> u32 option" where
  "sleep_ms iflag wakes ms now = sleep_loop iflag wakes now (sleep_ticks ms) 0 now"

subsection \<open>The invariant\<close>

definition dir_ptr :: "kernel \<Rightarrow> nat \<Rightarrow> pd_ptr" where
  "dir_ptr k i = page_directory_virtual_addr (pcb_context (process_list k ! i))"

text \<open>
  The count is the number of active slots, free slots are zeroed, at most the process with the
  current number is \<open>RUNNING\<close>, and every process has its own page directory, which is taken.
\<close>

definition proc_ok :: "kernel \<Rightarrow> bool" where
  "proc_ok k \<longleftrightarrow> length (process_list k) = 16 \<and> length (is_process_active k) = 16 \<and>
     unat (active_process_count k) = card {i. i < 16 \<and> is_process_active k ! i} \<and> paging_ok (pages k) \<and>
     (\<forall>i<16. \<not> is_process_active k ! i \<longrightarrow> process_list k ! i = zero_pcb) \<and>
     (\<forall>i<16. process_state (process_list k ! i) = RUNNING \<longrightarrow> current_running_pid k = of_nat i) \<and>
     (\<forall>i<16. dir_ptr k i = PD_NULL \<or> (\<exists>d<32. dir_ptr k i = PD d \<and> page_directory_used (pages k) ! d)) \<and>
     (\<forall>i<16. \<forall>j<16. i \<noteq> j \<longrightarrow> dir_ptr k i = dir_ptr k j \<longrightarrow> dir_ptr k i = PD_NULL)"

lemma proc_okD:
  assumes "proc_ok k"
  shows "length (process_list k) = 16" "length (is_process_active k) = 16"
    "unat (active_process_count k) = card {i. i < 16 \<and> is_process_active k ! i}" "paging_ok (pages k)"
    "i < 16 \<Longrightarrow> \<not> is_process_active k ! i \<Longrightarrow> process_list k ! i = zero_pcb"
    "i < 16 \<Longrightarrow> process_state (process_list k ! i) = RUNNING \<Longrightarrow> current_running_pid k = of_nat i"
    "i < 16 \<Longrightarrow> dir_ptr k i = PD_NULL \<or> (\<exists>d<32. dir_ptr k i = PD d \<and> page_directory_used (pages k) ! d)"
    "i < 16 \<Longrightarrow> j < 16 \<Longrightarrow> i \<noteq> j \<Longrightarrow> dir_ptr k i = dir_ptr k j \<Longrightarrow> dir_ptr k i = PD_NULL"
  using assms unfolding proc_ok_def by blast+

lemma zero_pcb_simps [simp]:
  "process_state zero_pcb = READY" "page_directory_virtual_addr (pcb_context zero_pcb) = PD_NULL"
  by (simp_all add: zero_pcb_def)

lemma proc_init_ok: "paging_ok pg \<Longrightarrow> proc_ok (process_init pg st)"
  by (simp add: proc_ok_def process_init_def dir_ptr_def)

lemma inactive_index:
  assumes "proc_ok k" "active_process_count k < 16"
  obtains i where "i < 16" "\<not> is_process_active k ! i"
    "process_list_get_inactive_index k =
      Some (i, k\<lparr>is_process_active := (is_process_active k)[i := True], active_process_count := active_process_count k + 1\<rparr>)"
proof -
  note ok = proc_okD [OF assms(1)]
  let ?act = "is_process_active k"
  let ?i = "length (takeWhile (\<lambda>b. b) ?act)"
  have "{i. i < 16 \<and> ?act ! i} \<noteq> {..<16}"
  proof
    assume "{i. i < 16 \<and> ?act ! i} = {..<16}"
    then have "unat (active_process_count k) = 16" using ok(3) by simp
    with assms(2) show False by (simp add: word_less_nat_alt)
  qed
  then obtain j where "j < 16" "\<not> ?act ! j" by auto
  then have "\<not> (\<forall>b\<in>set ?act. b)" using ok(2) by (metis nth_mem)
  then have "takeWhile (\<lambda>b. b) ?act \<noteq> ?act" by (metis takeWhile_eq_all_conv)
  then have "?i \<noteq> length ?act" using takeWhile_eq_take [of "\<lambda>b. b" ?act] by auto
  then have "?i < length ?act" using length_takeWhile_le [of "\<lambda>b. b" ?act] by linarith
  then have i: "?i < 16" "\<not> ?act ! ?i" using ok(2) nth_length_takeWhile [of "\<lambda>b. b" ?act] by simp_all
  show thesis
    by (rule that [OF i]) (use i ok(2) in \<open>simp add: process_list_get_inactive_index_def Let_def\<close>)
qed

lemma card_activate: "length act = 16 \<Longrightarrow> i < 16 \<Longrightarrow> \<not> act ! i \<Longrightarrow>
    card {j. j < 16 \<and> act[i := True] ! j} = Suc (card {j. j < (16 :: nat) \<and> act ! j})"
proof -
  assume *: "length act = 16" "i < 16" "\<not> act ! i"
  then have "{j. j < 16 \<and> act[i := True] ! j} = insert i {j. j < 16 \<and> act ! j}"
    by (auto simp: nth_list_upd)
  then show ?thesis using * by simp
qed

lemma card_deactivate: "length act = 16 \<Longrightarrow> i < 16 \<Longrightarrow> act ! i \<Longrightarrow>
    Suc (card {j. j < 16 \<and> act[i := False] ! j}) = card {j. j < (16 :: nat) \<and> act ! j}"
proof -
  assume *: "length act = 16" "i < 16" "act ! i"
  then have "{j. j < 16 \<and> act ! j} = insert i {j. j < 16 \<and> act[i := False] ! j}"
    by (auto simp: nth_list_upd split: if_splits)
  then show ?thesis using * by simp
qed

lemma card_slots: "card {j. j < (16 :: nat) \<and> P j} \<le> 16"
  using card_mono [of "{..<16}" "{j. j < (16 :: nat) \<and> P j}"] by auto

subsection \<open>Every operation keeps the invariant\<close>

text \<open>What a directory pointer may be, and two allocations through it.\<close>

lemma allocate_any:
  assumes "paging_ok s" "p = PD_NULL \<or> valid_ptr p" "paging_allocate_user_page_frame s p va = Some (b, s')"
  shows "paging_ok s' \<and> page_directory_used s' = page_directory_used s"
proof (cases "p = PD_NULL")
  case True
  with assms(3) have "s' = s"
    by (auto simp: paging_allocate_user_page_frame_def update_page_directory_entry_def get_dir_def bind_eq_Some_conv Let_def
        split: if_splits option.splits)
  with assms(1) show ?thesis by simp
next
  case False
  with assms allocate_frame_spec [of s p va] show ?thesis by simp
qed

lemma proc_ok_slot:
  assumes ok: "proc_ok k" and i: "i < 16" "\<not> is_process_active k ! i"
    and p: "process_state p \<noteq> RUNNING" "page_directory_virtual_addr (pcb_context p) \<in> {PD_NULL, d}"
    and pg: "paging_ok pg" "\<forall>e<32. page_directory_used (pages k) ! e \<longrightarrow> page_directory_used pg ! e"
    and d: "d = PD_NULL \<or> (\<exists>e<32. d = PD e \<and> \<not> page_directory_used (pages k) ! e \<and> page_directory_used pg ! e)"
  shows "proc_ok (k\<lparr>is_process_active := (is_process_active k)[i := True],
    active_process_count := active_process_count k + 1, process_list := (process_list k)[i := p], pages := pg, cr3 := c\<rparr>)"
    (is "proc_ok ?k")
proof -
  note o = proc_okD [OF ok]
  have dir: "dir_ptr ?k j = (if j = i then page_directory_virtual_addr (pcb_context p) else dir_ptr k j)" if "j < 16" for j
    using that o(1) by (simp add: dir_ptr_def nth_list_upd)
  have "card {j. j < 16 \<and> is_process_active k ! j} \<le> 16" by (rule card_slots)
  then have "unat (active_process_count k + 1) = Suc (unat (active_process_count k))"
    using o(3) by (simp add: unat_word_ariths)
  then have count: "unat (active_process_count ?k) = card {j. j < 16 \<and> is_process_active ?k ! j}"
    using card_activate [OF o(2) i] o(3) by simp
  have new: "dir_ptr k j \<noteq> d" if "j < 16" "d \<noteq> PD_NULL" for j
    using o(7) [OF that(1)] d that(2) by auto
  have dirs: "dir_ptr ?k j = PD_NULL \<or> (\<exists>e<32. dir_ptr ?k j = PD e \<and> page_directory_used pg ! e)" if "j < 16" for j
    using o(7) [OF that] d p(2) pg(2) dir [OF that] by auto
  have inj: "dir_ptr ?k j = PD_NULL" if "j < 16" "l < 16" "j \<noteq> l" "dir_ptr ?k j = dir_ptr ?k l" for j l
    using dir [OF that(1)] dir [OF that(2)] o(8) [OF that(1,2,3)] new [OF that(1)] new [OF that(2)] p(2) that by (auto split: if_splits)
  show ?thesis
    unfolding proc_ok_def using o(1,2,5,6) count pg(1) dirs inj p(1)
    by (simp add: nth_list_upd)
qed

text \<open>The two ways a process creation that passed its checks can end.\<close>

lemma create_cases:
  assumes "process_create_user_process k req entry = Some (r, k', img)"
  obtains "k' = k" "r \<in> {1, 2, 3}"
  | i k1 pd pg1 b0 pg2 b1 pg3 p where
    "active_process_count k < 16" "entry < KERNEL_VIRTUAL_ADDRESS_BASE"
    "process_list_get_inactive_index k = Some (i, k1)" "paging_create_new_page_directory (pages k1) = Some (pd, pg1)"
    "paging_allocate_user_page_frame pg1 pd entry = Some (b0, pg2)"
    "paging_allocate_user_page_frame pg2 pd 0xBFFFFFFC = Some (b1, pg3)" "i < length (process_list k1)"
    "p = (process_list k1 ! i)\<lparr>virtual_addr_used := (virtual_addr_used (process_list k1 ! i))[0 := bool_addr b0, 1 := bool_addr b1]\<rparr>"
    "r = 4 \<and> k' = k1\<lparr>process_list := (process_list k1)[i := p], pages := pg3, cr3 := pd\<rparr> \<or>
     r = 0 \<and> k' = k1\<lparr>process_list := (process_list k1)[i := setup_pcb p req entry pd i], pages := pg3, cr3 := cr3 k1\<rparr>"
proof (cases "active_process_count k \<ge> 16 \<or> entry \<ge> KERNEL_VIRTUAL_ADDRESS_BASE \<or>
    \<not> paging_allocate_check (pages k) (ceil_div (buffer_size req + PAGE_FRAME_SIZE) PAGE_FRAME_SIZE) \<or>
    ceil_div (buffer_size req + PAGE_FRAME_SIZE) PAGE_FRAME_SIZE > 8")
  case True
  then have "k' = k" "r \<in> {1, 2, 3}"
    using assms by (auto simp: process_create_user_process_def process_codes Let_def split: if_splits)
  then show thesis by (rule that(1))
next
  case False
  then show thesis
    using assms that(2)
    by (simp add: process_create_user_process_def process_codes Let_def bind_eq_Some_conv not_le arr_get_def arr_put_def
        split: if_splits) (elim exE conjE, force split: if_splits)
qed

lemma create_keeps:
  assumes "proc_ok k" "process_create_user_process k req entry = Some (r, k', img)"
  shows "proc_ok k'"
  using assms(2)
proof (cases rule: create_cases)
  case 1
  with assms(1) show ?thesis by simp
next
  case (2 i k1 pd pg1 b0 pg2 b1 pg3 p)
  from inactive_index [OF assms(1) 2(1)] obtain j where j: "j < 16" "\<not> is_process_active k ! j"
    "process_list_get_inactive_index k =
      Some (j, k\<lparr>is_process_active := (is_process_active k)[j := True], active_process_count := active_process_count k + 1\<rparr>)" .
  with 2(3) have i: "i = j" and k1: "k1 = k\<lparr>is_process_active := (is_process_active k)[i := True], active_process_count := active_process_count k + 1\<rparr>"
    by auto
  note o = proc_okD [OF assms(1)]
  have pages: "pages k1 = pages k" and pl: "process_list k1 ! i = zero_pcb" "process_list k1 = process_list k"
    using j o(5) by (simp_all add: k1 i)
  note new = create_directory_spec [OF o(4)]
  have pg1: "paging_ok pg1"
    and pd: "pd = PD_NULL \<and> pg1 = pages k \<or>
      (\<exists>d<32. pd = PD d \<and> \<not> page_directory_used (pages k) ! d \<and> page_directory_used pg1 = (page_directory_used (pages k))[d := True])"
    using new 2(4) unfolding pages by (auto split: if_splits)
  have ptr: "pd = PD_NULL \<or> valid_ptr pd" using pd by (auto simp: valid_ptr_def)
  note a1 = allocate_any [OF pg1 ptr 2(5)]
  note a2 = allocate_any [OF conjunct1 [OF a1] ptr 2(6)]
  have used: "page_directory_used pg3 = page_directory_used pg1" using a1 a2 by simp
  have len: "length (page_directory_used (pages k)) = 32" using o(4) by (simp add: paging_ok_def)
  have keep: "\<forall>e<32. page_directory_used (pages k) ! e \<longrightarrow> page_directory_used pg3 ! e"
    using pd len unfolding used by (auto simp: nth_list_upd)
  have d: "pd = PD_NULL \<or> (\<exists>e<32. pd = PD e \<and> \<not> page_directory_used (pages k) ! e \<and> page_directory_used pg3 ! e)"
    using pd len unfolding used by auto
  note slot = proc_ok_slot [OF assms(1) j(1,2) _ _ conjunct1 [OF a2] keep d]
  have p: "process_state p = READY" "page_directory_virtual_addr (pcb_context p) = PD_NULL"
    using 2(8) pl by simp_all
  show ?thesis
    using 2(9) slot [of p pd] slot [of "setup_pcb p req entry pd i" "cr3 k"] p by (auto simp: k1 i setup_pcb_def)
qed

lemma destroy_eq:
  assumes "proc_ok k" "unat pid < 16" "is_process_active k ! unat pid"
  obtains b pg where "paging_free_page_directory (pages k) (dir_ptr k (unat pid)) = Some (b, pg)" "paging_ok pg"
    "page_directory_used pg = (case dir_ptr k (unat pid) of PD d \<Rightarrow> (page_directory_used (pages k))[d := False] | _ \<Rightarrow> page_directory_used (pages k))"
    "process_destroy k pid = Some (True, k\<lparr>is_process_active := (is_process_active k)[unat pid := False],
       active_process_count := active_process_count k - 1, pages := pg, process_list := (process_list k)[unat pid := zero_pcb]\<rparr>)"
proof -
  note o = proc_okD [OF assms(1)]
  have "ok (paging_free_page_directory (pages k) (dir_ptr k (unat pid))) (\<lambda>(b, pg). paging_ok pg \<and>
      page_directory_used pg = (case dir_ptr k (unat pid) of PD d \<Rightarrow> (page_directory_used (pages k))[d := False] | _ \<Rightarrow> page_directory_used (pages k)))"
    by (rule ok_mono [OF free_directory_spec [OF o(4)]]) (use o(7) [OF assms(2)] in \<open>auto split: pd_ptr.splits\<close>)
  then obtain b pg where "paging_free_page_directory (pages k) (dir_ptr k (unat pid)) = Some (b, pg)" "paging_ok pg"
    "page_directory_used pg = (case dir_ptr k (unat pid) of PD d \<Rightarrow> (page_directory_used (pages k))[d := False] | _ \<Rightarrow> page_directory_used (pages k))"
    by (auto simp: ok_def)
  then show thesis
    using that o(1,2) assms(2,3) by (simp add: process_destroy_def dir_ptr_def)
qed

lemma destroy_keeps:
  assumes "proc_ok k" "process_destroy k pid = Some (b, k')"
  shows "proc_ok k'"
proof (cases "unat pid < 16 \<and> is_process_active k ! unat pid")
  case False
  then show ?thesis using assms proc_okD(2) [OF assms(1)]
    by (auto simp: process_destroy_def arr_get_def bind_eq_Some_conv split: if_splits)
next
  case True
  note o = proc_okD [OF assms(1)]
  let ?i = "unat pid"
  from True have i: "?i < 16" "is_process_active k ! ?i" by simp_all
  from destroy_eq [OF assms(1) i] obtain b' pg where pg: "paging_ok pg"
    "page_directory_used pg = (case dir_ptr k ?i of PD d \<Rightarrow> (page_directory_used (pages k))[d := False] | _ \<Rightarrow> page_directory_used (pages k))"
    and k': "process_destroy k pid = Some (True, k\<lparr>is_process_active := (is_process_active k)[?i := False],
       active_process_count := active_process_count k - 1, pages := pg, process_list := (process_list k)[?i := zero_pcb]\<rparr>)"
    by blast
  have k'_eq: "k' = k\<lparr>is_process_active := (is_process_active k)[?i := False],
       active_process_count := active_process_count k - 1, pages := pg, process_list := (process_list k)[?i := zero_pcb]\<rparr>"
    using assms(2) k' by simp
  have dir: "dir_ptr k' j = (if j = ?i then PD_NULL else dir_ptr k j)" if "j < 16" for j
    using that o(1) by (simp add: k'_eq dir_ptr_def nth_list_upd)
  have "unat (active_process_count k) = Suc (card {j. j < 16 \<and> (is_process_active k)[?i := False] ! j})"
    using card_deactivate [OF o(2) i] o(3) by simp
  moreover from this have "active_process_count k \<noteq> 0" by auto
  ultimately have count: "unat (active_process_count k') = card {j. j < 16 \<and> is_process_active k' ! j}"
    by (simp add: k'_eq unat_minus_one)
  have len: "length (page_directory_used (pages k)) = 32" using o(4) by (simp add: paging_ok_def)
  have dirs: "dir_ptr k' j = PD_NULL \<or> (\<exists>e<32. dir_ptr k' j = PD e \<and> page_directory_used (pages k') ! e)" if "j < 16" for j
    using o(7) [OF that] o(8) [OF i(1) that] dir [OF that] pg(2) len
    by (auto simp: k'_eq nth_list_upd split: pd_ptr.splits if_splits)
  have inj: "dir_ptr k' j = PD_NULL" if "j < 16" "l < 16" "j \<noteq> l" "dir_ptr k' j = dir_ptr k' l" for j l
    using dir [OF that(1)] dir [OF that(2)] o(8) [OF that(1,2,3)] that by (auto split: if_splits)
  have state: "process_state (process_list k' ! j) = RUNNING \<longrightarrow> current_running_pid k' = of_nat j" if "j < 16" for j
    using o(1) o(6) [OF that] that by (simp add: k'_eq nth_list_upd)
  have zero: "\<not> is_process_active k' ! j \<longrightarrow> process_list k' ! j = zero_pcb" if "j < 16" for j
    using o(1,2) o(5) [OF that] that by (simp add: k'_eq nth_list_upd)
  have base: "length (process_list k') = 16" "length (is_process_active k') = 16" "paging_ok (pages k')"
    using o(1,2) pg(1) by (simp_all add: k'_eq)
  show ?thesis unfolding proc_ok_def using base count dirs inj state zero by blast
qed

lemma running_pcb:
  assumes "process_get_current_running_pcb_pointer k = Some i"
  shows "i < 16" "is_process_active k ! i" "process_state (process_list k ! i) = RUNNING"
  using assms by (auto simp: process_get_current_running_pcb_pointer_def find_Some_iff)

lemma save_context_fields [simp]:
  "is_process_active (scheduler_save_context_to_current_running_pcb k ctx) = is_process_active k"
  "active_process_count (scheduler_save_context_to_current_running_pcb k ctx) = active_process_count k"
  "current_running_pid (scheduler_save_context_to_current_running_pcb k ctx) = current_running_pid k"
  "pages (scheduler_save_context_to_current_running_pcb k ctx) = pages k"
  by (simp_all add: scheduler_save_context_to_current_running_pcb_def Let_def split: option.split)

lemma save_keeps:
  assumes "proc_ok k"
  shows "proc_ok (scheduler_save_context_to_current_running_pcb k ctx)" (is "proc_ok ?k")
proof (cases "process_get_current_running_pcb_pointer k")
  case None
  then show ?thesis using assms by (simp add: scheduler_save_context_to_current_running_pcb_def)
next
  case (Some i)
  note o = proc_okD [OF assms] and r = running_pcb [OF Some]
  let ?p = "(process_list k ! i)\<lparr>process_state := READY,
    pcb_context := (pcb_context (process_list k ! i))\<lparr>cpu := cpu ctx, eip := eip ctx, eflags := eflags ctx\<rparr>\<rparr>"
  have pl: "process_list ?k = (process_list k)[i := ?p]"
    by (simp add: scheduler_save_context_to_current_running_pcb_def Some Let_def)
  then have at: "process_list ?k ! j = (if j = i then ?p else process_list k ! j)" if "j < 16" for j
    using that o(1) by (simp add: nth_list_upd)
  have dir: "dir_ptr ?k j = dir_ptr k j" if "j < 16" for j
    using at [OF that] by (simp add: dir_ptr_def)
  have state: "process_state (process_list ?k ! j) = RUNNING \<longrightarrow> current_running_pid ?k = of_nat j" if "j < 16" for j
    using at [OF that] o(6) [OF that] by simp
  have zero: "\<not> is_process_active ?k ! j \<longrightarrow> process_list ?k ! j = zero_pcb" if "j < 16" for j
    using at [OF that] o(5) [OF that] r(2) by simp
  show ?thesis
    unfolding proc_ok_def using o(1,2,3,4) state zero o(7,8) dir pl by simp
qed

lemma set_state_Some:
  "set_state pl i s = Some pl' \<longleftrightarrow> 0 \<le> i \<and> nat i < length pl \<and> pl' = pl[nat i := (pl ! nat i)\<lparr>process_state := s\<rparr>]"
  by (auto simp: set_state_def arr_get_def)

lemma next_active_result: "next_active act c = Some n \<Longrightarrow> n < length act \<and> act ! n"
proof -
  assume *: "next_active act c = Some n"
  show ?thesis
  proof (rule next_active.raw_induct [where P = "\<lambda>act c n. n < length act \<and> act ! n", OF _ *])
    fix f act c n
    assume IH: "\<And>act c n. f act c = Some n \<Longrightarrow> n < length act \<and> act ! n"
      and eq: "(let next_pid = (c + 1) smod int PROCESS_COUNT_MAX in
        if next_pid < 0 then None
        else arr_get act (nat next_pid) \<bind> (\<lambda>a. if a then Some (nat next_pid) else f act next_pid)) = Some n"
    then show "n < length act \<and> act ! n"
      by (auto simp: Let_def arr_get_def split: if_splits dest: IH)
  qed
qed

lemma switch_cases:
  assumes "scheduler_switch_to_next_process k = Some (ctx, k')" "proc_ok k"
  obtains n pl where "n < 16" "is_process_active k ! n" "next_active (is_process_active k) (sint (current_running_pid k)) = Some n"
    "ctx = pcb_context (process_list k ! n)"
    "pl = (process_list k)[n := (process_list k ! n)\<lparr>process_state := RUNNING\<rparr>]"
    "int n = sint (current_running_pid k) \<or> (0 \<le> sint (current_running_pid k) \<and> nat (sint (current_running_pid k)) < 16)"
    "k' = k\<lparr>process_list := (if int n = sint (current_running_pid k) then pl
        else pl[nat (sint (current_running_pid k)) := (pl ! nat (sint (current_running_pid k)))\<lparr>process_state := READY\<rparr>]),
      current_running_pid := of_nat n, cr3 := dir_ptr k n\<rparr>"
proof -
  note o = proc_okD [OF assms(2)]
  have c: "(if sint (current_running_pid k) = -1 then -1 else sint (current_running_pid k)) = sint (current_running_pid k)"
    by simp
  from assms(1) obtain n where n: "next_active (is_process_active k) (sint (current_running_pid k)) = Some n"
    unfolding scheduler_switch_to_next_process_def Let_def c by (auto simp: bind_eq_Some_conv)
  have act: "n < 16" "is_process_active k ! n" using next_active_result [OF n] o(2) by simp_all
  show thesis
    by (rule that [OF act n])
      (use assms(1) act o(1) in \<open>auto simp: scheduler_switch_to_next_process_def Let_def n set_state_Some dir_ptr_def
        bind_eq_Some_conv split: if_splits\<close>)
qed

lemma switch_keeps:
  assumes "proc_ok k" "scheduler_switch_to_next_process k = Some (ctx, k')"
  shows "proc_ok k'"
  using assms(2,1)
proof (cases rule: switch_cases)
  case (1 n pl)
  note o = proc_okD [OF assms(1)]
  let ?c = "sint (current_running_pid k)"
  have pl: "process_list k' ! j = (if j = n then (process_list k ! n)\<lparr>process_state := RUNNING\<rparr>
      else if int j = ?c then (process_list k ! j)\<lparr>process_state := READY\<rparr> else process_list k ! j)" if "j < 16" for j
    using 1(1,5,6,7) that o(1) by (auto simp: nth_list_upd)
  have dir: "dir_ptr k' j = dir_ptr k j" if "j < 16" for j
    using pl [OF that] by (simp add: dir_ptr_def)
  have cur: "current_running_pid k' = of_nat n" using 1(7) by simp
  have state: "process_state (process_list k' ! j) = RUNNING \<longrightarrow> current_running_pid k' = of_nat j" if "j < 16" for j
  proof (intro impI)
    assume run: "process_state (process_list k' ! j) = RUNNING"
    show "current_running_pid k' = of_nat j"
    proof (rule ccontr)
      assume neq: "current_running_pid k' \<noteq> of_nat j"
      with cur have "j \<noteq> n" by auto
      with run pl [OF that] have "process_state (process_list k ! j) = RUNNING" "int j \<noteq> ?c" by (auto split: if_splits)
      with o(6) [OF that] have "current_running_pid k = of_nat j" by simp
      then have "?c = int j" using that by (simp add: signed_of_nat signed_take_bit_int_eq_self)
      with \<open>int j \<noteq> ?c\<close> show False by simp
    qed
  qed
  have ready: "p = zero_pcb \<Longrightarrow> p\<lparr>process_state := READY\<rparr> = zero_pcb" for p by (simp add: zero_pcb_def)
  have zero: "\<not> is_process_active k' ! j \<longrightarrow> process_list k' ! j = zero_pcb" if "j < 16" for j
    using pl [OF that] o(5) [OF that] 1(2,7) ready by auto
  have base: "length (process_list k') = 16" "length (is_process_active k') = 16" "paging_ok (pages k')"
      "unat (active_process_count k') = card {j. j < 16 \<and> is_process_active k' ! j}" "pages k' = pages k"
    using o(1-4) 1(5,7) by simp_all
  show ?thesis
    unfolding proc_ok_def using base state zero o(7,8) dir by simp
qed

lemma tick_keeps [simp]: "proc_ok (k\<lparr>pit_ticks := t\<rparr>) = proc_ok k"
  by (simp add: proc_ok_def dir_ptr_def)

lemma files_keep [simp]: "proc_ok (k\<lparr>kernel_fs := st\<rparr>) = proc_ok k"
  by (simp add: proc_ok_def dir_ptr_def)

lemma frame_keeps:
  assumes "proc_ok k" "paging_allocate_user_page_frame (pages k) PD_KERNEL va = Some (b, pg)"
  shows "proc_ok (k\<lparr>pages := pg\<rparr>)"
proof -
  have "paging_ok pg \<and> page_directory_used pg = page_directory_used (pages k)"
    by (rule allocate_any [OF proc_okD(4) [OF assms(1)] _ assms(2)]) (simp add: valid_ptr_def)
  then show ?thesis using assms(1) by (simp add: proc_ok_def dir_ptr_def)
qed

lemma first_switch_cases:
  assumes "first_switch k = Some (ctx, k')" "proc_ok k"
  obtains n where "n < 16" "is_process_active k ! n" "next_active (is_process_active k) (-1) = Some n" "current_running_pid k = -1"
    "ctx = pcb_context (process_list k ! n)"
    "k' = k\<lparr>process_list := (process_list k)[n := (process_list k ! n)\<lparr>process_state := RUNNING\<rparr>],
      current_running_pid := of_nat n, cr3 := dir_ptr k n\<rparr>"
proof -
  note o = proc_okD [OF assms(2)]
  from assms(1) obtain n where n: "next_active (is_process_active k) (-1) = Some n"
    unfolding first_switch_def by (auto simp: bind_eq_Some_conv split: if_splits)
  have act: "n < 16" "is_process_active k ! n" using next_active_result [OF n] o(2) by simp_all
  show thesis
    by (rule that [OF act n])
      (use assms(1) act o(1) in \<open>auto simp: first_switch_def Let_def n set_state_Some dir_ptr_def bind_eq_Some_conv split: if_splits\<close>)
qed

lemma first_switch_keeps:
  assumes "proc_ok k" "first_switch k = Some (ctx, k')"
  shows "proc_ok k'"
  using assms(2,1)
proof (cases rule: first_switch_cases)
  case (1 n)
  note o = proc_okD [OF assms(1)]
  have idle: "process_state (process_list k ! j) \<noteq> RUNNING" if "j < 16" for j
  proof
    assume "process_state (process_list k ! j) = RUNNING"
    from o(6) [OF that this] 1(4) have "unat (- 1 :: u32) = unat (of_nat j :: u32)" by simp
    then show False using that by (simp add: unat_of_nat_u32 unsigned_minus_1_eq_mask mask_eq_exp_minus_1)
  qed
  have pl: "process_list k' ! j = (if j = n then (process_list k ! n)\<lparr>process_state := RUNNING\<rparr> else process_list k ! j)" if "j < 16" for j
    using 1(1,6) that o(1) by (simp add: nth_list_upd)
  have dir: "dir_ptr k' j = dir_ptr k j" if "j < 16" for j
    using pl [OF that] by (simp add: dir_ptr_def)
  have state: "process_state (process_list k' ! j) = RUNNING \<longrightarrow> current_running_pid k' = of_nat j" if "j < 16" for j
    using pl [OF that] idle [OF that] 1(6) by simp
  have zero: "\<not> is_process_active k' ! j \<longrightarrow> process_list k' ! j = zero_pcb" if "j < 16" for j
    using pl [OF that] o(5) [OF that] 1(2,6) by auto
  show ?thesis
    unfolding proc_ok_def using o(1-4) 1(6) state zero o(7,8) dir by simp
qed

lemma timer_switch:
  assumes "proc_ok k" "timer_interrupt k regs = Some (ctx, k')"
  obtains k1 where "proc_ok k1" "scheduler_switch_to_next_process k1 = Some (ctx, k')"
proof -
  let ?k = "scheduler_save_context_to_current_running_pcb k regs"
  have "proc_ok (?k\<lparr>pit_ticks := pit_ticks ?k + 1\<rparr>)" using save_keeps [OF assms(1)] by simp
  moreover have "scheduler_switch_to_next_process (?k\<lparr>pit_ticks := pit_ticks ?k + 1\<rparr>) = Some (ctx, k')"
    using assms(2) by (simp add: timer_interrupt_def Let_def)
  ultimately show thesis by (rule that)
qed

lemma exit_switch:
  assumes "proc_ok k" "syscall_exit k = Some (ctx, k')"
  obtains k1 where "proc_ok k1" "scheduler_switch_to_next_process k1 = Some (ctx, k')"
proof -
  from assms(2) obtain i b k1 where "process_destroy k (pcb_pid (process_list k ! i)) = Some (b, k1)"
    "scheduler_switch_to_next_process k1 = Some (ctx, k')"
    by (auto simp: syscall_exit_def bind_eq_Some_conv split: option.splits)
  then show thesis using destroy_keeps [OF assms(1)] that by blast
qed

text \<open>The events that change the state, and the states they lead to.\<close>

inductive kstep :: "kernel \<Rightarrow> kernel \<Rightarrow> bool" where
  timer: "timer_interrupt k regs = Some (ctx, k') \<Longrightarrow> kstep k k'"
| create: "process_create_user_process k req entry = Some (r, k', img) \<Longrightarrow> kstep k k'"
| kill: "process_destroy k pid = Some (b, k') \<Longrightarrow> kstep k k'"
| exit: "syscall_exit k = Some (ctx, k') \<Longrightarrow> kstep k k'"
| switch: "scheduler_switch_to_next_process k = Some (ctx, k') \<Longrightarrow> kstep k k'"
| first: "first_switch k = Some (ctx, k') \<Longrightarrow> kstep k k'"
| frame: "paging_allocate_user_page_frame (pages k) PD_KERNEL va = Some (b, pg) \<Longrightarrow> kstep k (k\<lparr>pages := pg\<rparr>)"
| files: "kstep k (k\<lparr>kernel_fs := st\<rparr>)"

inductive_cases kstepE: "kstep k k'"

inductive reachable :: "kernel \<Rightarrow> kernel \<Rightarrow> bool" for k0 where
  start: "reachable k0 k0"
| step: "reachable k0 k \<Longrightarrow> kstep k k' \<Longrightarrow> reachable k0 k'"

lemma kstep_keeps: "kstep k k' \<Longrightarrow> proc_ok k \<Longrightarrow> proc_ok k'"
proof (induction rule: kstep.induct)
  case (timer k regs ctx k')
  show ?case by (rule timer_switch [OF timer(2,1)]) (rule switch_keeps)
next
  case (exit k ctx k')
  show ?case by (rule exit_switch [OF exit(2,1)]) (rule switch_keeps)
next
  case (create k req entry r k' img)
  then show ?case using create_keeps by blast
next
  case (kill k pid b k')
  then show ?case using destroy_keeps by blast
next
  case (switch k ctx k')
  then show ?case using switch_keeps by blast
next
  case (first k ctx k')
  then show ?case using first_switch_keeps by blast
next
  case (frame k va b pg)
  then show ?case using frame_keeps by blast
next
  case (files k st)
  then show ?case by simp
qed

lemma reachable_ok: "reachable k0 k \<Longrightarrow> proc_ok k0 \<Longrightarrow> proc_ok k"
  by (induction rule: reachable.induct) (use kstep_keeps in blast)+

text \<open>The current number is that of a slot, or there has been no switch yet.\<close>

definition pid_ok :: "kernel \<Rightarrow> bool" where
  "pid_ok k \<longleftrightarrow> current_running_pid k = -1 \<or> unat (current_running_pid k) < 16"

lemma switch_pid: "proc_ok k \<Longrightarrow> scheduler_switch_to_next_process k = Some (ctx, k') \<Longrightarrow> pid_ok k'"
  by (erule switch_cases) (simp_all add: pid_ok_def unat_of_nat_u32)

lemma create_pid:
  assumes "proc_ok k" "process_create_user_process k req entry = Some (r, k', img)"
  shows "current_running_pid k' = current_running_pid k"
  using assms(2)
proof (cases rule: create_cases)
  case (2 i k1 pd pg1 b0 pg2 b1 pg3 p)
  from 2(3) have "current_running_pid k1 = current_running_pid k"
    by (auto simp: process_list_get_inactive_index_def Let_def bind_eq_Some_conv)
  then show ?thesis using 2(9) by auto
qed simp

lemma destroy_pid:
  assumes "proc_ok k" "process_destroy k pid = Some (b, k')"
  shows "current_running_pid k' = current_running_pid k"
proof (cases "unat pid < 16 \<and> is_process_active k ! unat pid")
  case False
  then show ?thesis using assms proc_okD(2) [OF assms(1)]
    by (auto simp: process_destroy_def arr_get_def bind_eq_Some_conv split: if_splits)
next
  case True
  from destroy_eq [OF assms(1) conjunct1 [OF True] conjunct2 [OF True]] assms(2) show ?thesis by force
qed

lemma kstep_pid: "kstep k k' \<Longrightarrow> proc_ok k \<Longrightarrow> pid_ok k \<Longrightarrow> pid_ok k'"
proof (induction rule: kstep.induct)
  case (timer k regs ctx k')
  then show ?case by (metis timer_switch switch_pid)
next
  case (create k req entry r k' img)
  then show ?case using create_pid by (simp add: pid_ok_def)
next
  case (kill k pid b k')
  then show ?case using destroy_pid by (simp add: pid_ok_def)
next
  case (exit k ctx k')
  then show ?case by (metis exit_switch switch_pid)
next
  case (switch k ctx k')
  then show ?case by (metis switch_pid)
next
  case (first k ctx k')
  show ?case by (rule first_switch_cases [OF first(1,2)]) (simp add: pid_ok_def unat_of_nat_u32)
qed (simp_all add: pid_ok_def)

lemma reachable_pid: "reachable k0 k \<Longrightarrow> proc_ok k0 \<Longrightarrow> pid_ok k0 \<Longrightarrow> pid_ok k"
proof (induction rule: reachable.induct)
  case (step k k')
  from kstep_pid [OF step(2) reachable_ok [OF step(1,4)] step(3) [OF step(4,5)]] show ?case .
qed simp

subsection \<open>Round robin\<close>

text \<open>How many places the scan passes from \<open>c\<close> to \<open>p\<close>, both ends excluded.\<close>

definition cyc :: "int \<Rightarrow> nat \<Rightarrow> nat" where
  "cyc c p = nat ((int p - c - 1) mod 16)"

lemma smod_16: "0 \<le> x \<Longrightarrow> x smod (16 :: int) = x mod 16"
  by (cases "x = 0") (simp_all add: smod_int_alt_def)

lemma next_active_step:
  assumes "length act = 16" "-1 \<le> c"
  shows "next_active act c = (if act ! nat ((c + 1) mod 16) then Some (nat ((c + 1) mod 16)) else next_active act ((c + 1) mod 16))"
proof -
  have "\<not> (c + 1) mod 16 < 0" by (simp add: not_less)
  then show ?thesis using assms by (subst next_active.simps) (simp add: smod_16 nat_less_iff Let_def)
qed

lemma cyc_next: "-1 \<le> c \<Longrightarrow> p < 16 \<Longrightarrow> nat ((c + 1) mod 16) \<noteq> p \<Longrightarrow> Suc (cyc ((c + 1) mod 16) p) = cyc c p"
proof -
  assume c: "-1 \<le> c" "p < 16" "nat ((c + 1) mod 16) \<noteq> p"
  let ?d = "(int p - c - 1) mod 16"
  have "(int p - (c + 1) mod 16 - 1) mod 16 = ((int p - c - 1) - 1) mod 16"
    by (metis (no_types, opaque_lifting) diff_diff_eq mod_diff_left_eq mod_diff_right_eq)
  also have "\<dots> = (?d - 1) mod 16" by (rule mod_diff_left_eq [symmetric])
  finally have eq: "(int p - (c + 1) mod 16 - 1) mod 16 = (?d - 1) mod 16" .
  have "?d \<noteq> 0"
  proof
    assume "?d = 0"
    then have "16 dvd int p - (c + 1)" by (simp add: mod_eq_0_iff_dvd algebra_simps)
    then have "int p mod 16 = (c + 1) mod 16" by (simp add: mod_eq_dvd_iff)
    with c show False by simp
  qed
  moreover have "0 \<le> ?d" "?d < 16" by simp_all
  ultimately have "(?d - 1) mod 16 = ?d - 1" "1 \<le> ?d" by (simp_all add: mod_pos_pos_trivial del: pos_mod_sign pos_mod_bound)
  then show ?thesis unfolding cyc_def eq by linarith
qed

text \<open>The scan finds the first active slot: at or before any given one.\<close>

lemma next_active_finds:
  "length act = 16 \<Longrightarrow> p < 16 \<Longrightarrow> act ! p \<Longrightarrow> -1 \<le> c \<Longrightarrow>
    \<exists>n. next_active act c = Some n \<and> n < 16 \<and> act ! n \<and> cyc c n \<le> cyc c p \<and>
      (\<forall>m<16. cyc c m < cyc c n \<longrightarrow> \<not> act ! m)"
proof (induction "cyc c p" arbitrary: c rule: less_induct)
  case less
  let ?q = "(c + 1) mod 16"
  have q: "nat ?q < 16" "0 \<le> ?q" by (simp_all add: nat_less_iff)
  have "(?q - (c + 1)) mod 16 = 0" by (metis mod_diff_left_eq diff_self mod_0)
  then have zero: "cyc c (nat ?q) = 0" using q by (simp add: cyc_def diff_diff_eq)
  show ?case
  proof (cases "act ! nat ?q")
    case True
    with zero q next_active_step [OF less.prems(1,4)] show ?thesis by auto
  next
    case False
    then have "nat ?q \<noteq> p" using less.prems(3) by auto
    note shift = cyc_next [OF less.prems(4)]
    from shift [OF less.prems(2) \<open>nat ?q \<noteq> p\<close>] have "cyc ?q p < cyc c p" by simp
    from less.hyps [OF this less.prems(1-3)] q obtain n where
      n: "next_active act ?q = Some n" "n < 16" "act ! n" "cyc ?q n \<le> cyc ?q p" "\<forall>m<16. cyc ?q m < cyc ?q n \<longrightarrow> \<not> act ! m" by auto
    with False have "nat ?q \<noteq> n" by auto
    from shift [OF n(2) this] shift [OF less.prems(2) \<open>nat ?q \<noteq> p\<close>] have le: "cyc c n \<le> cyc c p" using n(4) by linarith
    have "\<not> act ! m" if "m < 16" "cyc c m < cyc c n" for m
    proof (cases "nat ?q = m")
      case False
      from shift [OF that(1) this] shift [OF n(2) \<open>nat ?q \<noteq> n\<close>] that n(5) show ?thesis by auto
    qed (use \<open>\<not> act ! nat ?q\<close> in simp)
    with n le False next_active_step [OF less.prems(1,4)] show ?thesis by auto
  qed
qed

end
