(* ===== verification/Ext2_Volume.thy ===== *)
theory Ext2_Volume
  imports Ext2_Ops Ext2_Lookup
begin

section \<open>The volume as a set of files and directories\<close>

text \<open>
  The abstract view of the file system: inode numbers to contents, a file being its bytes and a
  directory its map of names. \<open>volume_ok\<close> is the invariant under which the view is meaningful:
  every inode in use owns its blocks alone, every directory is a well-formed block whose entries
  name inodes in use with the right type, and a file has one name. Directories of several blocks
  are not covered, because the code that extends one writes a stale inode table back.
\<close>

datatype contents = File "u8 list" | Folder "u8 list \<Rightarrow> (u32 \<times> u8) option"

definition file_byte :: "fs \<Rightarrow> inode \<Rightarrow> nat \<Rightarrow> u8" where
  "file_byte st node i = fs_disk st (file_block st node (i div 512)) (i mod 512)"

definition contents_of :: "fs \<Rightarrow> inode \<Rightarrow> contents" where
  "contents_of st node =
     (if is_dir_mode node then Folder (dir_map (fs_disk st (i_block node ! 0)))
      else File (map (file_byte st node) [0..<unat (i_size node)]))"

definition node_good :: "fs \<Rightarrow> inode \<Rightarrow> bool" where
  "node_good st node \<longleftrightarrow> length (i_block node) = 15 \<and> unat (i_blocks node) \<le> 140 \<and> freeable st (used_ids st node) \<and>
     (12 < unat (i_blocks node) \<longrightarrow> i_block node ! 12 \<noteq> 0) \<and>
     (if is_dir_mode node
      then i_blocks node = 1 \<and> i_block node ! 0 \<noteq> 0 \<and> i_size node = 512 \<and> dir_good (fs_disk st (i_block node ! 0))
      else unat (i_size node) \<le> 512 * unat (i_blocks node) \<and> (\<forall>k<unat (i_blocks node). file_block st node k \<noteq> 0))"

definition type_of :: "fs \<Rightarrow> nat \<Rightarrow> u8" where
  "type_of st n = (if is_dir_mode (node_of st n) then EXT2_FT_DIR else EXT2_FT_REG_FILE)"

definition live :: "fs \<Rightarrow> nat set" where
  "live st = {n \<in> {1..896}. inode_used st n}"

definition names :: "fs \<Rightarrow> nat \<Rightarrow> u8 list \<Rightarrow> (u32 \<times> u8) option" where
  "names st p = (if is_dir_mode (node_of st p) then dir_map (fs_disk st (i_block (node_of st p) ! 0)) else (\<lambda>_. None))"

definition volume_ok :: "fs \<Rightarrow> bool" where
  "volume_ok st \<longleftrightarrow> fs_ok st \<and>
     (\<forall>n\<in>live st. node_good st (node_of st n)) \<and>
     (\<forall>m\<in>live st. \<forall>n\<in>live st. m \<noteq> n \<longrightarrow> set (used_ids st (node_of st m)) \<inter> set (used_ids st (node_of st n)) = {}) \<and>
     (\<forall>p\<in>live st. \<forall>name ino ft. names st p name = Some (ino, ft) \<longrightarrow> unat ino \<in> live st \<and> ft = type_of st (unat ino)) \<and>
     (\<forall>p\<in>live st. \<forall>q\<in>live st. \<forall>s t ino. names st p s = Some (ino, EXT2_FT_REG_FILE) \<longrightarrow>
        names st q t = Some (ino, EXT2_FT_REG_FILE) \<longrightarrow> p = q \<and> s = t)"

text \<open>The abstraction.\<close>

definition view :: "fs \<Rightarrow> nat \<Rightarrow> contents option" where
  "view st n = (if n \<in> live st then Some (contents_of st (node_of st n)) else None)"

lemma volume_okD:
  assumes "volume_ok st"
  shows "fs_ok st" "n \<in> live st \<Longrightarrow> node_good st (node_of st n)"
    "m \<in> live st \<Longrightarrow> n \<in> live st \<Longrightarrow> m \<noteq> n \<Longrightarrow> set (used_ids st (node_of st m)) \<inter> set (used_ids st (node_of st n)) = {}"
    "p \<in> live st \<Longrightarrow> names st p name = Some (ino, ft) \<Longrightarrow> unat ino \<in> live st \<and> ft = type_of st (unat ino)"
    "p \<in> live st \<Longrightarrow> q \<in> live st \<Longrightarrow> names st p s = Some (ino, EXT2_FT_REG_FILE) \<Longrightarrow>
       names st q t = Some (ino, EXT2_FT_REG_FILE) \<Longrightarrow> p = q \<and> s = t"
  using assms unfolding volume_ok_def by blast+

lemma volume_okI:
  assumes "fs_ok st" "\<And>n. n \<in> live st \<Longrightarrow> node_good st (node_of st n)"
    "\<And>m n. m \<in> live st \<Longrightarrow> n \<in> live st \<Longrightarrow> m \<noteq> n \<Longrightarrow> set (used_ids st (node_of st m)) \<inter> set (used_ids st (node_of st n)) = {}"
    "\<And>p name ino ft. p \<in> live st \<Longrightarrow> names st p name = Some (ino, ft) \<Longrightarrow> unat ino \<in> live st"
    "\<And>p name ino ft. p \<in> live st \<Longrightarrow> names st p name = Some (ino, ft) \<Longrightarrow> ft = type_of st (unat ino)"
    "\<And>p q s t ino. p \<in> live st \<Longrightarrow> q \<in> live st \<Longrightarrow> names st p s = Some (ino, EXT2_FT_REG_FILE) \<Longrightarrow>
       names st q t = Some (ino, EXT2_FT_REG_FILE) \<Longrightarrow> p = q"
    "\<And>p q s t ino. p \<in> live st \<Longrightarrow> q \<in> live st \<Longrightarrow> names st p s = Some (ino, EXT2_FT_REG_FILE) \<Longrightarrow>
       names st q t = Some (ino, EXT2_FT_REG_FILE) \<Longrightarrow> s = t"
  shows "volume_ok st"
  unfolding volume_ok_def by (intro conjI ballI allI impI) (fact assms(1) | rule assms; assumption)+

lemma types_differ [simp]: "EXT2_FT_DIR \<noteq> EXT2_FT_REG_FILE" "EXT2_FT_REG_FILE \<noteq> EXT2_FT_DIR"
  by (simp_all add: EXT2_FT_DIR_def EXT2_FT_REG_FILE_def)

lemma type_of_eq: "type_of st n = EXT2_FT_REG_FILE \<longleftrightarrow> \<not> is_dir_mode (node_of st n)"
  "type_of st n = EXT2_FT_DIR \<longleftrightarrow> is_dir_mode (node_of st n)"
  by (simp_all add: type_of_def)

subsection \<open>The blocks of an inode\<close>

lemma pointers_nth: "j < n \<Longrightarrow> pointers m n ! j = get32 m (4 * j)" "length (pointers m n) = n"
  by (simp_all add: pointers_def)

lemma file_block_used:
  assumes "node_good st node" "k < unat (i_blocks node)" "file_block st node k \<noteq> 0"
  shows "file_block st node k \<in> set (used_ids st node)"
proof (cases "k < 12")
  case True
  then have "file_block st node k \<in> set (take (min 12 (unat (i_blocks node))) (i_block node))"
    using assms(1,2) by (auto simp: file_block_def node_good_def in_set_conv_nth intro!: exI [of _ k])
  then show ?thesis using assms(3) by (auto simp: used_ids_def file_ids_def Let_def)
next
  case False
  let ?p = "pointers (fs_disk st (i_block node ! 12)) (unat (i_blocks node) - 12)"
  have "k - 12 < length ?p" using assms(2) False by (simp add: pointers_nth)
  then have "?p ! (k - 12) \<in> set ?p" by (rule nth_mem)
  moreover have "file_block st node k = ?p ! (k - 12)"
    using assms(1,2) False by (simp add: file_block_def node_good_def pointers_nth)
  ultimately show ?thesis using assms(2,3) False by (simp add: used_ids_def file_ids_def Let_def)
qed

lemma dir_block_used: "node_good st node \<Longrightarrow> is_dir_mode node \<Longrightarrow> used_ids st node = [i_block node ! 0]"
  by (cases "i_block node") (auto simp: node_good_def used_ids_def file_ids_def Let_def)

lemma used_block:
  "node_good st node \<Longrightarrow> b \<in> set (used_ids st node) \<Longrightarrow> unat b < 2048 \<and> block_used st (unat b) \<and> \<not> reserved (unat b)"
  by (simp add: node_good_def freeable_def)

text \<open>An inode whose blocks are untouched keeps everything.\<close>

lemma node_frame:
  assumes "node_good st node" "\<And>b. b \<in> set (used_ids st node) \<Longrightarrow> fs_disk st' b = fs_disk st b"
    "\<And>b. b \<in> set (used_ids st node) \<Longrightarrow> block_used st' (unat b)"
  shows "used_ids st' node = used_ids st node" "node_good st' node" "contents_of st' node = contents_of st node"
proof -
  note good = assms(1) [unfolded node_good_def]
  have ind: "fs_disk st' (i_block node ! 12) = fs_disk st (i_block node ! 12)" if "12 < unat (i_blocks node)"
    using that good by (intro assms(2)) (simp add: used_ids_def file_ids_def Let_def)
  then have ids: "file_ids st' node = file_ids st node" by (simp add: file_ids_def Let_def)
  then show used: "used_ids st' node = used_ids st node" by (simp add: used_ids_def)
  have blk: "file_block st' node k = file_block st node k" if "k < unat (i_blocks node)" for k
    using that ind good by (simp add: file_block_def)
  have dir: "fs_disk st' (i_block node ! 0) = fs_disk st (i_block node ! 0)" if "is_dir_mode node"
    using dir_block_used [OF assms(1) that] by (intro assms(2)) simp
  show "node_good st' node"
    using good blk dir used assms(3) by (auto simp: node_good_def freeable_def)
  have "file_byte st' node i = file_byte st node i" if "\<not> is_dir_mode node" "i < unat (i_size node)" for i
  proof -
    have "i < unat (i_blocks node) * 512" using good that by auto
    then have k: "i div 512 < unat (i_blocks node)" by (rule less_mult_imp_div_less)
    then have "file_block st node (i div 512) \<noteq> 0" using good that by auto
    from assms(2) [OF file_block_used [OF assms(1) k this]] show ?thesis by (simp add: file_byte_def blk [OF k])
  qed
  then show "contents_of st' node = contents_of st node" using dir by (simp add: contents_of_def)
qed

subsection \<open>Reading\<close>

text \<open>The bytes behind a list of block pointers.\<close>

definition list_byte :: "fs \<Rightarrow> u32 list \<Rightarrow> nat \<Rightarrow> u8" where
  "list_byte st ids i = fs_disk st (ids ! (i div 512)) (i mod 512)"

definition place_bytes :: "mem \<Rightarrow> nat \<Rightarrow> nat \<Rightarrow> (nat \<Rightarrow> u8) \<Rightarrow> mem" where
  "place_bytes out copied n f = (\<lambda>a. if copied \<le> a \<and> a < copied + n then f (a - copied) else out a)"

lemma place_bytes_0 [simp]: "place_bytes out c 0 f = out"
  by (auto simp: place_bytes_def fun_eq_iff)

lemma place_bytes_join:
  "place_bytes (place_bytes out c n f) (c + n) m g = place_bytes out c (n + m) (\<lambda>i. if i < n then f i else g (i - n))"
  by (auto simp: place_bytes_def fun_eq_iff)

lemma place_bytes_cong: "(\<And>i. i < n \<Longrightarrow> f i = g i) \<Longrightarrow> place_bytes out c n f = place_bytes out c n g"
  by (auto simp: place_bytes_def fun_eq_iff)

lemma memcpy_place: "n \<le> 512 \<Longrightarrow> memcpy_into out c (overlay d r) 0 n = place_bytes out c n d"
  by (auto simp: place_bytes_def memcpy_into_apply fun_eq_iff)

lemma list_byte_Cons: "512 \<le> i \<Longrightarrow> list_byte st (b # ids) i = list_byte st ids (i - 512)"
proof -
  assume "512 \<le> i"
  then obtain j where i: "i = 512 + j" using le_Suc_ex by blast
  have "(512 + j) div 512 = Suc (j div 512)" by simp
  then show ?thesis by (simp only: list_byte_def i nth_Cons_Suc) simp
qed

lemma read_list_eq:
  assumes "\<And>k. k < length ids \<Longrightarrow> k * 512 < n \<Longrightarrow> ids ! k \<noteq> 0 \<and> unat (ids ! k) < 8192"
  shows "read_list st ids (out, copied, n) =
    (let m = min n (512 * length ids) in Some (place_bytes out copied m (list_byte st ids), copied + m, n - m))"
  using assms
proof (induction ids arbitrary: out copied n)
  case Nil
  then show ?case by simp
next
  case (Cons b ids)
  show ?case
  proof (cases "n = 0")
    case True
    then show ?thesis by simp
  next
    case False
    then have b: "b \<noteq> 0" "unat b < 8192" using Cons.prems [of 0] by auto
    let ?c = "min n 512"
    have step: "read_list st (b # ids) (out, copied, n) = read_list st ids (place_bytes out copied ?c (fs_disk st b), copied + ?c, n - ?c)"
      using False b by (simp add: read_block_eq memcpy_place min_def Let_def not_less)
    have rest: "ids ! k \<noteq> 0 \<and> unat (ids ! k) < 8192" if "k < length ids" "k * 512 < n - ?c" for k
      using Cons.prems [of "Suc k"] that by auto
    let ?m = "min (n - ?c) (512 * length ids)"
    have "place_bytes (place_bytes out copied ?c (fs_disk st b)) (copied + ?c) ?m (list_byte st ids) =
        place_bytes out copied (?c + ?m) (list_byte st (b # ids))"
      unfolding place_bytes_join
    proof (rule place_bytes_cong)
      fix i
      show "(if i < ?c then fs_disk st b i else list_byte st ids (i - ?c)) = list_byte st (b # ids) i" if "i < ?c + ?m"
        using that list_byte_Cons [of i st b ids] by (cases "i < 512") (auto simp: list_byte_def)
    qed
    moreover have "?c + ?m = min n (512 * length (b # ids))" by auto
    ultimately show ?thesis
      using Cons.IH [where n = "n - ?c", OF rest, where out = "place_bytes out copied ?c (fs_disk st b)" and copied = "copied + ?c"]
      unfolding step Let_def by (simp add: add.assoc)
  qed
qed

lemma list_byte_cong:
  assumes "\<And>k. k * 512 < n \<Longrightarrow> xs ! k = ys ! k" "i < n"
  shows "list_byte st xs i = list_byte st ys i"
proof -
  have "i div 512 * 512 \<le> i" by simp
  then have "i div 512 * 512 < n" using assms(2) by linarith
  from assms(1) [OF this] show ?thesis by (simp add: list_byte_def)
qed

lemma read_data_eq:
  assumes "node_good st node" "\<not> is_dir_mode node"
  shows "read_data st node out = Some (place_bytes out 0 (unat (i_size node)) (file_byte st node))"
proof -
  let ?n = "unat (i_size node)" and ?N = "unat (i_blocks node)"
  note good = assms(1) [unfolded node_good_def]
  have len: "length (i_block node) = 15" "?n \<le> 512 * ?N" "?N \<le> 140" using good assms(2) by auto
  have blk: "file_block st node k \<noteq> 0 \<and> unat (file_block st node k) < 8192" if "k < ?N" for k
    using good assms(2) that used_block [OF assms(1) file_block_used [OF assms(1) that]] by auto
  have need: "k < ?N" if "k * 512 < ?n" for k using that len(2) by linarith
  let ?m = "min ?n 6144"
  have "take 12 (i_block node) ! k = file_block st node k" if "k < 12" for k
    using that len by (simp add: file_block_def)
  then have one: "read_list st (take 12 (i_block node)) (out, 0, ?n) = Some (place_bytes out 0 ?m (file_byte st node), ?m, ?n - ?m)"
    using read_list_eq [of "take 12 (i_block node)" ?n st out 0] blk need len(1)
    by (auto simp: Let_def list_byte_def file_byte_def less_mult_imp_div_less intro!: place_bytes_cong)
  show ?thesis
  proof (cases "?n \<le> 6144")
    case True
    then show ?thesis by (simp add: read_data_def one len(1))
  next
    case False
    then have "12 < ?N" using len(2) by linarith
    then have ind: "i_block node ! 12 \<noteq> 0" using good by simp
    then have "i_block node ! 12 \<in> set (used_ids st node)"
      using \<open>12 < ?N\<close> by (simp add: used_ids_def file_ids_def Let_def)
    then have ib: "unat (i_block node ! 12) < 8192" using used_block [OF assms(1)] by fastforce
    let ?p = "pointers (fs_disk st (i_block node ! 12)) 128"
    have p: "?p ! k = file_block st node (12 + k)" if "k < 128" for k
      using that by (simp add: pointers_nth file_block_def)
    have "?p ! k \<noteq> 0 \<and> unat (?p ! k) < 8192" if "k < length ?p" "k * 512 < ?n - 6144" for k
      using that p [of k] blk [of "12 + k"] need [of "12 + k"] by (simp add: pointers_nth)
    note rd = read_list_eq [of ?p "?n - 6144" st _ 6144, OF this]
    have "?n - 6144 \<le> 65536" using len by linarith
    then have two: "read_list st ?p (o', 6144, ?n - 6144) =
        Some (place_bytes o' 6144 (?n - 6144) (list_byte st ?p), ?n, 0)" for o'
      using rd False by (simp add: pointers_nth min_def)
    have "place_bytes (place_bytes out 0 6144 (file_byte st node)) 6144 (?n - 6144) (list_byte st ?p) =
        place_bytes out 0 ?n (file_byte st node)"
    proof -
      have "list_byte st ?p j = file_byte st node (6144 + j)" if "j < ?n - 6144" for j
      proof -
        have "j < 128 * 512" using that \<open>?n - 6144 \<le> 65536\<close> by simp
        then have "j div 512 < 128" by (rule less_mult_imp_div_less)
        moreover have "(6144 + j) div 512 = 12 + j div 512" "(6144 + j) mod 512 = j mod 512"
          using div_mult_self3 [of 512 12 j] mod_mult_self4 [of 512 12 j] by simp_all
        ultimately show ?thesis by (simp add: list_byte_def file_byte_def p)
      qed
      then show ?thesis
        using place_bytes_join [of out 0 6144 "file_byte st node" "?n - 6144" "list_byte st ?p"] False
        by (auto intro!: place_bytes_cong)
    qed
    then show ?thesis
      using False ind ib by (simp add: read_data_def one len(1) read_indirect_def read_block_eq pointers_overlay two)
  qed
qed

lemma liveD: "n \<in> live st \<Longrightarrow> 0 < n \<and> n \<le> 896 \<and> inode_used st n"
  by (auto simp: live_def)

lemma live_nonzero: "unat i \<in> live st \<Longrightarrow> i \<noteq> 0"
  by (auto simp: live_def)

lemma find_entry_folder:
  assumes "node_good st node" "is_dir_mode node"
  shows "\<exists>e. find_entry st node nm len 0 (unat (i_blocks node)) = Some e \<and>
    map_option (\<lambda>e. (de_inode e, file_type e)) e = dir_map (fs_disk st (i_block node ! 0)) (bytes_of nm (unat len))"
proof -
  note good = assms(1) [unfolded node_good_def] and one = dir_block_used [OF assms]
  let ?d = "fs_disk st (i_block node ! 0)" let ?m = "overlay ?d (uninit st)"
  have b: "unat (i_block node ! 0) < 8192" using used_block [OF assms(1), of "i_block node ! 0"] one by simp
  have d: "dir_good ?d" and n: "i_blocks node = 1" "i_block node ! 0 \<noteq> 0" "length (i_block node) = 15" using good assms(2) by auto
  have "find_entry st node nm len 0 (unat (i_blocks node)) = Some (map_option (get_directory_entry ?m) (scan_find ?m nm len 0))"
    using n b by (simp add: read_block_eq split: option.split)
  moreover have "map_option (\<lambda>e. (de_inode e, file_type e)) (map_option (get_directory_entry ?m) (scan_find ?m nm len 0)) = dir_map ?m (bytes_of nm (unat len))"
    using scan_find_lookup [of ?m nm len 0] by (simp add: option.map_comp comp_def dir_map_def entry_val_def [abs_def])
  moreover have "dir_map ?m = dir_map ?d" by (rule dir_good_cong(3) [OF d]) simp
  ultimately show ?thesis by simp
qed

lemma view_live: "n \<in> live st \<Longrightarrow> view st n = Some (contents_of st (node_of st n))"
  by (simp add: view_def)

lemma contents_folder: "is_dir_mode node \<Longrightarrow> contents_of st node = Folder (dir_map (fs_disk st (i_block node ! 0)))"
  by (simp add: contents_of_def)

lemma contents_file: "\<not> is_dir_mode node \<Longrightarrow> contents_of st node = File (map (file_byte st node) [0..<unat (i_size node)])"
  by (simp add: contents_of_def)

lemma place_bytes_blit: "place_bytes out 0 n f = blit out 0 (map f [0..<n])"
  by (auto simp: place_bytes_def blit_def fun_eq_iff)

lemma load_live: "fs_ok st \<Longrightarrow> unat i \<in> live st \<Longrightarrow> \<exists>m. load_inode st i = Some (m, node_of st (unat i))"
  using load_inode_eq liveD by blast

text \<open>The lookup of a name in a directory, with the inode it leads to.\<close>

lemma lookup_folder:
  assumes "volume_ok st" "p \<in> live st" "is_dir_mode (node_of st p)"
  obtains "names st p (bytes_of nm (unat len)) = None" "find_entry st (node_of st p) nm len 0 (unat (i_blocks (node_of st p))) = Some None"
  | e m where "names st p (bytes_of nm (unat len)) = Some (de_inode e, file_type e)"
    "find_entry st (node_of st p) nm len 0 (unat (i_blocks (node_of st p))) = Some (Some e)"
    "unat (de_inode e) \<in> live st" "file_type e = type_of st (unat (de_inode e))" "load_inode st (de_inode e) = Some (m, node_of st (unat (de_inode e)))"
proof -
  obtain e where e: "find_entry st (node_of st p) nm len 0 (unat (i_blocks (node_of st p))) = Some e"
    "map_option (\<lambda>e. (de_inode e, file_type e)) e = names st p (bytes_of nm (unat len))"
    using find_entry_folder [OF volume_okD(2) [OF assms(1,2)] assms(3)] assms(3) unfolding names_def by auto
  show thesis
  proof (cases e)
    case None
    with e that(1) show thesis by simp
  next
    case (Some x)
    with e(2) have x: "names st p (bytes_of nm (unat len)) = Some (de_inode x, file_type x)" by simp
    from volume_okD(4) [OF assms(1,2) x] load_live [OF volume_okD(1) [OF assms(1)]] Some e(1) x that(2) show thesis by blast
  qed
qed

lemma names_folder: "is_dir_mode (node_of st p) \<Longrightarrow> names st p = dir_map (fs_disk st (i_block (node_of st p) ! 0))"
  by (simp add: names_def)

lemma contents_names: "contents_of st (node_of st p) =
    (if is_dir_mode (node_of st p) then Folder (names st p) else File (map (file_byte st (node_of st p)) [0..<unat (i_size (node_of st p))]))"
  by (simp add: contents_of_def names_def)

text \<open>\<open>read\<close> and \<open>read_directory\<close> on the abstract view, every branch.\<close>

lemma read_view:
  assumes "volume_ok st" "unat (parent_inode req) \<in> live st"
  shows "ext2_read st req = Some (case view st (unat (parent_inode req)) of
      Some (Folder d) \<Rightarrow>
        (case d (bytes_of (req_name req) (unat (name_len req))) of
           None \<Rightarrow> (2, buf req)
         | Some (ino, ft) \<Rightarrow>
             (case view st (unat ino) of
                Some (File data) \<Rightarrow> if unat (buffer_size req) < length data then (-1, buf req) else (0, blit (buf req) 0 data)
              | _ \<Rightarrow> (1, buf req)))
    | _ \<Rightarrow> (-1, buf req))"
proof -
  let ?p = "unat (parent_inode req)"
  obtain m where ld: "load_inode st (parent_inode req) = Some (m, node_of st ?p)"
    using load_live [OF volume_okD(1) [OF assms(1)] assms(2)] by blast
  note start = ext2_read_def ld live_nonzero [OF assms(2)] view_live [OF assms(2)] contents_names
  show ?thesis
  proof (cases "is_dir_mode (node_of st ?p)")
    case False
    then show ?thesis by (simp add: start)
  next
    case dir: True
    show ?thesis
    proof (cases rule: lookup_folder [OF assms dir, of "req_name req" "name_len req"])
      case 1
      with dir show ?thesis by (simp add: start)
    next
      case (2 e m')
      note rd = read_data_eq [OF volume_okD(2) [OF assms(1) 2(3)], of "buf req", unfolded place_bytes_blit]
      from 2 rd dir show ?thesis
        by (cases "is_dir_mode (node_of st (unat (de_inode e)))") (simp_all add: start view_live type_of_def word_less_nat_alt)
    qed
  qed
qed

lemma read_directory_view:
  assumes "volume_ok st" "unat (parent_inode req) \<in> live st"
  shows "ok (read_directory st (Some req)) (\<lambda>(code, out). case view st (unat (parent_inode req)) of
      Some (Folder d) \<Rightarrow>
        (case d (bytes_of (req_name req) (unat (name_len req))) of
           None \<Rightarrow> code = 2 \<and> out = buf req
         | Some (ino, ft) \<Rightarrow>
             (case view st (unat ino) of
                Some (Folder d') \<Rightarrow> if buffer_size req < 512 then code = -1 \<and> out = buf req
                  else code = 0 \<and> dir_good out \<and> dir_map out = d' \<and> (\<forall>a\<ge>512. out a = buf req a)
              | _ \<Rightarrow> code = 1 \<and> out = buf req))
    | _ \<Rightarrow> code = -1 \<and> out = buf req)"
proof -
  let ?p = "unat (parent_inode req)"
  obtain m where ld: "load_inode st (parent_inode req) = Some (m, node_of st ?p)"
    using load_live [OF volume_okD(1) [OF assms(1)] assms(2)] by blast
  note start = read_directory_def ld live_nonzero [OF assms(2)] view_live [OF assms(2)] contents_names
  show ?thesis
  proof (cases "is_dir_mode (node_of st ?p)")
    case False
    then show ?thesis by (simp add: start)
  next
    case dir: True
    show ?thesis
    proof (cases rule: lookup_folder [OF assms dir, of "req_name req" "name_len req"])
      case 1
      with dir show ?thesis by (simp add: start)
    next
      case (2 e m')
      let ?f = "node_of st (unat (de_inode e))"
      show ?thesis
      proof (cases "is_dir_mode ?f")
        case False
        with 2 dir show ?thesis by (simp add: start view_live type_of_def)
      next
        case folder: True
        have gf: "node_good st ?f" using volume_okD(2) [OF assms(1) 2(3)] .
        let ?b = "i_block ?f ! 0"
        have f: "i_blocks ?f = 1" "?b \<noteq> 0" "i_size ?f = 512" "dir_good (fs_disk st ?b)" "length (i_block ?f) = 15"
          using gf folder by (auto simp: node_good_def)
        have b: "unat ?b < 8192" using used_block [OF gf, of ?b] dir_block_used [OF gf folder] by simp
        let ?out = "memcpy_into (buf req) 0 (overlay (fs_disk st ?b) (uninit st)) 0 512"
        have out: "?out a = fs_disk st ?b a" if "a < 512" for a using that by (simp add: memcpy_into_apply)
        have "dir_good ?out" "dir_map ?out = names st (unat (de_inode e))"
          using dir_good_cong [OF f(4) out] by (auto simp: names_folder [OF folder])
        moreover have "\<forall>a\<ge>512. ?out a = buf req a" by (simp add: memcpy_into_apply)
        ultimately show ?thesis using 2 dir folder f b by (simp add: start view_live read_block_eq type_of_def)
      qed
    qed
  qed
qed

end
