(* ===== verification/Ext2_Files.thy ===== *)
theory Ext2_Files
  imports Ext2_Volume Ext2_Theorems
begin

section \<open>Writing and deleting files, on the abstract view\<close>

text \<open>
  \<open>ext2_write\<close> adds a file or directory to the view and keeps \<open>volume_ok\<close>; \<open>ext2_delete\<close> takes a
  file away. The steps are: an inode is taken, blocks that were free are filled, the
  inode and the entry are written, the metadata is written; each step leaves the blocks
  and inodes of every other file alone.
\<close>

subsection \<open>The steps\<close>

text \<open>What a step leaves alone: inode marks and inodes, except those in \<open>N\<close>, and unreserved blocks outside \<open>B\<close>.\<close>

definition leaves :: "fs \<Rightarrow> fs \<Rightarrow> nat set \<Rightarrow> nat set \<Rightarrow> bool" where
  "leaves st st' N B \<longleftrightarrow> fs_ok st' \<and> uninit st' = uninit st \<and>
     (\<forall>m\<in>{1..896} - N. node_of st' m = node_of st m \<and> inode_used st' m = inode_used st m) \<and>
     (\<forall>b<8192. \<not> reserved b \<longrightarrow> b \<notin> B \<longrightarrow> fs_disk st' (of_nat b) = fs_disk st (of_nat b))"

lemma leaves_trans: "leaves st st1 M A \<Longrightarrow> leaves st1 st2 N B \<Longrightarrow> leaves st st2 (M \<union> N) (A \<union> B)"
  unfolding leaves_def by auto

lemma leaves_ok: "leaves st st' N B \<Longrightarrow> fs_ok st'" "leaves st st' N B \<Longrightarrow> uninit st' = uninit st"
  by (simp_all add: leaves_def)

lemma leaves_block: "leaves st st' N B \<Longrightarrow> unat b < 2048 \<Longrightarrow> \<not> reserved (unat b) \<Longrightarrow> unat b \<notin> B \<Longrightarrow> fs_disk st' b = fs_disk st b"
proof -
  assume "leaves st st' N B" "unat b < 2048" "\<not> reserved (unat b)" "unat b \<notin> B"
  moreover from this have "unat b < 8192" by simp
  ultimately have "fs_disk st' (of_nat (unat b)) = fs_disk st (of_nat (unat b))" unfolding leaves_def by blast
  then show ?thesis by simp
qed

lemma node_of_same_disk: "fs_disk st' (of_nat (node_block m)) = fs_disk st (of_nat (node_block m)) \<Longrightarrow> node_of st' m = node_of st m"
  by (simp add: node_of_def)

lemma leaves_take_inode:
  assumes "fs_ok st" "0 < n" "n \<le> 896" "\<not> inode_used st n"
  shows "leaves st (synced (take_inode st n)) {n} {}" "node_of (synced (take_inode st n)) n = node_of st n"
    "inode_used (synced (take_inode st n)) n" "b < 2048 \<Longrightarrow> block_used (synced (take_inode st n)) b = block_used st b"
proof -
  let ?st = "synced (take_inode st n)"
  have node: "node_of ?st m = node_of st m" if "m \<le> 896" for m
    using that assms(3) by (intro node_of_same_disk) simp
  have "inode_used ?st m \<longleftrightarrow> inode_used st m \<or> m = n" if "0 < m" "m \<le> 896" for m
    using that assms(2,3) by (simp add: used_take_inode)
  moreover have "fs_disk ?st (of_nat b) = fs_disk st (of_nat b)" if "b < 8192" "\<not> reserved b" for b
    using that assms(3) not_reserved_metadata [OF that(2)] by simp
  ultimately show "leaves st ?st {n} {}" "inode_used ?st n"
    using node assms inv_take_inode inv_synced by (auto simp: leaves_def)
  show "node_of ?st n = node_of st n" using node assms(3) by blast
  show "b < 2048 \<Longrightarrow> block_used ?st b = block_used st b" using assms(2,3) by simp
qed

lemma leaves_grows:
  assumes "fs_ok st" "grows st st' S"
  shows "leaves st st' {} S"
proof -
  have S: "\<not> reserved b" if "b \<in> S" for b
    using grows_new [OF assms(2) that] free_not_reserved [OF assms(1)] by blast
  have node: "node_of st' m = node_of st m" if "m \<le> 896" for m
  proof -
    have "node_block m \<notin> S" using S node_block_meta(5) [of m] by metis
    then show ?thesis using that by (intro node_of_same_disk grows_disk [OF assms(2)]) simp_all
  qed
  have "inode_used st' m = inode_used st m" if "m \<le> 896" for m
  proof -
    have "fs_disk st' (of_nat (ibm ((m - 1) div 112))) = fs_disk st (of_nat (ibm ((m - 1) div 112)))"
      using S reserved_metadata(3) inode_group_less [OF that] low_blocks(2) [of "(m - 1) div 112"]
      by (intro grows_disk [OF assms(2)]) auto
    then show ?thesis by (simp add: inode_used_def)
  qed
  with node show ?thesis
    using assms not_reserved_metadata(1,4) unfolding leaves_def grows_def by fastforce
qed

lemma leaves_put_node:
  assumes "fs_ok st" "0 < n" "n \<le> 896" "length (i_block nd) = 15"
  shows "leaves st (put_node st n nd) {n} {}" "node_of (put_node st n nd) n = nd"
    "inode_used (put_node st n nd) n = inode_used st n" "b < 2048 \<Longrightarrow> block_used (put_node st n nd) b = block_used st b"
proof -
  note same = same_bitmaps_used [OF same_bitmaps_put_node [OF assms(3), of st nd]]
  have "b \<noteq> node_block n" if "\<not> reserved b" for b using that node_block_meta(5) [of n] by metis
  then show "leaves st (put_node st n nd) {n} {}"
    using assms inv_put_node same by (auto simp: leaves_def node_of_put_node)
  show "node_of (put_node st n nd) n = nd" "inode_used (put_node st n nd) n = inode_used st n"
    "b < 2048 \<Longrightarrow> block_used (put_node st n nd) b = block_used st b"
    using assms same by (simp_all add: node_of_put_node)
qed

lemma leaves_write:
  assumes "fs_ok st" "b < 2048" "\<not> reserved b"
  shows "ok (write_block st m (of_nat b)) (\<lambda>st'. leaves st st' {} {b} \<and> (\<forall>a<512. fs_disk st' (of_nat b) a = m a) \<and>
    (\<forall>k<2048. block_used st' k = block_used st k))"
proof -
  let ?st = "st\<lparr>fs_disk := (fs_disk st)(of_nat b := overlay m (fs_disk st (of_nat b)))\<rparr>"
  note meta = not_reserved_metadata [OF assms(3)]
  have neq: "(of_nat k :: u32) \<noteq> of_nat b" if "k < 8192" "k \<noteq> b" for k using that assms(2) by simp
  have same: "same_bitmaps st ?st" using assms(2) meta(1,2) by (auto simp: same_bitmaps_def dest: not_sym)
  have "fs_ok ?st" by (rule inv_same_bitmaps [OF assms(1) same]) (simp add: same_layout_refl inv_layout assms(1))
  moreover have "node_of ?st n = node_of st n" if "n \<le> 896" for n
  proof -
    have "node_block n \<noteq> b" using assms(3) node_block_meta(5) [of n] by metis
    then show ?thesis using that neq [of "node_block n"] by (intro node_of_same_disk) simp
  qed
  ultimately have "leaves st ?st {} {b}" using same_bitmaps_used(2) [OF same] assms(2) by (simp add: leaves_def)
  moreover have "block_used ?st k = block_used st k" if "k < 2048" for k using same_bitmaps_used(1) [OF same that] .
  ultimately show ?thesis using assms(2) by (simp add: unat_of_nat_block)
qed

lemma leaves_synced:
  assumes "fs_ok st"
  shows "leaves st (synced st) {} {}"
proof -
  have "node_of (synced st) m = node_of st m" if "m \<le> 896" for m using that by (intro node_of_same_disk) simp
  then show ?thesis using assms inv_synced not_reserved_metadata(4) by (auto simp: leaves_def)
qed

subsection \<open>The new inode\<close>

text \<open>What \<open>make_node\<close> has to make: the contents, and the blocks it needs.\<close>

definition blocks_of :: "u32 \<Rightarrow> nat" where
  "blocks_of fsize = (unat fsize + 511) div 512"

definition new_contents :: "request \<Rightarrow> u32 \<Rightarrow> contents" where
  "new_contents req ino =
     (if buffer_size req = 0 \<and> is_directory req
      then Folder [[0x2E] \<mapsto> (ino, EXT2_FT_DIR), [0x2E, 0x2E] \<mapsto> (parent_inode req, EXT2_FT_DIR)]
      else File (map (buf req) [0..<unat (buffer_size req)]))"

definition blocks_needed :: "request \<Rightarrow> nat" where
  "blocks_needed req =
     (if buffer_size req = 0 \<and> is_directory req then 1
      else blocks_of (buffer_size req) + (if 12 < blocks_of (buffer_size req) then 1 else 0))"

lemma blocks_of_word:
  assumes "blocks_of fsize \<le> 140"
  shows "unat ((fsize + of_nat BLOCK_SIZE - 1) div of_nat BLOCK_SIZE) = blocks_of fsize" "unat fsize \<le> 512 * blocks_of fsize"
    "512 * blocks_of fsize < unat fsize + 512"
proof -
  have "(unat fsize + 511) div 512 < 141" using assms by (simp add: blocks_of_def)
  then have "unat fsize + 511 < 141 * 512" by (simp add: div_less_iff_less_mult)
  then have "unat (fsize + 511) = unat fsize + 511" by (simp add: unat_word_ariths)
  moreover have "fsize + of_nat BLOCK_SIZE - 1 = fsize + 511" by simp
  ultimately show "unat ((fsize + of_nat BLOCK_SIZE - 1) div of_nat BLOCK_SIZE) = blocks_of fsize"
    by (simp only: blocks_of_def unat_div) simp
  show "unat fsize \<le> 512 * blocks_of fsize" "512 * blocks_of fsize < unat fsize + 512" unfolding blocks_of_def by linarith+
qed

lemma not_dir_mode: "\<not> is_dir_mode nd" if "i_mode nd = EXT2_S_IFREG"
  using that by (simp add: is_dir_mode_def EXT2_S_IFREG_def EXT2_S_IFDIR_def)

lemma dir_mode: "is_dir_mode nd" if "i_mode nd = EXT2_S_IFDIR"
  using that by (simp add: is_dir_mode_def EXT2_S_IFDIR_def)

text \<open>A stored file is a good inode with the data as its contents.\<close>

lemma data_block_byte:
  assumes "unat fsize \<le> 512 * n" "512 * n < unat fsize + 512" "i < unat fsize"
  shows "data_block stack data fsize n (i div 512) (i mod 512) = data i"
proof -
  let ?k = "i div 512"
  have pos: "i mod 512 < 512" by simp
  have k: "?k < n" using assms(1,3) by linarith
  have mod: "unat (fsize mod 512) = unat fsize mod 512" by (simp add: unat_mod)
  have "i mod 512 < unat fsize mod 512 \<or> unat fsize mod 512 = 0" if "?k = n - 1"
  proof -
    have q: "unat fsize div 512 = n - 1 \<or> unat fsize mod 512 = 0"
    proof -
      define q where "q = unat fsize div 512"
      define r where "r = unat fsize mod 512"
      note qr = q_def r_def
      have qr3: "unat fsize = 512 * q + r" "r < 512" unfolding qr by (simp_all only: mult_div_mod_eq)
      have "n < q + 2" using assms(2) qr3 by linarith
      moreover have "r = 0 \<or> q < n" using assms(1) qr3 by linarith
      ultimately show ?thesis unfolding qr [symmetric] by linarith
    qed
    show ?thesis
    proof (cases "unat fsize mod 512 = 0")
      case False
      with q have "unat fsize div 512 = n - 1" by simp
      then have "unat fsize = (n - 1) * 512 + unat fsize mod 512" "i = (n - 1) * 512 + i mod 512"
        using that div_mult_mod_eq [of "unat fsize" 512] div_mult_mod_eq [of i 512] by simp_all
      with assms(3) show ?thesis by linarith
    qed simp
  qed
  moreover have "?k * 512 + i mod 512 = i" by simp
  ultimately show ?thesis
    using pos by (auto simp: data_block_def Let_def mod memcpy_into_apply)
qed

lemma nat_block_nonzero: "fs_ok st \<Longrightarrow> n < 2048 \<Longrightarrow> \<not> block_used st n \<Longrightarrow> (of_nat n :: u32) \<noteq> 0"
  using reserved_less [OF free_not_reserved] of_nat_u32_eq_iff [of n 0] by auto

lemma stored_good:
  assumes "fs_ok st" "grows st st' S" "stored st' nd data S" "owned st' nd S" "length (i_block nd) = 15" "\<not> is_dir_mode nd"
    "unat (i_blocks nd) \<le> 140" "unat (i_size nd) \<le> 512 * unat (i_blocks nd)" "512 * unat (i_blocks nd) < unat (i_size nd) + 512"
    "12 < unat (i_blocks nd) \<Longrightarrow> \<exists>n\<in>S. i_block nd ! 12 = of_nat n"
  shows "node_good st' nd" "unat ` set (used_ids st' nd) = S" "contents_of st' nd = File (map data [0..<unat (i_size nd)])"
proof -
  have S: "n < 2048" "block_used st' n" "\<not> reserved n" "(of_nat n :: u32) \<noteq> 0" "unat (of_nat n :: u32) = n" if "n \<in> S" for n
    using grows_new [OF assms(2) that] free_not_reserved [OF assms(1)] nat_block_nonzero [OF assms(1)] unat_of_nat_block by auto
  have ids: "set (used_ids st' nd) = of_nat ` S" "distinct (used_ids st' nd)"
    using assms(4) S(4) by (auto simp: owned_def used_ids_def)
  then show "unat ` set (used_ids st' nd) = S" using S(5) by (simp add: image_image)
  have "freeable st' (used_ids st' nd)"
    using ids S unfolding freeable_def by fastforce
  moreover have nz: "file_block st' nd k \<noteq> 0" if "k < unat (i_blocks nd)" for k
    using assms(3) that S(4) unfolding stored_def by metis
  moreover have "i_block nd ! 12 \<noteq> 0" if "12 < unat (i_blocks nd)" using assms(10) [OF that] S(4) by metis
  ultimately show "node_good st' nd" using assms(5-8) by (simp add: node_good_def)
  have "file_byte st' nd i = data i" if "i < unat (i_size nd)" for i
  proof -
    have "i < unat (i_blocks nd) * 512" using that assms(8) by simp
    then have "i div 512 < unat (i_blocks nd)" by (rule less_mult_imp_div_less)
    then obtain n where "n \<in> S" "file_block st' nd (i div 512) = of_nat n"
      "holds st' n (data_block (uninit st') data (i_size nd) (unat (i_blocks nd)) (i div 512))"
      using assms(3) unfolding stored_def by blast
    then show ?thesis using data_block_byte [OF assms(8,9) that] by (simp add: file_byte_def holds_def)
  qed
  then show "contents_of st' nd = File (map data [0..<unat (i_size nd)])"
    using assms(6) by (simp add: contents_file)
qed

text \<open>The outcome of \<open>make_node\<close>.\<close>

definition made :: "fs \<Rightarrow> fs \<Rightarrow> nat \<Rightarrow> nat set \<Rightarrow> contents \<Rightarrow> bool" where
  "made st st' n S c \<longleftrightarrow> leaves st st' {n} S \<and> inode_used st' n = inode_used st n \<and>
     (\<forall>b\<in>S. b < 2048 \<and> \<not> block_used st b) \<and> (\<forall>b<2048. block_used st' b \<longleftrightarrow> block_used st b \<or> b \<in> S) \<and>
     node_good st' (node_of st' n) \<and> unat ` set (used_ids st' (node_of st' n)) = S \<and> contents_of st' (node_of st' n) = c"

lemma made_put_node:
  assumes "fs_ok st" "grows st st' S" "0 < n" "n \<le> 896" "node_good st' nd" "unat ` set (used_ids st' nd) = S" "contents_of st' nd = c"
  shows "made st (put_node st' n nd) n S c"
proof -
  have len: "length (i_block nd) = 15" using assms(5) by (simp add: node_good_def)
  note put = leaves_put_node [OF grows_ok(1) [OF assms(2)] assms(3,4) len]
  have "leaves st (put_node st' n nd) ({} \<union> {n}) (S \<union> {})"
    using leaves_trans [OF leaves_grows [OF assms(1,2)] put(1)] .
  moreover have "inode_used (put_node st' n nd) n = inode_used st n"
    using put(3) leaves_grows [OF assms(1,2)] assms(3,4) by (simp add: leaves_def)
  moreover have same: "fs_disk (put_node st' n nd) b = fs_disk st' b \<and> block_used (put_node st' n nd) (unat b)"
    if "b \<in> set (used_ids st' nd)" for b
  proof -
    have b: "unat b < 2048" "\<not> reserved (unat b)" "block_used st' (unat b)" using used_block [OF assms(5) that] by auto
    with leaves_block [OF put(1)] put(4) show ?thesis by simp
  qed
  moreover note node_frame [OF assms(5), of "put_node st' n nd"]
  ultimately show ?thesis
    using assms put(2,4) grows_new [OF assms(2)] unfolding made_def grows_def by auto
qed

lemma grows_dirs:
  assumes "fs_ok st" "g < 8"
  shows "grows st (st\<lparr>bgdtCache := (bgdtCache st)[g := (bgdtCache st ! g)\<lparr>bg_used_dirs_count := c\<rparr>]\<rparr>) {}"
  using inv_upd_dirs [OF assms] by (simp add: grows_def block_used_def)

lemma room_alloc:
  assumes "fs_ok st" "0 < card (room pref st)"
  shows "\<exists>n. alloc_block st pref = Some (Some (of_nat n), take_block st n) \<and> n < 2048 \<and> \<not> block_used st n"
proof -
  obtain m where "m \<in> room pref st" using assms(2) by (metis card.empty ex_in_conv less_numeral_extra(3))
  then obtain n where "List.find (\<lambda>n. \<not> block_used st n) [256 * unat pref..<2048] = Some n"
    using find_upt_NoneD by (cases "List.find (\<lambda>n. \<not> block_used st n) [256 * unat pref..<2048]") (auto simp: room_def)
  with find_upt_SomeD [OF this] show ?thesis by (intro exI [of _ n]) (simp add: alloc_block_eq [OF assms(1)])
qed

lemma holds_frame: "holds st n m \<Longrightarrow> fs_disk st' (of_nat n) = fs_disk st (of_nat n) \<Longrightarrow> holds st' n m"
  by (simp add: holds_def)

text \<open>A new directory.\<close>

lemma init_directory_made:
  assumes "fs_ok st" "length (i_block nd) = 15" "0 < card (room (inode_to_bgd ino) st)" "ino \<noteq> 0" "p \<noteq> 0" "unat ino \<le> 896"
  shows "ok (init_directory_table st nd ino p) (\<lambda>(nd', st'). \<exists>n. grows st st' {n} \<and>
    nd' = nd\<lparr>i_mode := EXT2_S_IFDIR, i_size := 512, i_blocks := 1, i_block := (i_block nd)[0 := of_nat n]\<rparr> \<and>
    holds st' n (new_dir_block (\<lambda>_. 0) ino p))"
proof -
  obtain n where n: "alloc_block st (inode_to_bgd ino) = Some (Some (of_nat n), take_block st n)" "n < 2048" "\<not> block_used st n"
    using room_alloc [OF assms(1,3)] by blast
  let ?st = "take_block st n"
  have g: "grows st ?st {n}" using grows_take_block [OF assms(1) n(2,3)] .
  have l: "bgdtCache st \<noteq> []" if "fs_ok st" for st using inv_layout(2) [OF that] by auto
  have nz: "bg_block_bitmap (bgdtCache st ! 0) \<noteq> 0" if "fs_ok st" for st
    using layout_okD(2) [OF inv_layout(1) [OF that], of 0] by (simp add: bbm_def)
  have "ok (write_block ?st (new_dir_block (memset (uninit ?st) 0 0 512) ino p) (of_nat n)) (\<lambda>st2. grows st (synced st2) {n} \<and>
      holds (synced st2) n (new_dir_block (\<lambda>_. 0) ino p) \<and> grows st st2 {n})"
  proof (rule ok_mono [OF grows_write [OF assms(1) g, of n]], simp, clarify, intro conjI)
    fix st2
    assume 2: "grows st st2 {n}" "holds st2 n (new_dir_block (memset (uninit ?st) 0 0 512) ino p)"
    then show "grows st (synced st2) {n}" "grows st st2 {n}" by (simp_all add: grows_synced)
    have "2 < n" using reserved_less [OF free_not_reserved [OF assms(1) n(2,3)]] by simp
    with 2(2) n(2) show "holds (synced st2) n (new_dir_block (\<lambda>_. 0) ino p)"
      by (simp add: holds_def new_dir_block_in)
  qed
  then have "ok (write_block ?st (new_dir_block (memset (uninit ?st) 0 0 512) ino p) (of_nat n))
      (\<lambda>st2. bgdtCache st2 \<noteq> [] \<and> bg_block_bitmap (bgdtCache st2 ! 0) \<noteq> 0 \<and> grows st (synced st2) {n} \<and> holds (synced st2) n (new_dir_block (\<lambda>_. 0) ino p))"
    by (rule ok_mono) (use l nz grows_ok(1) in blast)
  then show ?thesis
    using assms(2) n l [OF assms(1)] nz [OF assms(1)]
    by (simp add: init_directory_table_def ok_do Let_def sync_metadata_synced) (intro exI [of _ n], simp)
qed

lemma dir_map_new: "i \<noteq> 0 \<Longrightarrow> p \<noteq> 0 \<Longrightarrow> dir_map (new_dir_block m i p) = [[0x2E] \<mapsto> (i, EXT2_FT_DIR), [0x2E, 0x2E] \<mapsto> (p, EXT2_FT_DIR)]"
  by (auto simp: dir_map_def new_dir_good)

lemma make_node_spec:
  assumes "fs_ok st" "0 < n" "n \<le> 896" "parent_inode req \<noteq> 0" "blocks_of (buffer_size req) \<le> 140"
    "blocks_needed req \<le> card (room (inode_to_bgd (of_nat n)) st)"
  shows "ok (make_node st req (buffer_size req = 0 \<and> is_directory req) (of_nat n))
    (\<lambda>st'. \<exists>S. made st st' n S (new_contents req (of_nat n)))"
proof -
  let ?ino = "of_nat n :: u32" let ?g = "inode_to_bgd ?ino"
  have ino: "unat ?ino = n" "0 < ?ino" "?ino \<noteq> 0" "unat ?g < 8"
    using assms(2,3) of_nat_u32_eq_iff [of n 0] inode_to_bgd_less [of ?ino] by (simp_all add: unat_of_nat_block word_gt_0)
  obtain m where ld: "load_inode st ?ino = Some (m, node_of st n)"
    using load_inode_eq [OF assms(1), of ?ino] assms(3) ino(1) by simp
  have sync: "ok (sync_node st' nd ?ino) (\<lambda>st'. \<exists>S. made st st' n S c)"
    if "grows st st' S" "node_good st' nd" "unat ` set (used_ids st' nd) = S" "contents_of st' nd = c" for st' nd S c
    using sync_node_eq [OF grows_ok(1) [OF that(1)], of ?ino nd] made_put_node [OF assms(1) that(1) assms(2,3) that(2-4)]
      that(2) ino assms(3) by (auto simp: node_good_def)
  show ?thesis
  proof (cases "buffer_size req = 0 \<and> is_directory req")
    case True
    then have c: "new_contents req ?ino = Folder [[0x2E] \<mapsto> (?ino, EXT2_FT_DIR), [0x2E, 0x2E] \<mapsto> (parent_inode req, EXT2_FT_DIR)]"
      "0 < card (room ?g st)" using assms(6) by (simp_all add: new_contents_def blocks_needed_def)
    have "ok (init_directory_table st (node_of st n) ?ino (parent_inode req)) (\<lambda>(nd, st2).
        ok (upd_bgd st2 (unat ?g) (\<lambda>d. d\<lparr>bg_used_dirs_count := bg_used_dirs_count d + 1\<rparr>)) (\<lambda>st3.
        ok (sync_node st3 nd ?ino) (\<lambda>st'. \<exists>S. made st st' n S (new_contents req ?ino))))"
    proof (rule ok_mono [OF init_directory_made [OF assms(1) _ c(2) ino(3) assms(4)]]; (clarify)?)
      fix st2 :: fs and k :: nat
      let ?nd = "(node_of st n)\<lparr>i_mode := EXT2_S_IFDIR, i_size := 512, i_blocks := 1, i_block := (i_block (node_of st n))[0 := of_nat k]\<rparr>"
      let ?st3 = "st2\<lparr>bgdtCache := (bgdtCache st2)[unat ?g := (bgdtCache st2 ! unat ?g)\<lparr>bg_used_dirs_count := bg_used_dirs_count (bgdtCache st2 ! unat ?g) + 1\<rparr>]\<rparr>"
      assume 2: "grows st st2 {k}" "holds st2 k (new_dir_block (\<lambda>_. 0) ?ino (parent_inode req))"
      have g: "grows st ?st3 {k}" using grows_trans [OF 2(1) grows_dirs [OF grows_ok(1) [OF 2(1)] ino(4)]] by simp
      have k: "k < 2048" "block_used ?st3 k" "\<not> reserved k" "(of_nat k :: u32) \<noteq> 0" "unat (of_nat k :: u32) = k"
        using grows_new [OF g, of k] free_not_reserved [OF assms(1)] nat_block_nonzero [OF assms(1)] unat_of_nat_block by auto
      note good = dir_good_cong [OF new_dir_good(2) [OF ino(3) assms(4)], of "fs_disk ?st3 (of_nat k)" "\<lambda>_. 0"]
      have same: "a < 512 \<Longrightarrow> fs_disk ?st3 (of_nat k) a = new_dir_block (\<lambda>_. 0) ?ino (parent_inode req) a" for a
        using 2(2) by (simp add: holds_def)
      have d: "is_dir_mode ?nd" by (rule dir_mode) simp
      have hd: "take (Suc 0) ((i_block (node_of st n))[0 := of_nat k]) = [of_nat k]"
        using length_node_of [of st n] by (cases "i_block (node_of st n)") auto
      have used: "used_ids ?st3 ?nd = [of_nat k]" using k(4) hd by (simp add: used_ids_def file_ids_def Let_def)
      have "node_good ?st3 ?nd" using d used k good(1) [OF same] by (simp add: node_good_def freeable_def)
      moreover have "contents_of ?st3 ?nd = new_contents req ?ino"
        using d good(3) [OF same] dir_map_new [OF ino(3) assms(4)] by (simp add: contents_of_def c(1))
      ultimately have "ok (sync_node ?st3 ?nd ?ino) (\<lambda>st'. \<exists>S. made st st' n S (new_contents req ?ino))"
        using used k(5) by (intro sync [OF g]) simp_all
      then show "ok (upd_bgd st2 (unat ?g) (\<lambda>d. d\<lparr>bg_used_dirs_count := bg_used_dirs_count d + 1\<rparr>)) (\<lambda>st3.
        ok (sync_node st3 ?nd ?ino) (\<lambda>st'. \<exists>S. made st st' n S (new_contents req ?ino)))"
        using ino(4) inv_layout(2) [OF grows_ok(1) [OF 2(1)]] by simp
    qed (use assms(3) ino(1) in simp_all)
    then show ?thesis using True ino(1) by (simp add: make_node_def ok_do ld Let_def)
  next
    case False
    let ?nd = "(node_of st n)\<lparr>i_mode := EXT2_S_IFREG, i_size := buffer_size req,
                i_blocks := (buffer_size req + of_nat BLOCK_SIZE - 1) div of_nat BLOCK_SIZE\<rparr>"
    note size = blocks_of_word [OF assms(5)]
    have "ok (allocate_node_blocks st (buf req) ?nd ?g) (\<lambda>(nd, st'). ok (sync_node st' nd ?ino) (\<lambda>st'. \<exists>S. made st st' n S (new_contents req ?ino)))"
    proof (rule ok_mono [OF allocate_node_blocks_stores [OF assms(1)]]; (clarify)?)
      show "length (i_block ?nd) = 15" by simp
      show "unat (i_blocks ?nd) \<le> 140" using size(1) assms(5) by simp
      show "unat (i_blocks ?nd) + (if 12 < unat (i_blocks ?nd) then 1 else 0) \<le> card (room ?g st)"
        using size(1) assms(6) False by (auto simp: blocks_needed_def)
    next
      fix nd st' S
      assume *: "same_head ?nd nd" "grows st st' S" "stored st' nd (buf req) S" "owned st' nd S"
        "12 < unat (i_blocks ?nd) \<longrightarrow> (\<exists>n\<in>S. i_block nd ! 12 = of_nat n)"
      have h: "i_mode nd = EXT2_S_IFREG" "i_size nd = buffer_size req" "unat (i_blocks nd) = blocks_of (buffer_size req)" "length (i_block nd) = 15"
        using *(1) size(1) by (simp_all add: same_head_def)
      have ib: "i_blocks nd = i_blocks ?nd" using *(1) by (simp add: same_head_def)
      have "node_good st' nd" "unat ` set (used_ids st' nd) = S" "contents_of st' nd = File (map (buf req) [0..<unat (i_size nd)])"
        using stored_good [OF assms(1) *(2-4) h(4) not_dir_mode [OF h(1)]] assms(5) size(2,3) *(5) h(2,3) ib by auto
      then show "ok (sync_node st' nd ?ino) (\<lambda>st'. \<exists>S. made st st' n S (new_contents req ?ino))"
        using False h(2) by (intro sync [OF *(2)]) (simp_all add: new_contents_def)
    qed
    then show ?thesis by (simp add: make_node_def ok_do ld Let_def if_not_P [OF False])
  qed
qed

subsection \<open>Adding a name\<close>

text \<open>The state after a file or directory \<open>n\<close> with the blocks \<open>S\<close> was added to the directory block \<open>blk\<close>.\<close>

definition added :: "fs \<Rightarrow> fs \<Rightarrow> nat \<Rightarrow> nat set \<Rightarrow> nat \<Rightarrow> mem \<Rightarrow> contents \<Rightarrow> bool" where
  "added st st' n S blk d c \<longleftrightarrow> leaves st st' {n} (insert blk S) \<and> inode_used st' n \<and>
     (\<forall>b\<in>S. b < 2048 \<and> \<not> block_used st b) \<and> (\<forall>b<2048. block_used st' b \<longleftrightarrow> block_used st b \<or> b \<in> S) \<and>
     node_good st' (node_of st' n) \<and> unat ` set (used_ids st' (node_of st' n)) = S \<and> contents_of st' (node_of st' n) = c \<and>
     (\<forall>a<512. fs_disk st' (of_nat blk) a = d a)"

definition new_kind :: "contents \<Rightarrow> u8 \<Rightarrow> nat \<Rightarrow> nat \<Rightarrow> bool" where
  "new_kind c ft n p \<longleftrightarrow> (\<exists>data. c = File data) \<and> ft = EXT2_FT_REG_FILE \<or>
     c = Folder [[0x2E] \<mapsto> (of_nat n, EXT2_FT_DIR), [0x2E, 0x2E] \<mapsto> (of_nat p, EXT2_FT_DIR)] \<and> ft = EXT2_FT_DIR"

lemma contents_names':
  "contents_of st (node_of st n) = Folder d \<Longrightarrow> is_dir_mode (node_of st n) \<and> names st n = d"
  "contents_of st (node_of st n) = File x \<Longrightarrow> \<not> is_dir_mode (node_of st n) \<and> names st n = (\<lambda>_. None)"
  by (auto simp: contents_of_def names_def split: if_splits)

lemma frame_live:
  assumes "volume_ok st" "leaves st st' {n} (insert blk S)" "n \<notin> live st" "\<forall>b\<in>S. \<not> block_used st b"
    "\<forall>b<2048. block_used st b \<longrightarrow> block_used st' b" "p \<in> live st" "is_dir_mode (node_of st p)" "blk = unat (i_block (node_of st p) ! 0)"
    "m \<in> live st" "m \<noteq> p"
  shows "node_of st' m = node_of st m" "used_ids st' (node_of st m) = used_ids st (node_of st m)" "node_good st' (node_of st m)"
    "contents_of st' (node_of st m) = contents_of st (node_of st m)" "names st' m = names st m"
proof -
  note good = volume_okD(2) [OF assms(1,9)]
  have "m \<noteq> n" using assms(3,9) by blast
  with assms(2) liveD [OF assms(9)] show node: "node_of st' m = node_of st m" by (simp add: leaves_def)
  have p: "i_block (node_of st p) ! 0 \<in> set (used_ids st (node_of st p))"
    using dir_block_used [OF volume_okD(2) [OF assms(1,6)] assms(7)] by simp
  have blocks: "fs_disk st' b = fs_disk st b" "block_used st' (unat b)" if "b \<in> set (used_ids st (node_of st m))" for b
  proof -
    have b: "unat b < 2048" "block_used st (unat b)" "\<not> reserved (unat b)" using used_block [OF good that] by auto
    have "b \<noteq> i_block (node_of st p) ! 0" using volume_okD(3) [OF assms(1,6,9)] assms(10) p that by blast
    then have "unat b \<notin> insert blk S" using b(2) assms(4,8) by (auto simp: word_unat_eq_iff)
    with leaves_block [OF assms(2) b(1,3)] assms(5) b show "fs_disk st' b = fs_disk st b" "block_used st' (unat b)" by auto
  qed
  note frame = node_frame [OF good blocks]
  then show "used_ids st' (node_of st m) = used_ids st (node_of st m)" "node_good st' (node_of st m)"
    "contents_of st' (node_of st m) = contents_of st (node_of st m)" by blast+
  then show "names st' m = names st m" using node by (simp add: names_def contents_of_def split: if_splits)
qed

text \<open>The directory itself, with its block replaced.\<close>

lemma frame_folder:
  assumes "node_good st nd" "is_dir_mode nd" "dir_good d" "\<And>a. a < 512 \<Longrightarrow> fs_disk st' (i_block nd ! 0) a = d a"
    "block_used st' (unat (i_block nd ! 0))"
  shows "used_ids st' nd = used_ids st nd" "node_good st' nd" "contents_of st' nd = Folder (dir_map d)"
proof -
  note good = dir_good_cong [OF assms(3,4)]
  have "unat (i_blocks nd) = 1" using assms(1,2) by (simp add: node_good_def)
  then have ids: "file_ids st' nd = file_ids st nd" by (simp add: file_ids_def)
  then show used: "used_ids st' nd = used_ids st nd" by (simp add: used_ids_def)
  show "node_good st' nd" using assms(1,2,5) good(1) used dir_block_used [OF assms(1,2)] by (auto simp: node_good_def freeable_def)
  show "contents_of st' nd = Folder (dir_map d)" using assms(2) good(3) by (simp add: contents_of_def)
qed

lemma new_kind_names:
  assumes "new_kind (contents_of st (node_of st n)) ft n p" "names st n t = Some (ino, ty)"
  shows "(ino = of_nat n \<or> ino = of_nat p) \<and> ty = EXT2_FT_DIR"
  using assms contents_names' [of st n] by (auto simp: new_kind_def split: if_splits)

lemma new_kind_type: "new_kind (contents_of st (node_of st n)) ft n p \<Longrightarrow> ft = type_of st n"
  using contents_names' [of st n] by (auto simp: new_kind_def type_of_def)

lemma added_view:
  assumes v: "volume_ok st" and n: "n \<in> {1..896}" "\<not> inode_used st n"
    and p: "p \<in> live st" "is_dir_mode (node_of st p)" "blk = unat (i_block (node_of st p) ! 0)"
    and a: "added st st' n S blk d c" and d: "dir_good d" "dir_map d = (names st p)(nm \<mapsto> (of_nat n, ft))" "names st p nm = None"
    and k: "new_kind c ft n p"
  shows "volume_ok st'" and "view st' = (view st)(n \<mapsto> c, p \<mapsto> Folder ((names st p)(nm \<mapsto> (of_nat n, ft))))"
proof -
  note ad = a [unfolded added_def]
  have lv: "leaves st st' {n} (insert blk S)" using ad by blast
  have nn: "n \<notin> live st" "0 < n" "n \<le> 896" "unat (of_nat n :: u32) = n" using n by (auto simp: live_def unat_of_nat_block)
  have pp: "p \<noteq> n" "unat (of_nat p :: u32) = p" "0 < p" "p \<le> 896" using p(1) nn(1) liveD [OF p(1)] by (auto simp: unat_of_nat_block)
  have live: "live st' = insert n (live st)"
    using lv ad n by (auto simp: live_def leaves_def)
  have keep: "\<forall>b<2048. block_used st b \<longrightarrow> block_used st' b" using ad by blast
  have fresh: "\<forall>b\<in>S. \<not> block_used st b" using ad by blast
  note frame = frame_live [OF v lv nn(1) fresh keep p]
  have np: "node_of st' p = node_of st p" using lv liveD [OF p(1)] pp(1) by (simp add: leaves_def)
  note gp = volume_okD(2) [OF v p(1)]
  have bp: "unat (i_block (node_of st p) ! 0) < 2048" "block_used st (unat (i_block (node_of st p) ! 0))"
    using used_block [OF gp, of "i_block (node_of st p) ! 0"] dir_block_used [OF gp p(2)] by auto
  have eqd: "x < 512 \<Longrightarrow> fs_disk st' (i_block (node_of st p) ! 0) x = d x" for x using ad p(3) by simp
  note folder = frame_folder [OF gp p(2) d(1) eqd keep [rule_format, OF bp]]
  have namesp: "names st' p = (names st p)(nm \<mapsto> (of_nat n, ft))"
    using contents_names' [of st' p] folder(3) np d(2) by simp
  have namesm: "names st' m = names st m" if "m \<in> live st" "m \<noteq> p" for m using frame(5) [OF that] .
  note kind = k [folded ad [THEN conjunct2, THEN conjunct2, THEN conjunct2, THEN conjunct2, THEN conjunct2, THEN conjunct2, THEN conjunct1]]
  have types: "type_of st' m = type_of st m" if "m \<in> live st" for m
    using frame(1) [OF that] np by (cases "m = p") (simp_all add: type_of_def)
  have old: "unat ino \<in> live st \<and> ty = type_of st (unat ino)" if "m \<in> live st" "names st m s = Some (ino, ty)" for m s ino ty
    using volume_okD(4) [OF v that] .
  have ids: "used_ids st' (node_of st' m) = used_ids st (node_of st m)" if "m \<in> live st" for m
    using frame(1,2) [OF that] folder(1) np by (cases "m = p") simp_all
  have good: "node_good st' (node_of st' m)" if "m \<in> live st'" for m
    using that frame(1,3) [of m] folder(2) np ad unfolding live by (cases "m = n"; cases "m = p") auto
  have disj: "set (used_ids st' (node_of st' m)) \<inter> set (used_ids st' (node_of st' n)) = {}" if "m \<in> live st" for m
  proof -
    have "unat b \<notin> S" if "b \<in> set (used_ids st (node_of st m))" for b
      using used_block [OF volume_okD(2) [OF v \<open>m \<in> live st\<close>] that] fresh by blast
    then show ?thesis using ad ids [OF that] by auto
  qed
  have target: "unat ino \<in> live st' \<and> ty = type_of st' (unat ino)" if m: "m \<in> live st'" and s: "names st' m s = Some (ino, ty)" for m s ino ty
  proof (cases "m = n")
    case True
    with new_kind_names [OF kind, of s ino ty] s have e: "ino = of_nat n \<or> ino = of_nat p" "ty = EXT2_FT_DIR" by auto
    have "type_of st' n = EXT2_FT_DIR" using s True by (auto simp: type_of_def names_def split: if_splits)
    moreover have "type_of st' p = EXT2_FT_DIR" using types [OF p(1)] p(2) by (simp add: type_of_def)
    ultimately show ?thesis using e nn(4) pp(2) p(1) by (auto simp: live)
  next
    case False
    with m live have ml: "m \<in> live st" by simp
    show ?thesis
    proof (cases "m = p \<and> s = nm")
      case True
      with s namesp new_kind_type [OF kind] nn(4) show ?thesis by (simp add: live)
    next
      case False
      then have "names st m s = Some (ino, ty)" using s namesp namesm [OF ml] by (cases "m = p") auto
      from old [OF ml this] types show ?thesis by (simp add: live)
    qed
  qed
  have unique: "m = q \<and> s = t" if m: "m \<in> live st'" "names st' m s = Some (ino, EXT2_FT_REG_FILE)"
    and q: "q \<in> live st'" "names st' q t = Some (ino, EXT2_FT_REG_FILE)" for m q s t ino
  proof -
    have ne: "m \<noteq> n" if "m \<in> live st'" "names st' m s = Some (ino, EXT2_FT_REG_FILE)" for m s
      using new_kind_names [OF kind, of s] that by fastforce
    have origin: "m = p \<and> s = nm \<and> ino = of_nat n \<or> m \<in> live st \<and> names st m s = Some (ino, EXT2_FT_REG_FILE) \<and> unat ino \<noteq> n"
      if "m \<in> live st'" "names st' m s = Some (ino, EXT2_FT_REG_FILE)" for m s
    proof -
      have ml: "m \<in> live st" using that(1) ne [OF that] by (simp add: live)
      show ?thesis
      proof (cases "m = p \<and> s = nm")
        case True
        with that(2) namesp show ?thesis by simp
      next
        case False
        then have "names st m s = Some (ino, EXT2_FT_REG_FILE)" using that(2) namesp namesm [OF ml] by (cases "m = p") auto
        with old [OF ml this] nn(1) ml show ?thesis by auto
      qed
    qed
    from origin [OF m] origin [OF q] nn(4) volume_okD(5) [OF v, of m q s ino t] show ?thesis by auto
  qed
  have distinct: "set (used_ids st' (node_of st' m)) \<inter> set (used_ids st' (node_of st' q)) = {}"
    if "m \<in> live st'" "q \<in> live st'" "m \<noteq> q" for m q
    using that disj [of m] disj [of q] ids volume_okD(3) [OF v, of m q] unfolding live by (cases "m = n"; cases "q = n") auto
  have "fs_ok st'" using leaves_ok(1) [OF lv] .
  then show "volume_ok st'"
    by (rule volume_okI) ((fact good distinct conjunct1 [OF target] conjunct2 [OF target])+, (use unique in blast)+)
  show "view st' = (view st)(n \<mapsto> c, p \<mapsto> Folder ((names st p)(nm \<mapsto> (of_nat n, ft))))"
  proof (rule ext)
    fix m
    show "view st' m = ((view st)(n \<mapsto> c, p \<mapsto> Folder ((names st p)(nm \<mapsto> (of_nat n, ft))))) m"
    proof (cases "m = n \<or> m = p")
      case True
      have "view st' n = Some c" using ad by (simp add: view_def live)
      moreover have "view st' p = Some (Folder ((names st p)(nm \<mapsto> (of_nat n, ft))))" using folder(3) np d(2) p(1) by (simp add: view_def live)
      ultimately show ?thesis using True pp(1) by auto
    next
      case False
      then show ?thesis using frame(1,4) [of m] by (cases "m \<in> live st") (simp_all add: view_def live)
    qed
  qed
qed

lemma find_slot_folder:
  assumes "node_good st nd" "is_dir_mode nd" "find_slot st nd nm len need 0 1 = Some (blk, dbuf, Hole off)"
  shows "blk = i_block nd ! 0" "scan_slot dbuf nm len need 0 = Hole off" "dir_good dbuf" "dir_map dbuf = dir_map (fs_disk st (i_block nd ! 0))"
proof -
  have good: "i_block nd ! 0 \<noteq> 0" "length (i_block nd) = 15" "dir_good (fs_disk st (i_block nd ! 0))"
    using assms(1,2) by (auto simp: node_good_def)
  have b: "unat (i_block nd ! 0) < 8192" using used_block [OF assms(1), of "i_block nd ! 0"] dir_block_used [OF assms(1,2)] by simp
  from assms(3) good(1,2) b show blk: "blk = i_block nd ! 0" "scan_slot dbuf nm len need 0 = Hole off"
    by (auto simp: read_block_eq split: slot.splits)
  have "dbuf = overlay (fs_disk st (i_block nd ! 0)) (uninit st)"
    using assms(3) good(1,2) b by (auto simp: read_block_eq split: slot.splits)
  then show "dir_good dbuf" "dir_map dbuf = dir_map (fs_disk st (i_block nd ! 0))"
    using dir_good_cong [OF good(3), of dbuf] by auto
qed

lemma new_contents_kind: "new_kind (new_contents req (of_nat n)) (if buffer_size req = 0 \<and> is_directory req then EXT2_FT_DIR else EXT2_FT_REG_FILE) n (unat (parent_inode req))"
  by (simp add: new_kind_def new_contents_def)

lemma write_finish:
  assumes v: "volume_ok st" and n: "n \<in> {1..896}" "\<not> inode_used st n"
    and made: "made (synced (take_inode st n)) st2 n S c" and b: "b < 2048" "\<not> reserved b" "block_used st b"
  shows "ok (write_block st2 d (of_nat b)) (\<lambda>st3. ok (sync_metadata st3) (\<lambda>st'. added st st' n S b d c))"
proof -
  note ok = volume_okD(1) [OF v]
  let ?st1 = "synced (take_inode st n)"
  have n': "0 < n" "n \<le> 896" using n(1) by simp_all
  note take = leaves_take_inode [OF ok n' n(2)]
  have one: "leaves st ?st1 {n} {}" "inode_used ?st1 n" "\<forall>b<2048. block_used ?st1 b = block_used st b"
    by (rule take, rule take) (intro allI impI take)
  note m = made [unfolded made_def]
  have ok2: "fs_ok st2" using leaves_ok(1) [OF conjunct1 [OF m]] .
  show ?thesis
  proof (rule ok_mono [OF leaves_write [OF ok2 b(1,2)]], unfold sync_metadata_synced ok_Some)
    fix st3 :: fs
    assume 3: "leaves st2 st3 {} {b} \<and> (\<forall>a<512. fs_disk st3 (of_nat b) a = d a) \<and> (\<forall>k<2048. block_used st3 k = block_used st2 k)"
    let ?st' = "synced st3"
    note ok3 = leaves_ok(1) [OF conjunct1 [OF 3]]
    have "leaves st st2 ({n} \<union> {n}) ({} \<union> S)" using leaves_trans [OF one(1) conjunct1 [OF m]] .
    from leaves_trans [OF this leaves_trans [OF conjunct1 [OF 3] leaves_synced [OF ok3]]]
    have lv: "leaves st ?st' {n} (insert b S)" by (simp add: Un_commute)
    have inode: "inode_used ?st' n" using n(1) m 3 one(2) reserved_less [OF b(2)]
    proof -
      have "fs_disk ?st' (of_nat (ibm ((n - 1) div 112))) = fs_disk st3 (of_nat (ibm ((n - 1) div 112)))"
        using n(1) inode_group_less [of n] by simp
      then have "inode_used ?st' n = inode_used st3 n" by (simp add: inode_used_def)
      moreover have "leaves st2 st3 {} {b}" using 3 by blast
      then have "inode_used st3 n = inode_used st2 n" "node_of st3 n = node_of st2 n" using n(1) by (simp_all add: leaves_def)
      ultimately show ?thesis using m one(2) by simp
    qed
    have node: "node_of ?st' n = node_of st2 n"
      using leaves_trans [OF conjunct1 [OF 3] leaves_synced [OF ok3]] n(1) by (simp add: leaves_def)
    have used: "block_used ?st' k = block_used st2 k" if "k < 2048" for k using 3 that by simp
    have same: "fs_disk ?st' x = fs_disk st2 x \<and> block_used ?st' (unat x)" if "x \<in> set (used_ids st2 (node_of st2 n))" for x
    proof -
      have x: "unat x < 2048" "\<not> reserved (unat x)" "block_used st2 (unat x)" "unat x \<in> S"
        using that m used_block [of st2 "node_of st2 n" x] by auto
      have "\<not> block_used ?st1 (unat x)" using m x(4) by blast
      then have "unat x \<noteq> b" using one(3) b(3) x(1) by auto
      with x leaves_block [OF leaves_trans [OF conjunct1 [OF 3] leaves_synced [OF ok3]]] used show ?thesis by simp
    qed
    have frame: "used_ids ?st' (node_of st2 n) = used_ids st2 (node_of st2 n)" "node_good ?st' (node_of st2 n)"
        "contents_of ?st' (node_of st2 n) = contents_of st2 (node_of st2 n)"
      using node_frame [of st2 "node_of st2 n" ?st'] m same by blast+
    have "\<forall>a<512. fs_disk ?st' (of_nat b) a = d a" using 3 b(1) reserved_less [OF b(2)] by simp
    moreover have "\<forall>k\<in>S. k < 2048 \<and> \<not> block_used ?st1 k" using m by blast
    then have "\<forall>k\<in>S. k < 2048 \<and> \<not> block_used st k" using one(3) by blast
    moreover have "\<forall>k<2048. block_used ?st' k \<longleftrightarrow> block_used st k \<or> k \<in> S" using m one(3) used by simp
    ultimately show "added st ?st' n S b d c"
      using lv inode node frame m unfolding added_def by simp
  qed
qed

text \<open>
  When \<open>write\<close> can succeed: the name is not bound, the directory has a hole for it, an inode is
  free, and the groups searched have the blocks.
\<close>

definition can_write :: "fs \<Rightarrow> request \<Rightarrow> nat \<Rightarrow> bool" where
  "can_write st req n \<longleftrightarrow>
     (let p = unat (parent_inode req); nd = node_of st p in
      p \<in> live st \<and> is_dir_mode nd \<and> names st p (bytes_of (req_name req) (unat (name_len req))) = None \<and>
      (\<exists>blk dbuf off. find_slot st nd (req_name req) (name_len req) (get_entry_record_len (name_len req)) 0 1 = Some (blk, dbuf, Hole off)) \<and>
      List.find (\<lambda>n. \<not> inode_used st n) [1..<897] = Some n \<and> blocks_of (buffer_size req) \<le> 140 \<and>
      blocks_needed req \<le> card (room (inode_to_bgd (of_nat n)) st))"

definition new_type :: "request \<Rightarrow> u8" where
  "new_type req = (if buffer_size req = 0 \<and> is_directory req then EXT2_FT_DIR else EXT2_FT_REG_FILE)"

lemma room_take_inode: "fs_ok st \<Longrightarrow> 0 < n \<Longrightarrow> n \<le> 896 \<Longrightarrow> \<not> inode_used st n \<Longrightarrow> room pref (synced (take_inode st n)) = room pref st"
  using leaves_take_inode(4) by (auto simp: room_def)

text \<open>The run of \<open>write\<close> from the hole it finds.\<close>

lemma write_run:
  assumes v: "volume_ok st" and w: "can_write st req n" and slot: "find_slot st (node_of st (unat (parent_inode req))) (req_name req) (name_len req)
      (get_entry_record_len (name_len req)) 0 1 = Some (blk, dbuf, Hole off)"
  shows "ok (ext2_write st (Some req)) (\<lambda>(code, st'). code = 0 \<and> (\<exists>S. added st st' n S (unat blk)
    (insert_entry dbuf off (of_nat n) (new_type req) (req_name req) (name_len req)) (new_contents req (of_nat n))))"
proof -
  let ?p = "unat (parent_inode req)" let ?nd = "node_of st ?p"
  let ?ino = "of_nat n :: u32" let ?ft = "new_type req" let ?c = "new_contents req ?ino"
  from w have p: "?p \<in> live st" "is_dir_mode ?nd" and
    find: "List.find (\<lambda>n. \<not> inode_used st n) [1..<897] = Some n" and
    room: "blocks_of (buffer_size req) \<le> 140" "blocks_needed req \<le> card (room (inode_to_bgd ?ino) st)"
    by (auto simp: can_write_def Let_def)
  note ok = volume_okD(1) [OF v] and good = volume_okD(2) [OF v p(1)]
  have n: "0 < n" "n \<le> 896" "\<not> inode_used st n" "n \<in> {1..896}" using find_upt_SomeD [OF find] by auto
  have ino: "?ino \<noteq> 0" "unat ?ino = n" using n of_nat_u32_eq_iff [of n 0] by (simp_all add: unat_of_nat_block)
  note s = find_slot_folder [OF good p(2) slot]
  let ?d = "insert_entry dbuf off ?ino ?ft (req_name req) (name_len req)"
  let ?b = "unat blk"
  have b: "?b < 2048" "\<not> reserved ?b" "block_used st ?b"
    using used_block [OF good, of blk] dir_block_used [OF good p(2)] s(1) by auto
  note st1 = leaves_take_inode(1) [OF ok n(1-3)]
  note mk = make_node_spec [OF leaves_ok(1) [OF st1] n(1,2) live_nonzero [OF p(1)] room(1)]
  have "ok (make_node (synced (take_inode st n)) req (buffer_size req = 0 \<and> is_directory req) ?ino) (\<lambda>st2.
      ok (write_block st2 ?d (of_nat ?b)) (\<lambda>st3. ok (sync_metadata st3) (\<lambda>st'. \<exists>S. added st st' n S ?b ?d ?c)))"
  proof (rule ok_mono [OF mk]; (elim exE)?)
    show "blocks_needed req \<le> card (room (inode_to_bgd ?ino) (synced (take_inode st n)))"
      using room(2) room_take_inode [OF ok n(1-3)] by simp
    fix st2 S
    assume "made (synced (take_inode st n)) st2 n S ?c"
    from write_finish [OF v n(4,3) this b, of ?d]
    show "ok (write_block st2 ?d (of_nat ?b)) (\<lambda>st3. ok (sync_metadata st3) (\<lambda>st'. \<exists>S. added st st' n S ?b ?d ?c))"
      by (elim ok_mono) (rule exI)
  qed
  moreover obtain m where "load_inode st (parent_inode req) = Some (m, ?nd)" using load_live [OF ok p(1)] by blast
  moreover obtain x where "inode_block st (parent_inode req) = Some x" using inode_block_eq [OF ok] liveD [OF p(1)] by blast
  moreover have "unat (i_blocks ?nd) = 1" using good p(2) by (simp add: node_good_def)
  moreover have "allocate_node st = Some (?ino, synced (take_inode st n))" using allocate_node_eq [OF ok] find by simp
  ultimately show ?thesis
    using slot p(2) live_nonzero [OF p(1)] ino(1)
    by (simp add: ext2_write_def ok_do Let_def new_type_def)
qed

lemma write_adds:
  assumes v: "volume_ok st" and w: "can_write st req n"
  shows "ok (ext2_write st (Some req)) (\<lambda>(code, st'). code = 0 \<and> (\<exists>S blk d. added st st' n S blk d (new_contents req (of_nat n))) \<and>
    n \<notin> live st \<and> volume_ok st' \<and>
    view st' = (view st)(n \<mapsto> new_contents req (of_nat n),
      unat (parent_inode req) \<mapsto> Folder ((names st (unat (parent_inode req)))(bytes_of (req_name req) (unat (name_len req)) \<mapsto> (of_nat n, new_type req)))))"
proof -
  let ?p = "unat (parent_inode req)" let ?nd = "node_of st ?p" let ?nm = "bytes_of (req_name req) (unat (name_len req))"
  let ?ino = "of_nat n :: u32" let ?ft = "new_type req" let ?c = "new_contents req ?ino"
  from w obtain blk dbuf off where
    p: "?p \<in> live st" "is_dir_mode ?nd" "names st ?p ?nm = None" and
    slot: "find_slot st ?nd (req_name req) (name_len req) (get_entry_record_len (name_len req)) 0 1 = Some (blk, dbuf, Hole off)" and
    find: "List.find (\<lambda>n. \<not> inode_used st n) [1..<897] = Some n" and
    room: "blocks_of (buffer_size req) \<le> 140" "blocks_needed req \<le> card (room (inode_to_bgd ?ino) st)"
    by (auto simp: can_write_def Let_def)
  note good = volume_okD(2) [OF v p(1)]
  have n: "0 < n" "n \<le> 896" "\<not> inode_used st n" "n \<in> {1..896}" using find_upt_SomeD [OF find] by auto
  have ino: "?ino \<noteq> 0" "unat ?ino = n" using n of_nat_u32_eq_iff [of n 0] by (simp_all add: unat_of_nat_block)
  note s = find_slot_folder [OF good p(2) slot]
  let ?d = "insert_entry dbuf off ?ino ?ft (req_name req) (name_len req)"
  have none: "dir_map dbuf ?nm = None" using s(4) p(2,3) by (simp add: names_def)
  note ins = insert_entry_adds [OF s(3) ino(1) none s(2), of ?ft]
  have dm: "dir_map ?d = (names st ?p)(?nm \<mapsto> (?ino, ?ft))" using ins s(4) p(2) by (simp add: names_def)
  note run = write_run [OF v w slot]
  have kind: "new_kind ?c ?ft n ?p" using new_contents_kind by (simp add: new_type_def)
  have "n \<notin> live st" using n(3) by (simp add: live_def)
  moreover note out = added_view [OF v n(4,3) p(1,2) _ _ conjunct1 [OF ins] dm p(3) kind]
  ultimately show ?thesis
    by (intro ok_mono [OF run]) (clarsimp, use out s(1) in blast)
qed

subsection \<open>Taking a file away\<close>

definition removed :: "fs \<Rightarrow> fs \<Rightarrow> nat \<Rightarrow> nat \<Rightarrow> mem \<Rightarrow> bool" where
  "removed st st' n blk d \<longleftrightarrow> leaves st st' {n} {blk} \<and> \<not> inode_used st' n \<and>
     (\<forall>b<2048. block_used st' b \<longleftrightarrow> block_used st b \<and> b \<notin> unat ` set (used_ids st (node_of st n))) \<and>
     (\<forall>a<512. fs_disk st' (of_nat blk) a = d a)"

lemma names_frame:
  "node_of st' m = node_of st m \<Longrightarrow> contents_of st' (node_of st m) = contents_of st (node_of st m) \<Longrightarrow> names st' m = names st m"
  by (simp add: names_def contents_of_def split: if_splits)

lemma removed_view:
  assumes v: "volume_ok st" and p: "p \<in> live st" "is_dir_mode (node_of st p)" "blk = unat (i_block (node_of st p) ! 0)"
    and n: "names st p nm = Some (of_nat n, EXT2_FT_REG_FILE)" "n \<in> live st"
    and r: "removed st st' n blk d" and d: "dir_good d" "dir_map d = (names st p)(nm := None)"
  shows "volume_ok st'" and "view st' = (view st)(n := None, p \<mapsto> Folder ((names st p)(nm := None)))"
proof -
  note rm = r [unfolded removed_def]
  have lv: "leaves st st' {n} {blk}" using rm by blast
  have un: "unat (of_nat n :: u32) = n" using liveD [OF n(2)] by (simp add: unat_of_nat_block)
  have reg: "\<not> is_dir_mode (node_of st n)" using volume_okD(4) [OF v p(1) n(1)] un by (simp flip: type_of_eq)
  have pn: "p \<noteq> n" using reg p(2) by blast
  have live: "live st' = live st - {n}" using lv rm liveD [OF n(2)] by (auto simp: live_def leaves_def)
  have node: "node_of st' m = node_of st m" if "m \<in> live st" "m \<noteq> n" for m
    using that lv liveD [OF that(1)] by (simp add: leaves_def)
  note gp = volume_okD(2) [OF v p(1)]
  have bp: "i_block (node_of st p) ! 0 \<in> set (used_ids st (node_of st p))" using dir_block_used [OF gp p(2)] by simp
  have keep: "block_used st' (unat b)" if "m \<in> live st" "m \<noteq> n" "b \<in> set (used_ids st (node_of st m))" for m b
  proof -
    have "unat b \<notin> unat ` set (used_ids st (node_of st n))"
      using volume_okD(3) [OF v that(1) n(2) that(2)] that(3) by (auto simp: word_unat_eq_iff [symmetric])
    with rm used_block [OF volume_okD(2) [OF v that(1)] that(3)] show ?thesis by simp
  qed
  have other: "used_ids st' (node_of st m) = used_ids st (node_of st m)" "node_good st' (node_of st m)"
      "contents_of st' (node_of st m) = contents_of st (node_of st m)" if m: "m \<in> live st" "m \<noteq> n" "m \<noteq> p" for m
  proof -
    note good = volume_okD(2) [OF v m(1)]
    have "fs_disk st' b = fs_disk st b" if "b \<in> set (used_ids st (node_of st m))" for b
    proof -
      have "b \<noteq> i_block (node_of st p) ! 0" using volume_okD(3) [OF v p(1) m(1)] m(3) bp that by blast
      then have "unat b \<notin> {blk}" using p(3) by (simp add: word_unat_eq_iff)
      with leaves_block [OF lv] used_block [OF good that] show ?thesis by blast
    qed
    from node_frame [OF good this keep [OF m(1,2)]]
    show "used_ids st' (node_of st m) = used_ids st (node_of st m)" "node_good st' (node_of st m)"
      "contents_of st' (node_of st m) = contents_of st (node_of st m)" by blast+
  qed
  have eqd: "x < 512 \<Longrightarrow> fs_disk st' (i_block (node_of st p) ! 0) x = d x" for x using rm p(3) by simp
  note folder = frame_folder [OF gp p(2) d(1) eqd keep [OF p(1) pn bp]]
  note np = node [OF p(1) pn]
  have namesp: "names st' p = (names st p)(nm := None)" using contents_names' [of st' p] folder(3) np d(2) by simp
  have namesm: "names st' m = names st m" if "m \<in> live st" "m \<noteq> n" "m \<noteq> p" for m
    using names_frame [OF node other(3)] that by blast
  have sub: "names st m s = Some e" if "m \<in> live st'" "names st' m s = Some e" for m s e
    using that namesp namesm [of m] unfolding live by (cases "m = p") (auto split: if_splits)
  have ids: "used_ids st' (node_of st' m) = used_ids st (node_of st m)" if "m \<in> live st" "m \<noteq> n" for m
    using other(1) [of m] node [OF that] folder(1) that by (cases "m = p") simp_all
  show "volume_ok st'"
  proof (rule volume_okI)
    show "fs_ok st'" using leaves_ok(1) [OF lv] .
    show "node_good st' (node_of st' m)" if "m \<in> live st'" for m
      using that other(2) [of m] node [of m] folder(2) unfolding live by (cases "m = p") auto
    show "set (used_ids st' (node_of st' m)) \<inter> set (used_ids st' (node_of st' q)) = {}" if "m \<in> live st'" "q \<in> live st'" "m \<noteq> q" for m q
      using that volume_okD(3) [OF v, of m q] ids [of m] ids [of q] unfolding live by simp
    fix m s ino ft
    assume m: "m \<in> live st'" and s: "names st' m s = Some (ino, ft)"
    have ml: "m \<in> live st" using m live by blast
    from volume_okD(4) [OF v ml sub [OF m s]] have t: "unat ino \<in> live st" "ft = type_of st (unat ino)" by simp_all
    have "unat ino \<noteq> n"
    proof
      assume eq: "unat ino = n"
      then have "ino = of_nat n" "ft = EXT2_FT_REG_FILE" using t(2) reg un by (auto simp: type_of_def word_unat_eq_iff)
      with volume_okD(5) [OF v ml p(1) _ n(1)] sub [OF m s] have "m = p" "s = nm" by blast+
      with s namesp show False by simp
    qed
    with t node live show "unat ino \<in> live st'" "ft = type_of st' (unat ino)" by (simp_all add: type_of_def)
  next
    fix m q s t ino
    assume "m \<in> live st'" "q \<in> live st'" "names st' m s = Some (ino, EXT2_FT_REG_FILE)" "names st' q t = Some (ino, EXT2_FT_REG_FILE)"
    then have "names st m s = Some (ino, EXT2_FT_REG_FILE)" "names st q t = Some (ino, EXT2_FT_REG_FILE)" "m \<in> live st" "q \<in> live st"
      using sub live by blast+
    with volume_okD(5) [OF v, of m q s ino t] show "m = q" "s = t" by blast+
  qed
  show "view st' = (view st)(n := None, p \<mapsto> Folder ((names st p)(nm := None)))"
  proof (rule ext)
    fix m
    show "view st' m = ((view st)(n := None, p \<mapsto> Folder ((names st p)(nm := None)))) m"
      using folder(3) np d(2) p(1) pn node [of m] other(3) [of m] by (cases "m = p"; cases "m = n"; cases "m \<in> live st") (simp_all add: view_def live)
  qed
qed

lemma find_del_folder:
  assumes "node_good st nd" "is_dir_mode nd"
  defines "d \<equiv> overlay (fs_disk st (i_block nd ! 0)) (uninit st)"
  shows "find_del st nd nm len 0 (unat (i_blocks nd)) = Some (map_option (\<lambda>(prev, off). (i_block nd ! 0, prev, off)) (scan_del d nm len None 0))"
    and "dir_good d" "dir_map d = dir_map (fs_disk st (i_block nd ! 0))" "unat (i_block nd ! 0) < 8192"
    "read_block st (uninit st) (i_block nd ! 0) = Some d"
proof -
  have good: "i_blocks nd = 1" "i_block nd ! 0 \<noteq> 0" "length (i_block nd) = 15" "dir_good (fs_disk st (i_block nd ! 0))"
    using assms(1,2) by (auto simp: node_good_def)
  show b: "unat (i_block nd ! 0) < 8192" using used_block [OF assms(1), of "i_block nd ! 0"] dir_block_used [OF assms(1,2)] by simp
  show "dir_good d" "dir_map d = dir_map (fs_disk st (i_block nd ! 0))"
    using dir_good_cong [OF good(4), of d] by (auto simp: d_def)
  show "read_block st (uninit st) (i_block nd ! 0) = Some d" using b by (simp add: read_block_eq d_def)
  then show "find_del st nd nm len 0 (unat (i_blocks nd)) = Some (map_option (\<lambda>(prev, off). (i_block nd ! 0, prev, off)) (scan_del d nm len None 0))"
    using good by (simp split: option.splits)
qed

text \<open>What the scan of \<open>delete\<close> finds is the binding of the name, and the removal takes it away.\<close>

lemma scan_del_binding:
  assumes "dir_good d"
  shows "case scan_del d nm len None 0 of
      None \<Rightarrow> dir_map d (bytes_of nm (unat len)) = None
    | Some (prev, off) \<Rightarrow> dir_map d (bytes_of nm (unat len)) = Some (entry_val d off) \<and>
        dir_good (remove_entry d prev off) \<and> dir_map (remove_entry d prev off) = (dir_map d)(bytes_of nm (unat len) := None)"
proof (cases "scan_del d nm len None 0")
  case None
  have "scan_find d nm len 0 = None" using scan_del_None [of d 0 nm len None] None assms by (simp add: dir_good_def)
  with None scan_find_lookup [of d nm len 0] show ?thesis by (simp add: dir_map_def)
next
  case (Some r)
  obtain prev off where r: "r = (prev, off)" by force
  let ?n = "bytes_of nm (unat len)"
  have chain: "chain_ok d 0" and dist: "distinct (map fst (dir_entries d 0))" using assms by (simp_all add: dir_good_def)
  note rem = dir_remove [OF Some [unfolded r] chain]
  then obtain pre suf where l: "dir_entries d 0 = pre @ (?n, entry_val d off) # suf" "?n \<notin> fst ` set pre"
    "dir_entries (remove_entry d prev off) 0 = pre @ suf" by blast
  have "dir_map d ?n = Some (entry_val d off)" unfolding dir_map_def l(1) using l(2) by (simp add: map_add_Some_iff map_of_eq_None_iff)
  moreover have "dir_map (remove_entry d prev off) = (dir_map d)(?n := None)"
    unfolding dir_map_def l by (rule map_of_remove) (use dist l(1) in simp)
  moreover have "dir_good (remove_entry d prev off)" using rem(1) dist unfolding dir_good_def l by simp
  ultimately show ?thesis by (simp add: Some r)
qed

lemma leaves_node_gone:
  assumes "node_gone st st' n S" 
  shows "leaves st st' {n} {}"
  using assms by (auto simp: node_gone_def leaves_def)

lemma delete_finish:
  assumes v: "volume_ok st" and n: "n \<in> live st" and gone: "node_gone st st1 n (unat ` set (used_ids st (node_of st n)))"
    and b: "b < 2048" "\<not> reserved b"
  shows "ok (write_block st1 d (of_nat b)) (\<lambda>st2. ok (sync_metadata st2) (\<lambda>st'. removed st st' n b d))"
proof -
  note g = gone [unfolded node_gone_def]
  have ok1: "fs_ok st1" using g by blast
  show ?thesis
  proof (rule ok_mono [OF leaves_write [OF ok1 b]], unfold sync_metadata_synced ok_Some)
    fix st2 :: fs
    assume 2: "leaves st1 st2 {} {b} \<and> (\<forall>a<512. fs_disk st2 (of_nat b) a = d a) \<and> (\<forall>k<2048. block_used st2 k = block_used st1 k)"
    note step = leaves_trans [OF conjunct1 [OF 2] leaves_synced [OF leaves_ok(1) [OF conjunct1 [OF 2]]]]
    have lv: "leaves st (synced st2) {n} {b}" using leaves_trans [OF leaves_node_gone [OF gone] step] by simp
    have "inode_used (synced st2) n = inode_used st1 n" using step liveD [OF n] by (simp add: leaves_def)
    then have "\<not> inode_used (synced st2) n" using g liveD [OF n] by simp
    with lv 2 g b reserved_less [OF b(2)] show "removed st (synced st2) n b d" by (simp add: removed_def)
  qed
qed

lemma delete_removes:
  assumes v: "volume_ok st" and p: "unat (parent_inode req) \<in> live st" "is_dir_mode (node_of st (unat (parent_inode req)))"
    and n: "names st (unat (parent_inode req)) (bytes_of (req_name req) (unat (name_len req))) = Some (ino, EXT2_FT_REG_FILE)" "\<not> is_directory req"
  shows "ok (ext2_delete st req) (\<lambda>(code, st'). code = 0 \<and> (\<exists>blk d. removed st st' (unat ino) blk d) \<and> volume_ok st' \<and>
    view st' = (view st)(unat ino := None, unat (parent_inode req) \<mapsto>
      Folder ((names st (unat (parent_inode req)))(bytes_of (req_name req) (unat (name_len req)) := None))))"
proof -
  let ?p = "unat (parent_inode req)" let ?nd = "node_of st ?p" let ?nm = "bytes_of (req_name req) (unat (name_len req))"
  let ?b = "i_block ?nd ! 0" let ?d = "overlay (fs_disk st ?b) (uninit st)"
  note ok = volume_okD(1) [OF v] and good = volume_okD(2) [OF v p(1)]
  note fd = find_del_folder [OF good p(2)]
  have nd: "dir_map ?d = names st ?p" using fd(3) p(2) by (simp add: names_def)
  from scan_del_binding [OF fd(2), of "req_name req" "name_len req"] n(1) nd obtain prev off where
    sd: "scan_del ?d (req_name req) (name_len req) None 0 = Some (prev, off)" "(ino, EXT2_FT_REG_FILE) = entry_val ?d off"
    "dir_good (remove_entry ?d prev off)" "dir_map (remove_entry ?d prev off) = (names st ?p)(?nm := None)"
    by (auto split: option.splits)
  have ent: "de_inode (get_directory_entry ?d off) = ino" "file_type (get_directory_entry ?d off) = EXT2_FT_REG_FILE"
    using sd(2) [symmetric] by (simp_all add: entry_val_def)
  have t: "unat ino \<in> live st" using volume_okD(4) [OF v p(1) n(1)] by blast
  note ti = liveD [OF t] and nz = live_nonzero [OF t] and gn = volume_okD(2) [OF v t]
  have gn': "unat (i_blocks (node_of st (unat ino))) \<le> 140" "freeable st (used_ids st (node_of st (unat ino)))"
    "12 < unat (i_blocks (node_of st (unat ino))) \<Longrightarrow> i_block (node_of st (unat ino)) ! 12 \<noteq> 0" using gn by (simp_all add: node_good_def)
  have b: "unat ?b < 2048" "\<not> reserved (unat ?b)" using used_block [OF good, of ?b] dir_block_used [OF good p(2)] by simp_all
  have "ok (deallocate_node st ino) (\<lambda>st1. ok (write_block st1 (remove_entry ?d prev off) (of_nat (unat ?b)))
      (\<lambda>st2. ok (sync_metadata st2) (\<lambda>st'. removed st st' (unat ino) (unat ?b) (remove_entry ?d prev off))))"
  proof (rule ok_mono [OF deallocate_small [OF ok _ _ _ refl gn']])
    show "0 < ino" using nz by (simp add: word_gt_0)
    show "unat ino \<le> 896" "inode_used st (unat ino)" using ti by simp_all
  qed (assumption, rule delete_finish [OF v t _ b])
  moreover have "clear_ends ?d prev off" by (rule scan_del_clear [OF sd(1)])
  moreover obtain m where "load_inode st (parent_inode req) = Some (m, ?nd)" using load_live [OF ok p(1)] by blast
  moreover obtain m' where "load_inode st ino = Some (m', node_of st (unat ino))" using load_live [OF ok t] by blast
  ultimately have run: "ok (ext2_delete st req) (\<lambda>(code, st'). code = 0 \<and> removed st st' (unat ino) (unat ?b) (remove_entry ?d prev off))"
    using p(2) live_nonzero [OF p(1)] fd(1,5) sd(1) nz ent n(2)
    by (simp add: ext2_delete_def ok_do Let_def)
  have nn: "names st ?p ?nm = Some (of_nat (unat ino), EXT2_FT_REG_FILE)" using n(1) by simp
  note out = removed_view [OF v p refl nn t _ sd(3,4)]
  show ?thesis by (intro ok_mono [OF run]) (clarsimp, use out in blast)
qed

text \<open>The calls that are refused change nothing: deleting through a parent that is no directory, a name that
  is not bound, a directory without the flag for it; writing through a parent that is no directory, or
  a name that the scan finds.\<close>

lemma delete_refused:
  assumes v: "volume_ok st" and p: "unat (parent_inode req) \<in> live st"
  shows "\<not> is_dir_mode (node_of st (unat (parent_inode req))) \<Longrightarrow> ext2_delete st req = Some (-1, st)"
    and "is_dir_mode (node_of st (unat (parent_inode req))) \<Longrightarrow>
      names st (unat (parent_inode req)) (bytes_of (req_name req) (unat (name_len req))) = None \<Longrightarrow> ext2_delete st req = Some (1, st)"
    and "is_dir_mode (node_of st (unat (parent_inode req))) \<Longrightarrow>
      names st (unat (parent_inode req)) (bytes_of (req_name req) (unat (name_len req))) = Some (ino, ft) \<Longrightarrow>
      ft \<noteq> EXT2_FT_REG_FILE \<Longrightarrow> \<not> is_directory req \<Longrightarrow> ext2_delete st req = Some (1, st)"
proof -
  let ?p = "unat (parent_inode req)" let ?nd = "node_of st ?p" let ?nm = "bytes_of (req_name req) (unat (name_len req))"
  let ?d = "overlay (fs_disk st (i_block ?nd ! 0)) (uninit st)"
  note good = volume_okD(2) [OF v p]
  obtain m where ld: "load_inode st (parent_inode req) = Some (m, ?nd)" using load_live [OF volume_okD(1) [OF v] p] by blast
  show "\<not> is_dir_mode ?nd \<Longrightarrow> ext2_delete st req = Some (-1, st)"
    using ld live_nonzero [OF p] by (simp add: ext2_delete_def)
  assume d: "is_dir_mode ?nd"
  note fd = find_del_folder [OF good d]
  have nd: "dir_map ?d = names st ?p" using fd(3) d by (simp add: names_def)
  note sd = scan_del_binding [OF fd(2), of "req_name req" "name_len req", unfolded nd]
  {
    assume "names st ?p ?nm = None"
    then have "scan_del ?d (req_name req) (name_len req) None 0 = None" using sd by (auto split: option.splits)
    then show "ext2_delete st req = Some (1, st)" using ld live_nonzero [OF p] d fd(1) by (simp add: ext2_delete_def)
  next
    assume n: "names st ?p ?nm = Some (ino, ft)" "ft \<noteq> EXT2_FT_REG_FILE" "\<not> is_directory req"
    then obtain prev off where so: "scan_del ?d (req_name req) (name_len req) None 0 = Some (prev, off)" "(ino, ft) = entry_val ?d off"
      using sd by (auto split: option.splits)
    then have "file_type (get_directory_entry ?d off) \<noteq> EXT2_FT_REG_FILE" using n(2) by (simp add: entry_val_def)
    then show "ext2_delete st req = Some (1, st)"
      using ld live_nonzero [OF p] d fd(1,5) so(1) n(3) by (simp add: ext2_delete_def Let_def)
  }
qed

lemma write_refused:
  assumes v: "volume_ok st" and p: "unat (parent_inode req) \<in> live st"
  shows "\<not> is_dir_mode (node_of st (unat (parent_inode req))) \<Longrightarrow> ext2_write st (Some req) = Some (2, st)"
    and "is_dir_mode (node_of st (unat (parent_inode req))) \<Longrightarrow>
      find_slot st (node_of st (unat (parent_inode req))) (req_name req) (name_len req) (get_entry_record_len (name_len req)) 0 1 =
        Some (blk, dbuf, Duplicate) \<Longrightarrow>
      ext2_write st (Some req) = Some (1, st) \<and>
      names st (unat (parent_inode req)) (bytes_of (req_name req) (unat (name_len req))) \<noteq> None"
proof -
  let ?p = "unat (parent_inode req)" let ?nd = "node_of st ?p"
  let ?d = "overlay (fs_disk st (i_block ?nd ! 0)) (uninit st)"
  note ok = volume_okD(1) [OF v] and good = volume_okD(2) [OF v p]
  obtain m where ld: "load_inode st (parent_inode req) = Some (m, ?nd)" using load_live [OF ok p] by blast
  have ib: "inode_block st (parent_inode req) = Some (of_nat (node_block ?p))"
    using inode_block_eq [OF ok] liveD [OF p] by simp
  show "\<not> is_dir_mode ?nd \<Longrightarrow> ext2_write st (Some req) = Some (2, st)"
    using ld ib live_nonzero [OF p] by (simp add: ext2_write_def)
  assume d: "is_dir_mode ?nd" and f: "find_slot st ?nd (req_name req) (name_len req) (get_entry_record_len (name_len req)) 0 1 = Some (blk, dbuf, Duplicate)"
  have n1: "unat (i_blocks ?nd) = 1" using good d by (auto simp: node_good_def)
  have run: "ext2_write st (Some req) = Some (1, st)"
    using ld ib live_nonzero [OF p] d f n1 by (simp add: ext2_write_def Let_def)
  have nz: "i_block ?nd ! 0 \<noteq> 0" "length (i_block ?nd) = 15" and dg: "dir_good (fs_disk st (i_block ?nd ! 0))"
    using good d by (auto simp: node_good_def)
  have b: "unat (i_block ?nd ! 0) < 8192" using used_block [OF good, of "i_block ?nd ! 0"] dir_block_used [OF good d] by simp
  have "scan_slot ?d (req_name req) (name_len req) (get_entry_record_len (name_len req)) 0 = Duplicate"
    using f nz b by (auto simp: read_block_eq split: slot.splits)
  from scan_slot_Duplicate [OF this] scan_find_lookup [of ?d "req_name req" "name_len req" 0]
  have "dir_map ?d (bytes_of (req_name req) (unat (name_len req))) \<noteq> None"
    unfolding dir_map_def by (metis option.map_disc_iff)
  moreover have "dir_map ?d = names st ?p" using find_del_folder(3) [OF good d] d by (simp add: names_def)
  ultimately show "ext2_write st (Some req) = Some (1, st) \<and> names st ?p (bytes_of (req_name req) (unat (name_len req))) \<noteq> None"
    using run by simp
qed

end
