(* ===== verification/Volume_Theorems.thy ===== *)
theory Volume_Theorems
  imports Ext2_Files
begin

section \<open>Properties of files and directories\<close>

text \<open>
  \<open>read\<close>, \<open>read_directory\<close>, \<open>write\<close> and \<open>delete\<close> as operations on the abstract view, their round
  trips and their invariant, and a defect of the code that \<open>can_write\<close> leaves out: a directory that grows.
  The applications start from the file system that creation leaves.
\<close>

declare One_nat_def [simp del]

lemma fresh_live: "live fresh_fs = {1}"
  using fresh_used(2) by (auto simp: live_def)

lemma root_dir: "is_dir_mode root_inode"
  by (simp add: is_dir_mode_def root_inode_def EXT2_S_IFDIR_def)

lemma fresh_root1: "node_of fresh_fs 1 = root_inode"
  using fresh_root by simp

lemma fresh_block: "a < 512 \<Longrightarrow> fs_disk fresh_fs 21 a = new_dir_block (\<lambda>_. 0) 1 1 a"
  using fresh_created by (simp add: created_def holds_def)

lemma fresh_names: "names fresh_fs 1 = [[0x2E] \<mapsto> (1, EXT2_FT_DIR), [0x2E, 0x2E] \<mapsto> (1, EXT2_FT_DIR)]"
  "dir_good (fs_disk fresh_fs 21)"
proof -
  note good = dir_good_cong [OF new_dir_good(2) [of 1 1 "\<lambda>_. 0"] fresh_block]
  show "dir_good (fs_disk fresh_fs 21)" using good(1) by simp
  have "i_block root_inode ! 0 = 21" by (simp add: root_inode_def)
  then show "names fresh_fs 1 = [[0x2E] \<mapsto> (1, EXT2_FT_DIR), [0x2E, 0x2E] \<mapsto> (1, EXT2_FT_DIR)]"
    using good(3) root_dir dir_map_new [of 1 1] by (simp add: names_def fresh_root1)
qed

lemma fresh_good: "node_good fresh_fs root_inode"
proof -
  have "freeable fresh_fs [21]" using fresh_used(1) [of 21] by (simp add: freeable_def reserved_def)
  then show ?thesis
    using root_dir fresh_names(2) fresh_root_ids by (simp add: node_good_def) (simp add: root_inode_def)
qed

lemma fresh_volume: "volume_ok fresh_fs"
proof (rule volume_okI)
  show "fs_ok fresh_fs" by (rule fresh_ok)
qed (use fresh_good fresh_names(1) fresh_root1 root_dir in \<open>auto simp: fresh_live type_of_def split: if_splits\<close>)

text \<open>A request in the root directory of a fresh file system.\<close>

definition sample_request :: "u8 list \<Rightarrow> u8 list \<Rightarrow> request" where
  "sample_request nm data = \<lparr>buf = blit (\<lambda>_. 0) 0 data, req_name = name_mem nm, name_len = of_nat (length nm),
     parent_inode = 1, buffer_size = of_nat (length data), is_directory = False\<rparr>"

lemma fresh_room0: "10 \<le> card (room (inode_to_bgd 2) fresh_fs)"
proof -
  have "{22..<32} \<subseteq> room (inode_to_bgd 2) fresh_fs"
  proof
    fix n :: nat
    assume "n \<in> {22..<32}"
    then have n: "22 \<le> n" "n < 32" by simp_all
    then have "\<not> block_used fresh_fs n" using fresh_used(1) [of n] by simp
    then show "n \<in> room (inode_to_bgd 2) fresh_fs" using n by (simp add: room_def unat_inode_to_bgd)
  qed
  from card_mono [OF _ this] show ?thesis by (simp add: room_def)
qed

lemma new_dir_block_end: "512 \<le> a \<Longrightarrow> new_dir_block (\<lambda>_. 0) i p a = 0"
  by (simp add: new_dir_block_def Let_def put_directory_entry_def blit_outside record_len_1 get_entry_name_def)

lemma fresh_slot:
  assumes "bytes_of nm (unat len) \<notin> {[0x2E], [0x2E, 0x2E]}"
  shows "find_slot fresh_fs root_inode nm len (get_entry_record_len len) 0 1 = Some (21, new_dir_block (\<lambda>_. 0) 1 1, Hole 12)"
proof -
  have "overlay (fs_disk fresh_fs 21) (uninit fresh_fs) = new_dir_block (\<lambda>_. 0) 1 1"
  proof (rule ext)
    fix a
    show "overlay (fs_disk fresh_fs 21) (uninit fresh_fs) a = new_dir_block (\<lambda>_. 0) 1 1 a"
      using fresh_block [of a] fresh_caches(3) by (cases "a < 512") (simp_all add: new_dir_block_end)
  qed
  then show ?thesis
    using scan_slot_new [OF assms, of "\<lambda>_. 0" 1 1] by (simp add: One_nat_def root_inode_def read_block_eq)
qed

lemma can_write_fresh:
  assumes "nm \<notin> {[0x2E], [0x2E, 0x2E]}" "length nm < 256" "0 < length data" "length data \<le> 4096"
  shows "can_write fresh_fs (sample_request nm data) 2"
proof -
  have find: "List.find (\<lambda>n. \<not> inode_used fresh_fs n) [1..<897] = Some 2"
    by (rule find_upt_eq) (auto simp: fresh_used)
  have n: "bytes_of (name_mem nm) (unat (of_nat (length nm) :: u8)) = nm" using bytes_name_mem [OF assms(2)] .
  have size: "unat (of_nat (length data) :: u32) = length data" using assms(4) by (simp add: unat_of_nat_u32)
  then have b: "blocks_of (of_nat (length data)) \<le> 8" using assms(4) by (simp add: blocks_of_def)
  have need: "blocks_needed (sample_request nm data) \<le> 8"
    using b by (simp add: blocks_needed_def sample_request_def)
  have no: "names fresh_fs 1 nm = None" using assms(1) by (simp add: fresh_names)
  have "find_slot fresh_fs root_inode (name_mem nm) (of_nat (length nm)) (get_entry_record_len (of_nat (length nm))) 0 1 =
      Some (21, new_dir_block (\<lambda>_. 0) 1 1, Hole 12)"
    using fresh_slot [of "name_mem nm" "of_nat (length nm)"] assms(1) n by auto
  then show ?thesis
    using assms(1) need fresh_room0 b no find
    by (simp add: can_write_def sample_request_def n fresh_live fresh_root1 root_dir)
qed

lemma ok_pair_mono: "ok m (\<lambda>(a, b). P a b) \<Longrightarrow> (\<And>a b. P a b \<Longrightarrow> Q a b) \<Longrightarrow> ok m (\<lambda>(a, b). Q a b)"
  by (auto simp: ok_def)

lemmas can_write_sample = can_write_fresh [of "[0x61]" "[1, 2, 3]"]

lemma sample_fields:
  "parent_inode (sample_request nm data) = 1" "is_directory (sample_request nm data) = False"
  "length data < 2 ^ 32 \<Longrightarrow> unat (buffer_size (sample_request nm data)) = length data"
  "length data < 2 ^ 32 \<Longrightarrow> map (buf (sample_request nm data)) [0..<length data] = data"
  "length nm < 256 \<Longrightarrow> bytes_of (req_name (sample_request nm data)) (unat (name_len (sample_request nm data))) = nm"
  by (simp_all add: sample_request_def unat_of_nat_u32 bytes_name_mem) (intro nth_equalityI; simp add: blit_def)

lemma fresh_root_live: "1 \<in> live fresh_fs" "is_dir_mode (node_of fresh_fs 1)"
  by (simp_all add: fresh_live fresh_root1 root_dir)

subsection \<open>Writing and deleting on the view\<close>

text \<open>C1: \<open>write\<close> with room for the name, an inode and the blocks succeeds: it adds one file or
  directory to the view under the first free inode number, binds the name to it in the parent, and
  changes nothing else.\<close>

theorem write_refines:
  assumes "volume_ok st" "can_write st req n"
  shows "ok (ext2_write st (Some req)) (\<lambda>(code, st'). code = 0 \<and> volume_ok st' \<and> n \<notin> live st \<and>
    view st' = (view st)(n \<mapsto> new_contents req (of_nat n),
      unat (parent_inode req) \<mapsto> Folder ((names st (unat (parent_inode req)))(bytes_of (req_name req) (unat (name_len req)) \<mapsto> (of_nat n, new_type req)))))"
  by (rule ok_mono [OF write_adds [OF assms]]) (simp split: prod.splits)

lemma write_refines_witness:
  "volume_ok fresh_fs \<and> can_write fresh_fs (sample_request [0x61] [1, 2, 3]) 2 \<and>
   ok (ext2_write fresh_fs (Some (sample_request [0x61] [1, 2, 3]))) (\<lambda>(code, st'). code = 0 \<and> volume_ok st' \<and> 2 \<notin> live fresh_fs \<and>
     view st' = (view fresh_fs)(2 \<mapsto> new_contents (sample_request [0x61] [1, 2, 3]) (of_nat 2),
       unat (parent_inode (sample_request [0x61] [1, 2, 3])) \<mapsto>
         Folder ((names fresh_fs (unat (parent_inode (sample_request [0x61] [1, 2, 3]))))
           (bytes_of (req_name (sample_request [0x61] [1, 2, 3])) (unat (name_len (sample_request [0x61] [1, 2, 3]))) \<mapsto>
             (of_nat 2, new_type (sample_request [0x61] [1, 2, 3]))))))"
  using write_refines [OF fresh_volume can_write_sample] fresh_volume can_write_sample by simp

text \<open>C2: Deleting a file takes it and its name out of the view and changes nothing else.\<close>

theorem delete_refines:
  assumes "volume_ok st" "unat (parent_inode req) \<in> live st" "is_dir_mode (node_of st (unat (parent_inode req)))"
    "names st (unat (parent_inode req)) (bytes_of (req_name req) (unat (name_len req))) = Some (ino, EXT2_FT_REG_FILE)" "\<not> is_directory req"
  shows "ok (ext2_delete st req) (\<lambda>(code, st'). code = 0 \<and> volume_ok st' \<and>
    view st' = (view st)(unat ino := None, unat (parent_inode req) \<mapsto>
      Folder ((names st (unat (parent_inode req)))(bytes_of (req_name req) (unat (name_len req)) := None))))"
  by (rule ok_mono [OF delete_removes [OF assms]]) (simp split: prod.splits)

lemma view_someD: "view st n = Some c \<Longrightarrow> n \<in> live st"
  by (simp add: view_def split: if_splits)

lemma written_names:
  assumes "volume_ok st" "can_write st req n"
    "view st' = (view st)(n \<mapsto> new_contents req (of_nat n),
      unat (parent_inode req) \<mapsto> Folder ((names st (unat (parent_inode req)))(bytes_of (req_name req) (unat (name_len req)) \<mapsto> (of_nat n, new_type req))))"
    "n \<notin> live st"
  shows "unat (parent_inode req) \<in> live st'" "is_dir_mode (node_of st' (unat (parent_inode req)))" "n \<in> live st'"
    "n \<noteq> unat (parent_inode req)" "unat (of_nat n :: u32) = n"
    "names st' (unat (parent_inode req)) = (names st (unat (parent_inode req)))(bytes_of (req_name req) (unat (name_len req)) \<mapsto> (of_nat n, new_type req))"
    "view st' n = Some (new_contents req (of_nat n))"
proof -
  let ?p = "unat (parent_inode req)"
  from assms(2) have p: "?p \<in> live st" by (simp add: can_write_def Let_def)
  with assms(4) show np: "n \<noteq> ?p" by blast
  show live: "?p \<in> live st'" "n \<in> live st'"
    using assms(3) np by (auto intro: view_someD)
  from liveD [OF live(2)] show "unat (of_nat n :: u32) = n" by (simp add: unat_of_nat_block)
  have "view st' ?p = Some (Folder ((names st ?p)(bytes_of (req_name req) (unat (name_len req)) \<mapsto> (of_nat n, new_type req))))"
    using assms(3) by simp
  then show "is_dir_mode (node_of st' ?p)" "names st' ?p = (names st ?p)(bytes_of (req_name req) (unat (name_len req)) \<mapsto> (of_nat n, new_type req))"
    using view_live [OF live(1)] contents_names'(1) by simp_all
  show "view st' n = Some (new_contents req (of_nat n))" using assms(3) np by simp
qed


text \<open>C3: A file that was written is read back from the new state byte for byte, and a buffer that is too
  small is refused.\<close>

theorem write_then_read:
  assumes "volume_ok st" "can_write st req n" "\<not> (buffer_size req = 0 \<and> is_directory req)"
  shows "ok (ext2_write st (Some req)) (\<lambda>(code, st'). ext2_read st' (req\<lparr>buf := out, buffer_size := len\<rparr>) =
    Some (if unat len < unat (buffer_size req) then (-1, out) else (0, blit out 0 (map (buf req) [0..<unat (buffer_size req)]))))"
proof (rule ok_pair_mono [OF write_adds [OF assms(1,2)]], elim conjE exE)
  fix st'
  assume n: "n \<notin> live st" and v: "volume_ok st'" and view: "view st' = (view st)(n \<mapsto> new_contents req (of_nat n),
      unat (parent_inode req) \<mapsto> Folder ((names st (unat (parent_inode req)))(bytes_of (req_name req) (unat (name_len req)) \<mapsto> (of_nat n, new_type req))))"
  note w = written_names [OF assms(1,2) view n]
  show "ext2_read st' (req\<lparr>buf := out, buffer_size := len\<rparr>) =
    Some (if unat len < unat (buffer_size req) then (-1, out) else (0, blit out 0 (map (buf req) [0..<unat (buffer_size req)])))"
    using read_view [OF v, of "req\<lparr>buf := out, buffer_size := len\<rparr>"] w view assms(3) by (simp add: new_contents_def)
qed

lemma write_then_read_witness:
  "ok (ext2_write fresh_fs (Some (sample_request [0x61] [1, 2, 3]))) (\<lambda>(code, st').
     ext2_read st' ((sample_request [0x61] [1, 2, 3])\<lparr>buf := (\<lambda>_. 0), buffer_size := 512\<rparr>) = Some (0, blit (\<lambda>_. 0) 0 [1, 2, 3]))"
  using write_then_read [OF fresh_volume can_write_sample, of 512 "\<lambda>_. 0"] sample_fields(3,4) [of "[1, 2, 3]" "[0x61]"]
  by (simp add: sample_fields)

text \<open>C4: Writing a file and deleting it gives back the files and directories, the free blocks and the
  free inodes.\<close>

theorem write_then_delete:
  assumes "volume_ok st" "can_write st req n" "\<not> is_directory req"
  shows "ok (ext2_write st (Some req)) (\<lambda>(code, st1). ok (ext2_delete st1 req) (\<lambda>(code, st2). code = 0 \<and> view st2 = view st \<and>
    (\<forall>b<2048. block_used st2 b = block_used st b) \<and> live st2 = live st))"
proof (rule ok_pair_mono [OF write_adds [OF assms(1,2)]], elim conjE exE)
  let ?p = "unat (parent_inode req)" let ?nm = "bytes_of (req_name req) (unat (name_len req))"
  fix st1 S blk d
  assume n: "n \<notin> live st" and v: "volume_ok st1" and add: "added st st1 n S blk d (new_contents req (of_nat n))"
    and view: "view st1 = (view st)(n \<mapsto> new_contents req (of_nat n), ?p \<mapsto> Folder ((names st ?p)(?nm \<mapsto> (of_nat n, new_type req))))"
  note w = written_names [OF assms(1,2) view n]
  have p: "?p \<in> live st" "is_dir_mode (node_of st ?p)" "names st ?p ?nm = None" using assms(2) by (simp_all add: can_write_def Let_def)
  have nm: "names st1 ?p ?nm = Some (of_nat n, EXT2_FT_REG_FILE)" using w(6) assms(3) by (simp add: new_type_def)
  have old: "view st ?p = Some (Folder (names st ?p))" using view_live [OF p(1)] contents_names p(2) by simp
  have S: "unat ` set (used_ids st1 (node_of st1 n)) = S" "\<forall>b\<in>S. \<not> block_used st b"
    "\<forall>b<2048. block_used st1 b \<longleftrightarrow> block_used st b \<or> b \<in> S" using add by (auto simp: added_def)
  show "ok (ext2_delete st1 req) (\<lambda>(code, st2). code = 0 \<and> view st2 = view st \<and> (\<forall>b<2048. block_used st2 b = block_used st b) \<and> live st2 = live st)"
  proof (rule ok_pair_mono [OF delete_removes [OF v w(1,2) nm assms(3)]], elim conjE exE, intro conjI)
    fix st2 blk2 d2
    assume rem: "removed st1 st2 (unat (of_nat n :: u32)) blk2 d2"
      and view2: "view st2 = (view st1)(unat (of_nat n :: u32) := None, ?p \<mapsto> Folder ((names st1 ?p)(?nm := None)))"
    show same: "view st2 = view st"
      using old p(3) w(4,5,6) n by (auto simp: view2 view fun_upd_idem view_def [of st n])
    have "live s = {x. view s x \<noteq> None}" for s by (auto simp: view_def split: if_splits)
    then show "live st2 = live st" using same by simp
    show "\<forall>b<2048. block_used st2 b = block_used st b" using rem w(5) S by (auto simp: removed_def)
  qed
qed

lemma write_then_delete_witness:
  "ok (ext2_write fresh_fs (Some (sample_request [0x61] [1, 2, 3]))) (\<lambda>(code, st1).
     ok (ext2_delete st1 (sample_request [0x61] [1, 2, 3])) (\<lambda>(code, st2). code = 0 \<and> view st2 = view fresh_fs \<and>
       (\<forall>b<2048. block_used st2 b = block_used fresh_fs b) \<and> live st2 = live fresh_fs))"
  using write_then_delete [OF fresh_volume can_write_sample] by (simp add: sample_fields)


text \<open>C5: What \<open>read\<close> answers on a well-formed volume is decided by the view alone, on every branch: the
  parent is no directory (-1), the name is not bound (2), it names a directory (1), the buffer is too
  small (-1, nothing copied), or the file's bytes.\<close>

theorem read_every_branch:
  assumes "volume_ok st" "unat (parent_inode req) \<in> live st"
  shows "ext2_read st req = Some (case view st (unat (parent_inode req)) of
      Some (Folder d) \<Rightarrow>
        (case d (bytes_of (req_name req) (unat (name_len req))) of
           None \<Rightarrow> (2, buf req)
         | Some (ino, ft) \<Rightarrow>
             (case view st (unat ino) of
                Some (File data) \<Rightarrow> if unat (buffer_size req) < length data then (-1, buf req) else (0, blit (buf req) 0 data)
              | _ \<Rightarrow> (1, buf req)))
    | _ \<Rightarrow> (-1, buf req))"
  by (rule read_view [OF assms])

lemma fresh_view: "view fresh_fs 1 = Some (Folder [[0x2E] \<mapsto> (1, EXT2_FT_DIR), [0x2E, 0x2E] \<mapsto> (1, EXT2_FT_DIR)])"
  using fresh_names(1) fresh_root_live by (simp add: view_def contents_names)

lemma read_every_branch_witness:
  "ext2_read fresh_fs (sample_request [0x61] [1]) = Some (2, buf (sample_request [0x61] [1])) \<and>
   ext2_read fresh_fs (sample_request [0x2E] [1]) = Some (1, buf (sample_request [0x2E] [1]))"
  using read_every_branch [OF fresh_volume, of "sample_request [0x61] [1]"] read_every_branch [OF fresh_volume, of "sample_request [0x2E] [1]"]
  by (simp add: sample_fields fresh_live fresh_view)

text \<open>C6: \<open>read_directory\<close> gives a block whose chain of entries holds exactly the names of the directory, and
  writes nothing behind its 512 bytes; a smaller buffer is refused.\<close>

theorem directory_every_branch:
  assumes "volume_ok st" "unat (parent_inode req) \<in> live st"
  shows "ok (read_directory st (Some req)) (\<lambda>(code, out). case view st (unat (parent_inode req)) of
      Some (Folder d) \<Rightarrow>
        (case d (bytes_of (req_name req) (unat (name_len req))) of
           None \<Rightarrow> code = 2 \<and> out = buf req
         | Some (ino, ft) \<Rightarrow>
             (case view st (unat ino) of
                Some (Folder d') \<Rightarrow> if buffer_size req < 512 then code = -1 \<and> out = buf req
                  else code = 0 \<and> dir_good out \<and> dir_map out = d' \<and> (\<forall>a\<ge>512. out a = buf req a)
              | _ \<Rightarrow> code = 1 \<and> out = buf req))
    | _ \<Rightarrow> code = -1 \<and> out = buf req)"
  by (rule read_directory_view [OF assms])

lemma directory_every_branch_witness:
  "ok (read_directory fresh_fs (Some ((sample_request [0x2E] [1])\<lparr>buffer_size := 512\<rparr>))) (\<lambda>(code, out). code = 0 \<and> dir_good out \<and>
     dir_map out = [[0x2E] \<mapsto> (1, EXT2_FT_DIR), [0x2E, 0x2E] \<mapsto> (1, EXT2_FT_DIR)])"
proof -
  have "bytes_of (req_name (sample_request [0x2E] [1])) (unat (name_len (sample_request [0x2E] [1]))) = [0x2E]"
    by (simp add: sample_fields)
  moreover have "unat (parent_inode ((sample_request [0x2E] [1])\<lparr>buffer_size := 512\<rparr>)) \<in> live fresh_fs"
    by (simp add: sample_fields(1) fresh_live)
  ultimately show ?thesis
    by (intro ok_pair_mono [OF directory_every_branch [OF fresh_volume]]) (simp_all add: sample_fields(1) fresh_view)
qed

subsection \<open>Histories\<close>

text \<open>The interface a client of a store relies on: a call that is in order returns the code and has the
  effect that the specification gives on the abstraction of the store, and keeps the invariant.\<close>

inductive history :: "('s \<Rightarrow> 'c \<Rightarrow> bool) \<Rightarrow> ('s \<Rightarrow> 'c \<Rightarrow> (int \<times> 's) option) \<Rightarrow> 's \<Rightarrow> 'c list \<Rightarrow> int list \<Rightarrow> 's \<Rightarrow> bool"
  for ready step s where
  start: "history ready step s [] [] s"
| call: "history ready step s calls codes s1 \<Longrightarrow> ready s1 c \<Longrightarrow> step s1 c = Some (code, s2) \<Longrightarrow>
    history ready step s (calls @ [c]) (codes @ [code]) s2"

text \<open>The same calls on the abstraction: the codes and the last state.\<close>

fun spec_run :: "('c \<Rightarrow> 'a \<Rightarrow> int \<times> 'a) \<Rightarrow> 'c list \<Rightarrow> 'a \<Rightarrow> int list \<times> 'a" where
  "spec_run spec [] a = ([], a)"
| "spec_run spec (c # cs) a =
     (let (code, a) = spec c a; (codes, a) = spec_run spec cs a in (code # codes, a))"

lemma spec_run_snoc:
  "spec_run spec (cs @ [c]) a = (let (codes, a) = spec_run spec cs a; (code, a) = spec c a in (codes @ [code], a))"
  by (induction cs arbitrary: a) (simp_all add: case_prod_beta Let_def)

locale refined_store =
  fixes inv :: "'s \<Rightarrow> bool" and ready :: "'s \<Rightarrow> 'c \<Rightarrow> bool" and step :: "'s \<Rightarrow> 'c \<Rightarrow> (int \<times> 's) option"
    and abs :: "'s \<Rightarrow> 'a" and spec :: "'c \<Rightarrow> 'a \<Rightarrow> int \<times> 'a"
  assumes refines: "inv s \<Longrightarrow> ready s c \<Longrightarrow> ok (step s c) (\<lambda>(code, s'). inv s' \<and> (code, abs s') = spec c (abs s))"
begin

lemma history_ends:
  assumes "inv s" "history ready step s calls codes s'"
  shows "inv s' \<and> (codes, abs s') = spec_run spec calls (abs s)"
  using assms(2)
proof induction
  case start
  then show ?case using assms(1) by simp
next
  case (call calls codes s1 c code s2)
  then have "inv s2 \<and> (code, abs s2) = spec c (abs s1)" using okD [OF refines [of s1 c] call(3)] by simp
  moreover have "spec_run spec calls (abs s) = (codes, abs s1)" using call by simp
  ultimately show ?case by (simp add: spec_run_snoc case_prod_beta Let_def) (metis prod.sel)
qed

lemma history_goes_on:
  assumes "inv s" "history ready step s calls codes s'" "ready s' c"
  shows "\<exists>code s2. history ready step s (calls @ [c]) (codes @ [code]) s2"
proof -
  have "inv s'" using history_ends [OF assms(1,2)] by simp
  from refines [OF this assms(3)] obtain code s2 where "step s' c = Some (code, s2)" by (auto simp: ok_def)
  with assms(2,3) have "history ready step s (calls @ [c]) (codes @ [code]) s2" by (rule history.call)
  then show ?thesis by blast
qed

end

text \<open>The calls of \<open>write\<close> and of \<open>delete\<close> on files. What they do to the view, refusals included: a parent
  that is no directory, a name that is taken or not there, a name of a directory.\<close>

datatype volume_call = Put request nat | Remove request

definition call_name :: "request \<Rightarrow> u8 list" where
  "call_name req = bytes_of (req_name req) (unat (name_len req))"

fun view_call :: "volume_call \<Rightarrow> (nat \<Rightarrow> contents option) \<Rightarrow> int \<times> (nat \<Rightarrow> contents option)" where
  "view_call (Put req n) v =
     (case v (unat (parent_inode req)) of
        Some (Folder d) \<Rightarrow>
          if d (call_name req) \<noteq> None then (1, v)
          else (0, v(n \<mapsto> new_contents req (of_nat n), unat (parent_inode req) \<mapsto> Folder (d(call_name req \<mapsto> (of_nat n, new_type req)))))
      | _ \<Rightarrow> (2, v))"
| "view_call (Remove req) v =
     (case v (unat (parent_inode req)) of
        Some (Folder d) \<Rightarrow>
          (case d (call_name req) of
             None \<Rightarrow> (1, v)
           | Some (ino, ft) \<Rightarrow>
               if ft = EXT2_FT_REG_FILE then (0, v(unat ino := None, unat (parent_inode req) \<mapsto> Folder (d(call_name req := None))))
               else (1, v))
      | _ \<Rightarrow> (-1, v))"

text \<open>A call is in order when its parent is an inode in use, and: it deletes no directory as such, and if it
  adds a name to a directory then the scan meets the name before a hole, or there is room for it.\<close>

fun call_ready :: "fs \<Rightarrow> volume_call \<Rightarrow> bool" where
  "call_ready st (Put req n) \<longleftrightarrow> unat (parent_inode req) \<in> live st \<and>
     (is_dir_mode (node_of st (unat (parent_inode req))) \<longrightarrow> can_write st req n \<or>
        (\<exists>blk dbuf. find_slot st (node_of st (unat (parent_inode req))) (req_name req) (name_len req)
           (get_entry_record_len (name_len req)) 0 1 = Some (blk, dbuf, Duplicate)))"
| "call_ready st (Remove req) \<longleftrightarrow> unat (parent_inode req) \<in> live st \<and> \<not> is_directory req"

fun do_call :: "fs \<Rightarrow> volume_call \<Rightarrow> (int \<times> fs) option" where
  "do_call st (Put req n) = ext2_write st (Some req)"
| "do_call st (Remove req) = ext2_delete st req"

lemma view_parent:
  "p \<in> live st \<Longrightarrow> view st p = Some (if is_dir_mode (node_of st p) then Folder (names st p)
    else File (map (file_byte st (node_of st p)) [0..<unat (i_size (node_of st p))]))"
  by (simp add: view_live contents_names)

lemma put_refines:
  assumes "volume_ok st" "call_ready st (Put req n)"
  shows "ok (ext2_write st (Some req)) (\<lambda>(code, st'). volume_ok st' \<and> (code, view st') = view_call (Put req n) (view st))"
proof -
  have p: "unat (parent_inode req) \<in> live st" using assms(2) by simp
  note refused = write_refused [OF assms(1) p]
  show ?thesis
  proof (cases "is_dir_mode (node_of st (unat (parent_inode req)))")
    case False
    then show ?thesis using refused(1) assms(1) view_parent [OF p] by simp
  next
    case True
    show ?thesis
    proof (cases "can_write st req n")
      case w: True
      then have none: "names st (unat (parent_inode req)) (call_name req) = None" by (simp add: can_write_def call_name_def Let_def)
      show ?thesis
        by (rule ok_pair_mono [OF write_adds [OF assms(1) w]])
          (use True none view_parent [OF p] in \<open>simp add: call_name_def\<close>)
    next
      case False
      with assms(2) True obtain blk dbuf where f: "find_slot st (node_of st (unat (parent_inode req))) (req_name req) (name_len req)
           (get_entry_record_len (name_len req)) 0 1 = Some (blk, dbuf, Duplicate)" by auto
      from refused(2) [OF True this] show ?thesis using assms(1) True view_parent [OF p] by (auto simp: call_name_def)
    qed
  qed
qed

lemma remove_refines:
  assumes "volume_ok st" "call_ready st (Remove req)"
  shows "ok (ext2_delete st req) (\<lambda>(code, st'). volume_ok st' \<and> (code, view st') = view_call (Remove req) (view st))"
proof -
  have p: "unat (parent_inode req) \<in> live st" and plain: "\<not> is_directory req" using assms(2) by simp_all
  note refused = delete_refused [OF assms(1) p]
  show ?thesis
  proof (cases "is_dir_mode (node_of st (unat (parent_inode req)))")
    case False
    then show ?thesis using refused(1) assms(1) view_parent [OF p] by simp
  next
    case d: True
    show ?thesis
    proof (cases "names st (unat (parent_inode req)) (call_name req)")
      case None
      then show ?thesis using refused(2) [OF d] assms(1) view_parent [OF p] d by (simp add: call_name_def)
    next
      case (Some b)
      then obtain ino ft where b: "names st (unat (parent_inode req)) (call_name req) = Some (ino, ft)" by (cases b) simp
      show ?thesis
      proof (cases "ft = EXT2_FT_REG_FILE")
        case True
        note n = b [unfolded True call_name_def]
        show ?thesis
          by (rule ok_pair_mono [OF delete_removes [OF assms(1) p d n plain]])
            (use b True d view_parent [OF p] in \<open>simp add: call_name_def\<close>)
      next
        case False
        from refused(3) [OF d b [unfolded call_name_def] False plain] show ?thesis
          using assms(1) view_parent [OF p] d b False by simp
      qed
    qed
  qed
qed

interpretation volume: refined_store volume_ok call_ready do_call view view_call
proof
  fix st c
  assume "volume_ok st" "call_ready st c"
  then show "ok (do_call st c) (\<lambda>(code, st'). volume_ok st' \<and> (code, view st') = view_call c (view st))"
    using put_refines remove_refines by (cases c) auto
qed

text \<open>C7: Histories of requests, served and refused in any order: the codes and the view at the end are those
  that the same requests give on the view alone, and the volume stays well-formed. The requests are
  writes and deletions of files through an inode in use. Left out are the cases in which the code loses
  data or runs out of room, which other results are about: a name that has to go behind the end
  of its directory, a taken name behind the first hole, more blocks or inodes than are free, and
  the removal of directories. A request that is in order never gets stuck.\<close>

theorem history_simulates:
  assumes "volume_ok st" "history call_ready do_call st calls codes st'"
  shows "volume_ok st' \<and> (codes, view st') = spec_run view_call calls (view st) \<and>
    (\<forall>c. call_ready st' c \<longrightarrow> (\<exists>code st2. history call_ready do_call st (calls @ [c]) (codes @ [code]) st2))"
  using volume.history_ends [OF assms] volume.history_goes_on [OF assms] by blast


subsection \<open>A directory that has to grow\<close>

lemma stale_table:
  assumes "0 < p" "p \<le> 896" "0 < n" "n \<le> 896" "n \<noteq> p" "node_block n = node_block p" "length (i_block nd) = 15"
    and "\<And>a. a < 512 \<Longrightarrow> fs_disk st' (of_nat (node_block p)) a = put_inode (overlay (fs_disk st (of_nat (node_block p))) r) (node_slot p) nd a"
  shows "node_of st' n = node_of st n"
proof -
  let ?m = "fs_disk st (of_nat (node_block p))"
  have "put_inode (overlay ?m r) (node_slot p) nd a = put_inode ?m (node_slot p) nd a" if "a < 512" for a
    using that by (simp add: put_inode_def blit_def)
  with assms(8) have "node_of st' n = node_of (put_node st p nd) n"
    unfolding node_of_def put_node_def assms(6) by (intro inode_at_cong) (use assms(2) in \<open>simp_all add: node_block_bounds\<close>)
  with node_of_put_node [OF assms(1-4,7)] assms(5) show ?thesis by simp
qed

text \<open>C35: When no block of the directory has a hole for the entry, \<open>write\<close> adds a block to the directory and
  reports success; but when the new inode lies in the same block of the inode table as the directory,
  that block is written back as it was read before the new inode was stored, so the inode is lost: the
  name leads to whatever the inode table held before.\<close>

theorem extension_loses_inode:
  assumes fs: "fs_ok st" and p: "0 < unat (parent_inode req)" "unat (parent_inode req) \<le> 896" "is_dir_mode (node_of st (unat (parent_inode req)))"
      "unat (i_blocks (node_of st (unat (parent_inode req)))) < 15"
    and slot: "find_slot st (node_of st (unat (parent_inode req))) (req_name req) (name_len req) (get_entry_record_len (name_len req)) 0
      (unat (i_blocks (node_of st (unat (parent_inode req))))) = Some (blk, dbuf, NoSlot)"
    and free: "List.find (\<lambda>n. \<not> inode_used st n) [1..<897] = Some n" and same: "node_block n = node_block (unat (parent_inode req))" "n \<noteq> unat (parent_inode req)"
    and need: "blocks_of (buffer_size req) \<le> 140" "0 < card (room (inode_to_bgd (parent_inode req)) st)"
      "blocks_needed req < card (room (inode_to_bgd (of_nat n)) st)"
  shows "ok (ext2_write st (Some req)) (\<lambda>(code, st'). code = 0 \<and> node_of st' n = node_of st n)"
proof -
  let ?p = "unat (parent_inode req)" let ?nd = "node_of st ?p" let ?ino = "of_nat n :: u32"
  have n: "0 < n" "n \<le> 896" "\<not> inode_used st n" using find_upt_SomeD [OF free] by auto
  have ino: "?ino \<noteq> 0" "unat ?ino = n" using n of_nat_u32_eq_iff [of n 0] by (simp_all add: unat_of_nat_block)
  obtain k where k: "alloc_block st (inode_to_bgd (parent_inode req)) = Some (Some (of_nat k), take_block st k)" "k < 2048" "\<not> block_used st k"
    using room_alloc [OF fs need(2)] by blast
  note g = grows_take_block [OF fs k(2,3)]
  note ok1 = grows_ok(1) [OF g]
  have used1: "inode_used (take_block st k) m = inode_used st m" "node_of (take_block st k) m = node_of st m" if "0 < m" "m \<le> 896" for m
    using leaves_grows [OF fs g] that by (auto simp: leaves_def)
  have free1: "List.find (\<lambda>n. \<not> inode_used (take_block st k) n) [1..<897] = Some n"
    using find_cong [of "[1..<897]" "[1..<897]" "\<lambda>n. \<not> inode_used (take_block st k) n" "\<lambda>n. \<not> inode_used st n"] free used1 by auto
  let ?st2 = "synced (take_inode (take_block st k) n)"
  have n1: "\<not> inode_used (take_block st k) n" using n used1 by blast
  note take = leaves_take_inode [OF ok1 n(1,2) n1]
  have ok2: "fs_ok ?st2" using take(1) by (simp add: leaves_def)
  have room: "room pref st - {k} \<subseteq> room pref ?st2" for pref
    using take(4) used_take_block [OF k(2)] by (auto simp: room_def)
  have "card (room (inode_to_bgd ?ino) st) - 1 \<le> card (room (inode_to_bgd ?ino) st - {k})" by (simp add: card_Diff_singleton_if)
  also have "\<dots> \<le> card (room (inode_to_bgd ?ino) ?st2)" by (intro card_mono room) (simp add: room_def)
  finally have need2: "blocks_needed req \<le> card (room (inode_to_bgd ?ino) ?st2)" using need(3) by simp
  have pn: "parent_inode req \<noteq> 0" using p(1) by auto
  let ?pb = "put_inode (overlay (fs_disk st (of_nat (node_block ?p))) (uninit st)) (inode_slot (parent_inode req))
    (?nd\<lparr>i_block := (i_block ?nd)[unat (i_blocks ?nd) := of_nat k], i_blocks := i_blocks ?nd + 1, i_size := i_size ?nd + of_nat BLOCK_SIZE\<rparr>)"
  have last: "node_of (synced (st4\<lparr>fs_disk := (fs_disk st4)(of_nat (node_block ?p) := overlay ?pb x)\<rparr>)) n = node_of st n" for st4 :: fs and x
    by (rule stale_table [OF p(1,2) n(1,2) same(2,1)]) (use p(2) in \<open>simp_all add: inode_slot_eq node_block_bounds\<close>)
  have "unat (of_nat k :: u32) < 8192" using k(2) by (simp add: unat_of_nat_block)
  then have "ok (make_node ?st2 req (buffer_size req = 0 \<and> is_directory req) ?ino) (\<lambda>st3.
      ok (write_block st3 (D st3) (of_nat k)) (\<lambda>st4. ok (write_block st4 ?pb (of_nat (node_block ?p)))
        (\<lambda>st5. ok (sync_metadata st5) (\<lambda>st'. node_of st' n = node_of st n))))" for D
    using p(2) last by (intro ok_mono [OF make_node_spec [OF ok2 n(1,2) pn need(1) need2]])
      (simp add: sync_metadata_synced node_block_bounds unat_of_nat_block)
  moreover have "load_inode st (parent_inode req) = Some (overlay (fs_disk st (of_nat (node_block ?p))) (uninit st), ?nd)"
    by (rule load_inode_eq [OF fs p(2)])
  moreover have "inode_block st (parent_inode req) = Some (of_nat (node_block ?p))" by (rule inode_block_eq [OF fs p(2)])
  moreover have "alloc_newblock st (inode_to_bgd (parent_inode req)) = Some (of_nat k, take_block st k)"
    using alloc_newblock_eq [OF fs] k(1) by simp
  moreover have "allocate_node (take_block st k) = Some (?ino, ?st2)" using allocate_node_eq [OF ok1] free1 by simp
  ultimately show ?thesis
    using slot p(3,4) pn ino(1) nat_block_nonzero [OF fs k(2,3)]
    by (simp add: ext2_write_def ok_do Let_def del: ok_write_block sync_metadata_eq)
qed


text \<open>The fresh file system with the block of the root directory overwritten.\<close>

definition full_fs :: fs where
  "full_fs = fresh_fs\<lparr>fs_disk := (fs_disk fresh_fs)(21 := overlay (\<lambda>_. 0) (fs_disk fresh_fs 21))\<rparr>"

lemma full_frame: "fs_ok full_fs" "node_of full_fs 1 = root_inode" "uninit full_fs = (\<lambda>_. 0)" "a < 512 \<Longrightarrow> fs_disk full_fs 21 a = 0"
  "0 < n \<Longrightarrow> n \<le> 896 \<Longrightarrow> inode_used full_fs n \<longleftrightarrow> n = 1" "n < 2048 \<Longrightarrow> block_used full_fs n = block_used fresh_fs n"
proof -
  have "ok (write_block fresh_fs (\<lambda>_. 0) (of_nat 21)) (\<lambda>st'. leaves fresh_fs st' {} {21} \<and> (\<forall>a<512. fs_disk st' (of_nat 21) a = 0) \<and>
      (\<forall>k<2048. block_used st' k = block_used fresh_fs k))"
    by (rule leaves_write [OF fresh_ok]) (simp_all add: reserved_def)
  then have *: "leaves fresh_fs full_fs {} {21}" "\<forall>a<512. fs_disk full_fs 21 a = 0" "\<forall>k<2048. block_used full_fs k = block_used fresh_fs k"
    by (simp_all add: full_fs_def)
  then show "fs_ok full_fs" "node_of full_fs 1 = root_inode" "uninit full_fs = (\<lambda>_. 0)" "a < 512 \<Longrightarrow> fs_disk full_fs 21 a = 0"
    "n < 2048 \<Longrightarrow> block_used full_fs n = block_used fresh_fs n"
    by (simp_all add: leaves_def fresh_root1 fresh_caches)
  show "0 < n \<Longrightarrow> n \<le> 896 \<Longrightarrow> inode_used full_fs n \<longleftrightarrow> n = 1"
    using *(1) fresh_used(2) [of n] by (simp add: leaves_def)
qed

lemma full_slot: "len \<noteq> 0 \<Longrightarrow> find_slot full_fs root_inode nm len need 0 1 = Some (0, \<lambda>_. 0, NoSlot)"
proof -
  assume len: "len \<noteq> 0"
  have z: "overlay (fs_disk full_fs 21) (uninit full_fs) = (\<lambda>_. 0)"
    using full_frame(3,4) by (auto simp: overlay_def)
  have e: "get_directory_entry (\<lambda>_. 0) 0 = \<lparr>de_inode = 0, rec_len = 0, de_name_len = 0, file_type = 0\<rparr>"
    by (simp add: get_directory_entry_def get32_def get16_def of4_def of2_def)
  have "scan_slot (\<lambda>_. 0) nm len need 0 = NoSlot" using len by (simp add: scan_slot.simps [of _ _ _ _ 0] entry_is_def e)
  then show ?thesis using z full_frame(3) by (simp add: One_nat_def root_inode_def read_block_eq)
qed

lemma extension_loses_inode_witness:
  "ok (ext2_write full_fs (Some (sample_request [0x61] [1, 2, 3]))) (\<lambda>(code, st'). code = 0 \<and> node_of st' 2 = node_of full_fs 2)"
proof -
  let ?r = "sample_request [0x61] [1, 2, 3]"
  have free: "List.find (\<lambda>n. \<not> inode_used full_fs n) [1..<897] = Some 2"
    by (rule find_upt_eq) (auto simp: full_frame)
  have room: "room pref full_fs = room pref fresh_fs" for pref using full_frame(6) by (auto simp: room_def)
  have need: "blocks_needed ?r < card (room (inode_to_bgd 2) full_fs)" "blocks_of (buffer_size ?r) \<le> 140"
    using fresh_room0 by (simp_all add: room blocks_needed_def sample_request_def blocks_of_def)
  have "inode_to_bgd 1 = inode_to_bgd 2" by (simp add: inode_to_bgd_def)
  then have need2: "0 < card (room (inode_to_bgd (parent_inode ?r)) full_fs)" using fresh_room0 by (simp add: room sample_fields)
  have block: "node_block 2 = node_block 1" by (simp add: node_block_def)
  have nd: "is_dir_mode root_inode" "unat (i_blocks root_inode) = 1" using root_dir by (simp_all add: root_inode_def)
  have len: "name_len ?r \<noteq> 0" by (simp add: sample_request_def)
  show ?thesis
    using extension_loses_inode [OF full_frame(1) _ _ _ _ _ free _ _ need(2) need2, of 0 "\<lambda>_. 0"] need(1) full_slot [OF len] nd block
    by (simp add: sample_fields(1) full_frame(2))
qed


subsection \<open>Applications\<close>

definition written_fs :: fs where
  "written_fs = snd (the (ext2_write fresh_fs (Some (sample_request [0x61] [1, 2, 3]))))"

lemma written:
  "ext2_write fresh_fs (Some (sample_request [0x61] [1, 2, 3])) = Some (0, written_fs)" "volume_ok written_fs"
  "unat (parent_inode (sample_request [0x61] [1, 2, 3])) \<in> live written_fs"
  "is_dir_mode (node_of written_fs (unat (parent_inode (sample_request [0x61] [1, 2, 3]))))"
  "names written_fs (unat (parent_inode (sample_request [0x61] [1, 2, 3])))
     (bytes_of (req_name (sample_request [0x61] [1, 2, 3])) (unat (name_len (sample_request [0x61] [1, 2, 3])))) = Some (2, EXT2_FT_REG_FILE)"
  "view written_fs 2 = Some (File [1, 2, 3])" and written_other: "names written_fs 1 [0x62] = None"
proof -
  let ?r = "sample_request [0x61] [1, 2, 3]"
  from write_adds [OF fresh_volume can_write_sample] obtain code st' where
    run: "ext2_write fresh_fs (Some ?r) = Some (code, st')" "code = 0" "2 \<notin> live fresh_fs" "volume_ok st'" and
    view: "view st' = (view fresh_fs)(2 \<mapsto> new_contents ?r (of_nat 2), unat (parent_inode ?r) \<mapsto>
      Folder ((names fresh_fs (unat (parent_inode ?r)))(bytes_of (req_name ?r) (unat (name_len ?r)) \<mapsto> (of_nat 2, new_type ?r))))"
    by (auto simp: ok_def)
  then have st': "st' = written_fs" by (simp add: written_fs_def)
  show "ext2_write fresh_fs (Some ?r) = Some (0, written_fs)" "volume_ok written_fs" using run st' by simp_all
  note w = written_names [OF fresh_volume can_write_sample view run(3), unfolded st']
  from w show "unat (parent_inode ?r) \<in> live written_fs" "is_dir_mode (node_of written_fs (unat (parent_inode ?r)))" by simp_all
  show "names written_fs (unat (parent_inode ?r)) (bytes_of (req_name ?r) (unat (name_len ?r))) = Some (2, EXT2_FT_REG_FILE)"
    using w(6) by (simp add: new_type_def sample_fields(2))
  show "names written_fs 1 [0x62] = None"
    using w(6) fresh_names(1) by (simp add: sample_fields)
  show "view written_fs 2 = Some (File [1, 2, 3])"
    using view st' by (simp add: new_contents_def sample_fields) (simp add: sample_request_def blit_def)
qed

lemma delete_refines_witness:
  "ok (ext2_delete written_fs (sample_request [0x61] [1, 2, 3])) (\<lambda>(code, st'). code = 0 \<and> volume_ok st' \<and>
    view st' = (view written_fs)(2 := None, 1 \<mapsto> Folder ((names written_fs 1)([0x61] := None))))"
  using delete_refines [OF written(2-5)] by (simp add: sample_fields)

text \<open>A file is added, the same file again is refused, and so is the removal of one that is not there.\<close>

lemma written_duplicate:
  "ext2_delete written_fs (sample_request [0x62] []) = Some (1, written_fs)"
  by (rule delete_refused(2) [OF written(2)])
    (use written(3,4) written_other in \<open>simp_all add: sample_fields\<close>)

lemma history_simulates_witness:
  "history call_ready do_call fresh_fs [Put (sample_request [0x61] [1, 2, 3]) 2, Remove (sample_request [0x62] [])] [0, 1] written_fs \<and>
   volume_ok written_fs \<and> ([0, 1], view written_fs) =
     spec_run view_call [Put (sample_request [0x61] [1, 2, 3]) 2, Remove (sample_request [0x62] [])] (view fresh_fs)"
proof -
  let ?p = "Put (sample_request [0x61] [1, 2, 3]) 2" and ?r = "Remove (sample_request [0x62] [])"
  have "history call_ready do_call fresh_fs ([] @ [?p]) ([] @ [0]) written_fs"
    by (rule history.call [OF history.start])
      (use can_write_sample fresh_root_live in \<open>simp_all add: written(1) sample_fields\<close>)
  then have "history call_ready do_call fresh_fs (([] @ [?p]) @ [?r]) (([] @ [0]) @ [1]) written_fs"
    by (rule history.call) (use written(3) in \<open>simp_all add: written_duplicate sample_fields\<close>)
  then have h: "history call_ready do_call fresh_fs [?p, ?r] [0, 1] written_fs" by simp
  with history_simulates [OF fresh_volume h] show ?thesis by blast
qed

end
