(* ===== verification/Process_Theorems.thy ===== *)
theory Process_Theorems
  imports Process Volume_Theorems
begin

section \<open>Properties of the page manager, the processes and the scheduler\<close>

text \<open>
  The properties of \<open>memory/paging.c\<close>, \<open>process/process.c\<close> and \<open>process/scheduler.c\<close>. The states of
  the applications are the initial page manager and a kernel with two processes.
\<close>

subsection \<open>A kernel with two processes\<close>

definition user_pde :: "nat \<Rightarrow> pde" where
  "user_pde i = empty_pde\<lparr>pde_flag := user_flag, lower_address := of_nat i\<rparr>"

definition map_frame :: "paging \<Rightarrow> nat option \<Rightarrow> nat \<Rightarrow> nat \<Rightarrow> paging" where
  "map_frame s d j i = (put_entry (s\<lparr>page_frame_map := (page_frame_map s)[i := True]\<rparr>) d j (user_pde i))
     \<lparr>free_page_frame_count := free_page_frame_count s - 1\<rparr>"

definition two_pages :: paging where
  "two_pages = (map_frame (map_frame paging_init (Some 0) 0 1) (Some 1) 0 2)
     \<lparr>page_directory_used := (replicate 32 False)[0 := True, 1 := True]\<rparr>"

definition pcb_of :: "nat \<Rightarrow> process_state \<Rightarrow> pcb" where
  "pcb_of i s = zero_pcb\<lparr>pcb_pid := of_nat i, process_state := s,
     pcb_context := (pcb_context zero_pcb)\<lparr>eip := of_nat i, page_directory_virtual_addr := PD i\<rparr>\<rparr>"

definition two_procs :: kernel where
  "two_procs = (process_init two_pages blank_fs)
     \<lparr>process_list := (replicate 16 zero_pcb)[0 := pcb_of 0 RUNNING, 1 := pcb_of 1 READY],
      is_process_active := (replicate 16 False)[0 := True, 1 := True], active_process_count := 2, current_running_pid := 0\<rparr>"

lemma paging_ok_used: "paging_ok s \<Longrightarrow> length u = 32 \<Longrightarrow> paging_ok (s\<lparr>page_directory_used := u\<rparr>)"
  by (rule paging_ok_hide) (auto simp: paging_ok_iff shaped_def user_maps_places)

lemma two_pages_ok: "paging_ok two_pages"
proof -
  have low: "lower_address (user_pde i) = of_nat i" for i by (simp add: user_pde_def)
  have one: "paging_ok (map_frame paging_init (Some 0) 0 1)"
    unfolding map_frame_def by (rule paging_ok_map [OF paging_init_ok _ _ _ _ low]) (simp_all add: paging_init_def places_def)
  have "\<not> page_frame_map (map_frame paging_init (Some 0) 0 1) ! 2"
    by (simp add: map_frame_def paging_init_def put_entry_def)
  then have "paging_ok (map_frame (map_frame paging_init (Some 0) 0 1) (Some 1) 0 2)"
    unfolding map_frame_def [of _ "Some 1"] by (intro paging_ok_map [OF one _ _ _ _ low]) (simp_all add: places_def)
  then show ?thesis unfolding two_pages_def by (rule paging_ok_used) simp
qed

lemma two_procs_ok: "proc_ok two_procs"
proof -
  have pl: "process_list two_procs ! i = (if i = 0 then pcb_of 0 RUNNING else if i = 1 then pcb_of 1 READY else zero_pcb)"
    and act: "is_process_active two_procs ! i \<longleftrightarrow> i < 2" if "i < 16" for i
    using that by (auto simp: two_procs_def nth_list_upd)
  have "{i. i < 16 \<and> is_process_active two_procs ! i} = {0, 1}" using act by (auto simp: less_2_cases_iff)
  then have count: "unat (active_process_count two_procs) = card {i. i < 16 \<and> is_process_active two_procs ! i}"
    by (simp add: two_procs_def)
  have dir: "dir_ptr two_procs i = (if i < 2 then PD i else PD_NULL)" if "i < 16" for i
    using pl [OF that] by (auto simp: dir_ptr_def pcb_of_def less_2_cases_iff)
  have used: "page_directory_used (pages two_procs) ! i \<longleftrightarrow> i < 2" if "i < 32" for i
    using that by (auto simp: two_procs_def process_init_def two_pages_def nth_list_upd)
  have base: "length (process_list two_procs) = 16" "length (is_process_active two_procs) = 16" "paging_ok (pages two_procs)"
    using two_pages_ok by (simp_all add: two_procs_def process_init_def)
  have zero: "\<forall>i<16. \<not> is_process_active two_procs ! i \<longrightarrow> process_list two_procs ! i = zero_pcb"
    using pl act by auto
  have run: "\<forall>i<16. process_state (process_list two_procs ! i) = RUNNING \<longrightarrow> current_running_pid two_procs = of_nat i"
    using pl by (auto simp: pcb_of_def) (simp add: two_procs_def)
  show ?thesis unfolding proc_ok_def using base count zero run dir used by auto
qed

lemma two_procs_fields [simp]:
  "length (process_list two_procs) = 16" "length (is_process_active two_procs) = 16" "current_running_pid two_procs = 0"
  "is_process_active two_procs ! 0" "is_process_active two_procs ! Suc 0"
  "process_list two_procs ! 0 = pcb_of 0 RUNNING" "process_list two_procs ! Suc 0 = pcb_of 1 READY"
  by (simp_all add: two_procs_def)

lemma two_procs_dirs [simp]: "dir_ptr two_procs 0 = PD 0" "dir_ptr two_procs (Suc 0) = PD 1"
  by (simp_all add: dir_ptr_def pcb_of_def)

subsection \<open>Isolation\<close>

lemma page_index_eq: "page_index va = unat (drop_bit 22 va)"
proof -
  have "drop_bit 22 va AND 0x3FF = take_bit 10 (drop_bit 22 va)" by (rule and_3FF)
  also have "\<dots> = drop_bit 22 va" by (rule bit_word_eqI) (auto simp: bit_simps dest: bit_imp_le_length)
  finally show ?thesis by (simp add: page_index_def)
qed

lemma frame_of_translation:
  assumes "translate dir va = Some x"
  shows "drop_bit 22 x = ucast (lower_address (dir ! page_index va))"
proof -
  have x: "x = push_bit 22 (ucast (lower_address (dir ! page_index va))) OR (va AND 0x3FFFFF)"
    using assms by (auto simp: translate_def Let_def split: if_splits)
  have m: "va AND 0x3FFFFF = take_bit 22 va"
    using take_bit_eq_mask [of 22 va] mask_eq_exp_minus_1 [of 22, where 'a = u32] by simp
  show ?thesis
    unfolding x m by (rule bit_word_eqI) (auto simp: bit_simps dest: bit_imp_le_length)
qed

lemma ucast_10_32_inj: "(ucast (x :: 10 word) :: u32) = ucast y \<Longrightarrow> x = y"
proof -
  assume "(ucast x :: u32) = ucast y"
  then have "unat (ucast x :: u32) = unat (ucast y :: u32)" by simp
  moreover have "unat (ucast z :: u32) = unat z" for z :: "10 word"
    using unsigned_less [of z, where 'a = nat] by (simp add: unsigned_ucast_eq take_bit_nat_eq_self)
  ultimately show ?thesis by (simp add: word_unat_eq_iff)
qed

text \<open>Two places of the user directories never reach one frame.\<close>

lemma frames_apart:
  assumes "paging_ok s" "a < 32" "b < 32" "a \<noteq> b \<or> page_index va \<noteq> page_index vb"
    and "user_entry (page_directory_list s ! a ! page_index va)" "user_entry (page_directory_list s ! b ! page_index vb)"
    and "translate (page_directory_list s ! a) va = Some x" "translate (page_directory_list s ! b) vb = Some y"
  shows "drop_bit 22 x \<noteq> drop_bit 22 y"
proof
  assume "drop_bit 22 x = drop_bit 22 y"
  then have "lower_address (entry_at s (Some a, page_index va)) = lower_address (entry_at s (Some b, page_index vb))"
    using frame_of_translation [OF assms(7)] frame_of_translation [OF assms(8)] ucast_10_32_inj by (simp add: entry_at_def)
  moreover have "(Some a, page_index va) \<in> user_maps s" "(Some b, page_index vb) \<in> user_maps s"
    using assms(2,3,5,6) by (simp_all add: user_maps_def)
  moreover have "inj_on (\<lambda>p. lower_address (entry_at s p)) (user_maps s)" using assms(1) by (simp add: paging_ok_iff)
  ultimately have "(Some a, page_index va) = (Some b, page_index vb)" by (blast dest: inj_onD)
  with assms(4) show False by simp
qed

text \<open>
  C12: Address spaces stay apart. Whatever processes are created, killed, ended, interrupted and
  resumed, in any order, two pages given to user mode never reach the same physical frame: neither
  pages of two different processes, nor two different pages of one process.
\<close>

theorem processes_isolated:
  assumes "proc_ok k0" "reachable k0 k" "i < 16" "j < 16" "i \<noteq> j \<or> page_index va \<noteq> page_index vb"
    and "dir_ptr k i = PD a" "dir_ptr k j = PD b"
    and "user_entry (page_directory_list (pages k) ! a ! page_index va)" "user_entry (page_directory_list (pages k) ! b ! page_index vb)"
    and "translate (page_directory_list (pages k) ! a) va = Some x" "translate (page_directory_list (pages k) ! b) vb = Some y"
  shows "drop_bit 22 x \<noteq> drop_bit 22 y"
proof -
  note o = proc_okD [OF reachable_ok [OF assms(2,1)]]
  have "a \<noteq> b \<or> page_index va \<noteq> page_index vb" using o(8) [OF assms(3,4)] assms(5-7) by auto
  moreover have "a < 32" "b < 32" using o(7) [OF assms(3)] o(7) [OF assms(4)] assms(6,7) by auto
  ultimately show ?thesis using frames_apart [OF o(4)] assms(8-11) by blast
qed

lemma two_pages_entries: "page_directory_list (pages two_procs) ! 0 ! 0 = user_pde 1" "page_directory_list (pages two_procs) ! Suc 0 ! 0 = user_pde 2"
  by (simp_all add: two_procs_def process_init_def two_pages_def map_frame_def put_entry_def paging_init_def)

lemma user_pde_entry [simp]: "user_entry (user_pde i)"
  by (simp add: user_pde_def user_entry_def user_flag_def kernel_flag_def no_flag_def empty_pde_def)

lemma translate_user_pde: "dir ! page_index va = user_pde i \<Longrightarrow>
  translate dir va = Some (push_bit 22 (ucast (of_nat i :: 10 word)) OR (va AND 0x3FFFFF))"
  by (simp add: translate_def user_pde_def user_flag_def kernel_flag_def no_flag_def empty_pde_def)

theorem processes_isolated_witness:
  "\<exists>x y. translate (page_directory_list (pages two_procs) ! 0) 0x10 = Some x \<and>
     translate (page_directory_list (pages two_procs) ! 1) 0x10 = Some y \<and> drop_bit 22 x \<noteq> drop_bit 22 y"
proof -
  have idx: "page_index 0x10 = 0" by (simp add: page_index_def)
  have t: "translate (page_directory_list (pages two_procs) ! 0) 0x10 = Some 0x400010"
    "translate (page_directory_list (pages two_procs) ! 1) 0x10 = Some 0x800010"
    by (simp_all add: idx two_pages_entries translate_user_pde [where i = 1] translate_user_pde [where i = 2])
  have "drop_bit 22 (0x400010 :: u32) \<noteq> drop_bit 22 0x800010"
    by (rule processes_isolated [OF two_procs_ok reachable.start _ _ _ _ _ _ _ t, where i = 0 and j = 1])
      (simp_all add: idx two_pages_entries)
  with t show ?thesis by blast
qed

subsection \<open>Round robin\<close>

lemma sint_small: "unat (c :: u32) = n \<Longrightarrow> n < 16 \<Longrightarrow> sint c = int n"
proof -
  assume *: "unat c = n" "n < 16"
  have "sint (of_nat n :: u32) = int n" using *(2) by (simp add: signed_of_nat signed_take_bit_int_eq_self)
  then show ?thesis using *(1) by auto
qed

text \<open>From a state whose current number is a slot, the switch succeeds whenever some process is active.\<close>

lemma switch_total:
  assumes "proc_ok k" "unat (current_running_pid k) < 16" "p < 16" "is_process_active k ! p"
  obtains n k' where "scheduler_switch_to_next_process k = Some (pcb_context (process_list k ! n), k')"
    "n < 16" "is_process_active k ! n" "current_running_pid k' = of_nat n" "cr3 k' = dir_ptr k n"
    "is_process_active k' = is_process_active k" "process_state (process_list k' ! n) = RUNNING"
    "\<And>j. j < 16 \<Longrightarrow> pcb_context (process_list k' ! j) = pcb_context (process_list k ! j)"
    "cyc (int (unat (current_running_pid k))) n \<le> cyc (int (unat (current_running_pid k))) p"
    "\<And>m. m < 16 \<Longrightarrow> cyc (int (unat (current_running_pid k))) m < cyc (int (unat (current_running_pid k))) n \<Longrightarrow>
      \<not> is_process_active k ! m"
proof -
  note o = proc_okD [OF assms(1)]
  obtain c where cur: "unat (current_running_pid k) = c" "c < 16" using assms(2) by blast
  note c = sint_small [OF cur]
  have "- 1 \<le> int c" by simp
  from next_active_finds [OF o(2) assms(3,4) this] obtain n where
    n: "next_active (is_process_active k) (int c) = Some n" "n < 16" "is_process_active k ! n" "cyc (int c) n \<le> cyc (int c) p"
    "\<forall>m<16. cyc (int c) m < cyc (int c) n \<longrightarrow> \<not> is_process_active k ! m" by blast
  let ?pl = "(process_list k)[n := (process_list k ! n)\<lparr>process_state := RUNNING\<rparr>]"
  let ?pl' = "if n = c then ?pl else ?pl[c := (?pl ! c)\<lparr>process_state := READY\<rparr>]"
  let ?k = "k\<lparr>process_list := ?pl', current_running_pid := of_nat n, cr3 := dir_ptr k n\<rparr>"
  have eq: "scheduler_switch_to_next_process k = Some (pcb_context (process_list k ! n), ?k)"
    using n(1,2) o(1) cur(2)
    by (simp add: scheduler_switch_to_next_process_def c Let_def set_state_def dir_ptr_def)
  have run: "process_state (process_list ?k ! n) = RUNNING" using o(1) n(2) cur(2) by (simp add: nth_list_upd)
  have ctx: "pcb_context (process_list ?k ! j) = pcb_context (process_list k ! j)" if "j < 16" for j
    using o(1) n(2) cur(2) that by (simp add: nth_list_upd)
  show thesis unfolding cur(1) by (rule that [OF eq n(2,3) _ _ _ run ctx]) (use n(4,5) in \<open>auto simp: cur(1)\<close>)
qed

text \<open>
  C13: The scheduler is a round robin. When slot \<open>c\<close> is the current one, the switch resumes the
  first active process that follows \<open>c\<close> in the cyclic order of the slots (\<open>c\<close> itself is the last
  candidate): its saved context, under its own page directory, and it becomes the current one.
\<close>

theorem switch_round_robin:
  assumes "proc_ok k" "unat (current_running_pid k) < 16" "p < 16" "is_process_active k ! p"
  shows "\<exists>n k'. scheduler_switch_to_next_process k = Some (pcb_context (process_list k ! n), k') \<and>
    n < 16 \<and> is_process_active k ! n \<and>
    (\<forall>m<16. (int m - int (unat (current_running_pid k)) - 1) mod 16 < (int n - int (unat (current_running_pid k)) - 1) mod 16 \<longrightarrow>
       \<not> is_process_active k ! m) \<and>
    current_running_pid k' = of_nat n \<and> process_state (process_list k' ! n) = RUNNING \<and> cr3 k' = dir_ptr k n \<and>
    (\<forall>j<16. pcb_context (process_list k' ! j) = pcb_context (process_list k ! j)) \<and> proc_ok k'"
proof -
  from switch_total [OF assms] obtain n k' where
    s: "scheduler_switch_to_next_process k = Some (pcb_context (process_list k ! n), k')" "n < 16" "is_process_active k ! n"
    "current_running_pid k' = of_nat n" "cr3 k' = dir_ptr k n" "process_state (process_list k' ! n) = RUNNING"
    "\<And>j. j < 16 \<Longrightarrow> pcb_context (process_list k' ! j) = pcb_context (process_list k ! j)"
    "\<And>m. m < 16 \<Longrightarrow> cyc (int (unat (current_running_pid k))) m < cyc (int (unat (current_running_pid k))) n \<Longrightarrow>
      \<not> is_process_active k ! m" by metis
  have "nat x < nat y" if "x < y" "0 \<le> x" for x y :: int using that by simp
  then have "\<not> is_process_active k ! m"
    if "m < 16" "(int m - int (unat (current_running_pid k)) - 1) mod 16 < (int n - int (unat (current_running_pid k)) - 1) mod 16" for m
    using s(8) [OF that(1)] that(2) by (simp add: cyc_def)
  with s(1-7) switch_keeps [OF assms(1) s(1)] show ?thesis by blast
qed

theorem switch_round_robin_witness:
  "\<exists>n k'. scheduler_switch_to_next_process two_procs = Some (pcb_context (process_list two_procs ! n), k') \<and> n = 1 \<and> cr3 k' = PD 1"
proof -
  obtain n k' where s: "scheduler_switch_to_next_process two_procs = Some (pcb_context (process_list two_procs ! n), k')" "n < 16"
    "\<forall>m<16. (int m - 0 - 1) mod 16 < (int n - 0 - 1) mod 16 \<longrightarrow> \<not> is_process_active two_procs ! m" "cr3 k' = dir_ptr two_procs n"
    using switch_round_robin [OF two_procs_ok, of 0] by auto
  have "n \<noteq> 0" using s(3) [rule_format, of 1] by (intro notI) simp
  moreover from this s(2) have "\<not> 1 < n" using s(3) [rule_format, of 1] by (intro notI) (simp add: mod_pos_pos_trivial)
  ultimately have "n = 1" by linarith
  with s show ?thesis by auto
qed

subsection \<open>Time slices\<close>

definition saved :: "task_context \<Rightarrow> task_context \<Rightarrow> task_context" where
  "saved old regs = old\<lparr>cpu := cpu regs, eip := eip regs, eflags := eflags regs\<rparr>"

text \<open>Timer interrupts with the given interrupted registers: who is resumed, and with what.\<close>

fun time_slices :: "kernel \<Rightarrow> task_context list \<Rightarrow> (nat \<times> task_context) list option" where
  "time_slices k [] = Some []"
| "time_slices k (regs # rs) = do {
     (ctx, k') \<leftarrow> timer_interrupt k regs;
     tr \<leftarrow> time_slices k' rs;
     Some ((unat (current_running_pid k'), ctx) # tr)
   }"

text \<open>The state between two interrupts: process \<open>r\<close> runs.\<close>

definition runs :: "kernel \<Rightarrow> nat \<Rightarrow> bool" where
  "runs k r \<longleftrightarrow> proc_ok k \<and> r < 16 \<and> is_process_active k ! r \<and> process_state (process_list k ! r) = RUNNING"

lemma runs_pointer:
  assumes "runs k r"
  shows "process_get_current_running_pcb_pointer k = Some r" "unat (current_running_pid k) = r" "r < 16"
proof -
  note o = proc_okD [of k] and r = assms [unfolded runs_def]
  have only: "j = r" if "j < 16" "process_state (process_list k ! j) = RUNNING" for j
  proof -
    have "(of_nat j :: u32) = of_nat r" using o(6) [of j] o(6) [of r] r that by simp
    then show ?thesis using of_nat_u32_eq_iff [of j r] r that by simp
  qed
  have earlier: "\<not> (is_process_active k ! j \<and> process_state (process_list k ! j) = RUNNING)" if "j < r" for j
    using only [of j] that r by auto
  show "process_get_current_running_pcb_pointer k = Some r"
    unfolding process_get_current_running_pcb_pointer_def find_Some_iff
    using r earlier by (intro exI [of _ r]) auto
  show "unat (current_running_pid k) = r" using o(6) [of r] r by (simp add: unat_of_nat_u32)
  show "r < 16" using r by simp
qed

lemma timer_slice:
  assumes "runs k r"
  obtains n k' where "timer_interrupt k regs = Some (pcb_context (process_list k' ! n), k')" "runs k' n"
    "is_process_active k' = is_process_active k"
    "\<And>j. j < 16 \<Longrightarrow> pcb_context (process_list k' ! j) =
      (if j = r then saved (pcb_context (process_list k ! r)) regs else pcb_context (process_list k ! j))"
    "\<And>p. p < 16 \<Longrightarrow> is_process_active k ! p \<Longrightarrow> cyc (int r) n \<le> cyc (int r) p"
proof -
  note r = assms [unfolded runs_def] and ptr = runs_pointer [OF assms]
  let ?s = "scheduler_save_context_to_current_running_pcb k regs"
  let ?k = "?s\<lparr>pit_ticks := pit_ticks ?s + 1\<rparr>"
  have ok: "proc_ok ?k" using save_keeps r by simp
  have cur: "unat (current_running_pid ?k) = r" using ptr(2) by simp
  have act: "is_process_active ?k = is_process_active k" by simp
  have len: "length (process_list k) = 16" using proc_okD(1) r by blast
  have old: "pcb_context (process_list ?k ! j) =
      (if j = r then saved (pcb_context (process_list k ! r)) regs else pcb_context (process_list k ! j))" if "j < 16" for j
    using len that
    by (simp add: scheduler_save_context_to_current_running_pcb_def ptr(1) Let_def nth_list_upd saved_def)
  have "unat (current_running_pid ?k) < 16" "is_process_active ?k ! r" using cur r by simp_all
  from switch_total [OF ok this(1) _ this(2)] r obtain n k' where
    s: "scheduler_switch_to_next_process ?k = Some (pcb_context (process_list ?k ! n), k')" "n < 16" "is_process_active ?k ! n"
    "is_process_active k' = is_process_active ?k" "process_state (process_list k' ! n) = RUNNING"
    "\<And>j. j < 16 \<Longrightarrow> pcb_context (process_list k' ! j) = pcb_context (process_list ?k ! j)"
    "\<And>m. m < 16 \<Longrightarrow> cyc (int r) m < cyc (int r) n \<Longrightarrow> \<not> is_process_active ?k ! m"
    unfolding cur by metis
  have eq: "timer_interrupt k regs = Some (pcb_context (process_list k' ! n), k')"
    using s(1,2,6) by (simp add: timer_interrupt_def Let_def)
  have run: "runs k' n" unfolding runs_def using switch_keeps [OF ok s(1)] s(2-5) by simp
  have first: "cyc (int r) n \<le> cyc (int r) p" if "p < 16" "is_process_active k ! p" for p
    using s(7) [OF that(1)] that(2) act by (metis not_le)
  show thesis by (rule that [OF eq run]) (use s(4,6) old act first in auto)
qed

lemma next_is_last: "c < 16 \<Longrightarrow> n < 16 \<Longrightarrow> p < 16 \<Longrightarrow> cyc (int c) n \<le> cyc (int c) p \<Longrightarrow> n \<noteq> p \<Longrightarrow> cyc (int n) p < cyc (int c) p"
proof -
  assume *: "c < 16" "n < 16" "p < 16" "cyc (int c) n \<le> cyc (int c) p" "n \<noteq> p"
  have m: "(int a - int b - 1) mod 16 = (if b < a then int a - int b - 1 else int a - int b + 15)" if "a < 16" "b < 16" for a b :: nat
  proof (cases "b < a")
    case True
    then show ?thesis using that by (simp add: mod_pos_pos_trivial)
  next
    case False
    have "(int a - int b - 1) mod 16 = ((int a - int b - 1) + 16) mod 16" by (simp only: mod_add_self2)
    also have "\<dots> = int a - int b - 1 + 16" using that False by (intro mod_pos_pos_trivial) simp_all
    finally show ?thesis using False by simp
  qed
  show ?thesis using * by (auto simp: cyc_def m split: if_splits)
qed

lemma slices_run: "runs k r \<Longrightarrow> \<exists>tr. time_slices k rs = Some tr \<and> length tr = length rs"
proof (induction rs arbitrary: k r)
  case (Cons regs rs)
  from timer_slice [OF Cons.prems, of regs] obtain n k' where
    "timer_interrupt k regs = Some (pcb_context (process_list k' ! n), k')" "runs k' n" by metis
  with Cons.IH [of k' n] show ?case by auto
qed simp

lemma slices_reach:
  assumes "runs k r" "p < 16" "is_process_active k ! p" "cyc (int r) p < length rs"
  shows "\<exists>tr. time_slices k rs = Some tr \<and> p \<in> fst ` set tr"
  using assms
proof (induction rs arbitrary: k r)
  case (Cons regs rs)
  from timer_slice [OF Cons.prems(1), of regs] obtain n k' where
    s: "timer_interrupt k regs = Some (pcb_context (process_list k' ! n), k')" "runs k' n"
    "is_process_active k' = is_process_active k"
    "\<And>p. p < 16 \<Longrightarrow> is_process_active k ! p \<Longrightarrow> cyc (int r) n \<le> cyc (int r) p" by metis
  show ?case
  proof (cases "n = p")
    case True
    from slices_run [OF s(2), of rs] obtain tr where "time_slices k' rs = Some tr" by blast
    with s(1) runs_pointer(2) [OF s(2)] True show ?thesis by auto
  next
    case False
    have "cyc (int n) p < cyc (int r) p"
      using next_is_last [OF runs_pointer(3) [OF Cons.prems(1)] runs_pointer(3) [OF s(2)] Cons.prems(2) s(4) False] Cons.prems(2,3)
      by blast
    with Cons.prems(4) have "cyc (int n) p < length rs" by simp
    with Cons.IH [OF s(2) Cons.prems(2)] Cons.prems(3) s(1,3) show ?thesis by fastforce
  qed
qed simp

lemma runs_two: "runs two_procs 0"
  using two_procs_ok by (simp add: runs_def) (simp add: pcb_of_def)

text \<open>
  C14: No active process starves. While a process runs, every timer interrupt switches without a
  fault, and within any sixteen of them each active process is resumed at least once, whatever
  the interrupted registers are.
\<close>

theorem no_starvation:
  assumes "proc_ok k" "r < 16" "is_process_active k ! r" "process_state (process_list k ! r) = RUNNING"
    and "p < 16" "is_process_active k ! p" "length rs = PROCESS_COUNT_MAX"
  shows "\<exists>tr. time_slices k rs = Some tr \<and> p \<in> fst ` set tr"
proof -
  have "cyc (int r) p < 16" by (simp add: cyc_def nat_less_iff)
  with slices_reach [of k r p rs] assms show ?thesis by (simp add: runs_def)
qed

theorem no_starvation_witness: "\<exists>tr. time_slices two_procs (replicate 16 (pcb_context zero_pcb)) = Some tr \<and> 1 \<in> fst ` set tr"
  using no_starvation [OF two_procs_ok, of 0 1 "replicate 16 (pcb_context zero_pcb)"] by (simp add: pcb_of_def)

lemma slices_wait:
  assumes "runs k r" "time_slices k rs = Some tr" "b < length tr" "fst (tr ! b) = i" "i < 16"
    and "\<And>c. c < b \<Longrightarrow> fst (tr ! c) \<noteq> i"
  shows "snd (tr ! b) = (if r = i then saved (pcb_context (process_list k ! i)) (rs ! 0) else pcb_context (process_list k ! i))"
  using assms
proof (induction rs arbitrary: k r tr b)
  case (Cons regs rs)
  from timer_slice [OF Cons.prems(1), of regs] obtain n k' where
    s: "timer_interrupt k regs = Some (pcb_context (process_list k' ! n), k')" "runs k' n"
    "\<And>j. j < 16 \<Longrightarrow> pcb_context (process_list k' ! j) =
      (if j = r then saved (pcb_context (process_list k ! r)) regs else pcb_context (process_list k ! j))" by metis
  then obtain tr' where tr: "time_slices k' rs = Some tr'" "tr = (n, pcb_context (process_list k' ! n)) # tr'"
    using Cons.prems(2) runs_pointer(2) [OF s(2)] by (auto simp: bind_eq_Some_conv)
  show ?case
  proof (cases b)
    case 0
    then show ?thesis using tr(2) Cons.prems(4,5) s(3) by simp
  next
    case (Suc b')
    have "n \<noteq> i" using Cons.prems(6) [of 0] Suc tr(2) by simp
    moreover have "fst (tr' ! c) \<noteq> i" if "c < b'" for c
      using Cons.prems(6) [of "Suc c"] that Suc tr(2) by simp
    ultimately have "snd (tr' ! b') = pcb_context (process_list k' ! i)"
      using Cons.IH [OF s(2) tr(1), of b'] Cons.prems(3-5) Suc tr(2) by simp
    then show ?thesis using Suc tr(2) Cons.prems(5) s(3) by simp
  qed
qed simp

text \<open>When a process is interrupted in slice \<open>a\<close>, and slice \<open>b\<close> is its next one, the context handed over
  is the interrupted one.\<close>

lemma slices_resume:
  assumes "proc_ok k" "r < 16" "is_process_active k ! r" "process_state (process_list k ! r) = RUNNING"
    and "time_slices k rs = Some tr" "a < b" "b < length rs" "fst (tr ! a) = fst (tr ! b)"
    and "\<forall>c. a < c \<and> c < b \<longrightarrow> fst (tr ! c) \<noteq> fst (tr ! a)"
  shows "snd (tr ! b) = (rs ! Suc a)\<lparr>page_directory_virtual_addr := page_directory_virtual_addr (snd (tr ! a))\<rparr>"
proof -
  have "runs k r" using assms(1-4) by (simp add: runs_def)
  from this assms(5-9) show ?thesis
  proof (induction rs arbitrary: k r tr a b)
    case (Cons regs rs)
    from timer_slice [OF Cons.prems(1), of regs] obtain n k' where
      s: "timer_interrupt k regs = Some (pcb_context (process_list k' ! n), k')" "runs k' n" by metis
    then obtain tr' where tr: "time_slices k' rs = Some tr'" "tr = (n, pcb_context (process_list k' ! n)) # tr'"
      using Cons.prems(2) runs_pointer(2) [OF s(2)] by (auto simp: bind_eq_Some_conv)
    from slices_run [OF s(2), of rs] tr(1) have len: "length tr' = length rs" by simp
    obtain b' where b: "b = Suc b'" using Cons.prems(3) by (cases b) auto
    show ?case
    proof (cases a)
      case 0
      have "fst (tr' ! c) \<noteq> n" if "c < b'" for c
        using Cons.prems(6) [rule_format, of "Suc c"] that by (simp add: 0 b tr(2))
      moreover have "fst (tr' ! b') = n" using Cons.prems(5) by (simp add: 0 b tr(2))
      moreover have "b' < length tr'" using Cons.prems(4) len by (simp add: b)
      ultimately have "snd (tr' ! b') = saved (pcb_context (process_list k' ! n)) (rs ! 0)"
        using slices_wait [OF s(2) tr(1)] runs_pointer(3) [OF s(2)] by simp
      then show ?thesis using 0 b tr(2) by (simp add: saved_def)
    next
      case (Suc a')
      have "\<forall>c. a' < c \<and> c < b' \<longrightarrow> fst (tr' ! c) \<noteq> fst (tr' ! a')"
        using Cons.prems(6) tr(2) by (metis Suc Suc_less_eq b nth_Cons_Suc)
      then show ?thesis using Cons.IH [OF s(2) tr(1), of a' b'] Cons.prems(3-5) Suc b tr(2) by simp
    qed
  qed simp
qed

text \<open>
  C15: Preemption is transparent but for one register. When a process resumed in slice \<open>a\<close> is interrupted
  with the registers \<open>rs ! (a + 1)\<close>, and slice \<open>b\<close> is the next one given to it, then the assembly loads
  its instruction pointer, its flags and all its registers as they were, under the page directory it
  had, except that EAX gets the value of EDX: its own is lost.
\<close>

theorem resumed_where_interrupted:
  assumes "proc_ok k" "r < 16" "is_process_active k ! r" "process_state (process_list k ! r) = RUNNING"
    and "time_slices k rs = Some tr" "a < b" "b < length rs" "fst (tr ! a) = fst (tr ! b)"
    and "\<forall>c. a < c \<and> c < b \<longrightarrow> fst (tr ! c) \<noteq> fst (tr ! a)"
  shows "ld_eip (process_context_switch (snd (tr ! b))) = eip (rs ! Suc a) \<and>
    ld_eflags (process_context_switch (snd (tr ! b))) = eflags (rs ! Suc a) \<and>
    ld_cpu (process_context_switch (snd (tr ! b))) = (cpu (rs ! Suc a))\<lparr>reg_eax := reg_edx (cpu (rs ! Suc a))\<rparr> \<and>
    page_directory_virtual_addr (snd (tr ! b)) = page_directory_virtual_addr (snd (tr ! a))"
  using slices_resume [OF assms] by (simp add: context_loaded)

lemma two_slice:
  assumes "runs k r" "r < 2" "is_process_active k = is_process_active two_procs"
  obtains ctx k' where "timer_interrupt k regs = Some (ctx, k')" "runs k' (1 - r)" "is_process_active k' = is_process_active two_procs"
proof -
  from timer_slice [OF assms(1), of regs] obtain n k' where
    s: "timer_interrupt k regs = Some (pcb_context (process_list k' ! n), k')" "runs k' n"
    "is_process_active k' = is_process_active k"
    "\<And>p. p < 16 \<Longrightarrow> is_process_active k ! p \<Longrightarrow> cyc (int r) n \<le> cyc (int r) p" by metis
  have "n < 16" "is_process_active two_procs ! n" using s(2,3) assms(3) by (simp_all add: runs_def)
  then have "n < 2" by (auto simp: two_procs_def nth_list_upd split: if_splits)
  moreover have "cyc (int r) n \<le> cyc (int r) (1 - r)" using s(4) [of "1 - r"] assms(2,3) by (auto simp: less_2_cases_iff)
  ultimately have "n = 1 - r" using assms(2) by (auto simp: less_2_cases_iff cyc_def)
  with s assms(3) that show thesis by simp
qed

theorem resumed_where_interrupted_witness:
  "\<exists>tr. time_slices two_procs (map (\<lambda>i. pcb_context (pcb_of i READY)) [5, 6, 7]) = Some tr \<and>
     ld_eip (process_context_switch (snd (tr ! 2))) = 6"
proof -
  let ?c = "\<lambda>i. pcb_context (pcb_of i READY)"
  obtain c1 k1 where 1: "timer_interrupt two_procs (?c 5) = Some (c1, k1)" "runs k1 1" "is_process_active k1 = is_process_active two_procs"
    using two_slice [OF runs_two, of "?c 5"] by auto
  obtain c2 k2 where 2: "timer_interrupt k1 (?c 6) = Some (c2, k2)" "runs k2 0" "is_process_active k2 = is_process_active two_procs"
    using two_slice [OF 1(2) _ 1(3), of "?c 6"] by auto
  obtain c3 k3 where 3: "timer_interrupt k2 (?c 7) = Some (c3, k3)" "runs k3 1" "is_process_active k3 = is_process_active two_procs"
    using two_slice [OF 2(2) _ 2(3), of "?c 7"] by auto
  let ?tr = "[(1 :: nat, c1), (0, c2), (1, c3)]"
  have tr: "time_slices two_procs (map ?c [5, 6, 7]) = Some ?tr"
    using 1 2 3 runs_pointer(2) [OF 1(2)] runs_pointer(2) [OF 2(2)] runs_pointer(2) [OF 3(2)] by simp
  have mid: "\<forall>c. 0 < c \<and> c < 2 \<longrightarrow> fst (?tr ! c) \<noteq> fst (?tr ! 0)"
    by (auto simp: less_2_cases_iff)
  have "ld_eip (process_context_switch (snd (?tr ! 2))) = eip (map ?c [5, 6, 7] ! Suc 0)"
    by (rule conjunct1 [OF resumed_where_interrupted [OF two_procs_ok _ _ _ tr _ _ _ mid, of 0]]) (simp_all add: pcb_of_def)
  with tr show ?thesis by (simp add: pcb_of_def)
qed

subsection \<open>Invariant, creation and errors\<close>

lemma sint_minus_1: "sint (- 1 :: u32) = -1"
  by simp

text \<open>With an active process the first switch finds one.\<close>

lemma first_switch_total:
  assumes "proc_ok k" "current_running_pid k = -1" "p < 16" "is_process_active k ! p"
  obtains n k' where "first_switch k = Some (pcb_context (process_list k ! n), k')" "runs k' n"
proof -
  note o = proc_okD [OF assms(1)]
  from next_active_finds [OF o(2) assms(3,4), of "-1"] obtain n where
    n: "next_active (is_process_active k) (-1) = Some n" "n < 16" "is_process_active k ! n" by auto
  let ?k = "k\<lparr>process_list := (process_list k)[n := (process_list k ! n)\<lparr>process_state := RUNNING\<rparr>],
    current_running_pid := of_nat n, cr3 := dir_ptr k n\<rparr>"
  have eq: "first_switch k = Some (pcb_context (process_list k ! n), ?k)"
    using n o(1) assms(2) by (simp add: first_switch_def set_state_def dir_ptr_def Let_def)
  have "runs ?k n" unfolding runs_def using first_switch_keeps [OF assms(1) eq] n(2,3) o(1) by simp
  then show thesis by (rule that [OF eq])
qed

text \<open>
  C24: From boot on, whatever sequence of page allocations of the kernel, creations, first switch, timer
  interrupts, kills, exits, switches and changes of the file system happens, the process table and
  the page manager stay consistent: the count of processes is the number of active slots, free slots
  are zeroed, at most the current process is running, every process has a page directory of its own,
  the count of frames is the number of free ones, and no frame is mapped twice for user mode. And
  whenever some process is active a switch finds a process to resume: the first switch as long as
  there was none, the scheduler's from then on.
\<close>

theorem kernel_consistent:
  assumes "reachable (process_init paging_init st) k"
  shows "proc_ok k \<and> ((\<exists>p<16. is_process_active k ! p) \<longrightarrow>
    (if current_running_pid k = -1 then \<exists>ctx k'. first_switch k = Some (ctx, k')
     else \<exists>ctx k'. scheduler_switch_to_next_process k = Some (ctx, k')))"
proof -
  have ok: "proc_ok k" using reachable_ok [OF assms proc_init_ok [OF paging_init_ok]] .
  have pid: "pid_ok k"
    by (rule reachable_pid [OF assms proc_init_ok [OF paging_init_ok]]) (simp add: pid_ok_def process_init_def)
  have "if current_running_pid k = -1 then \<exists>ctx k'. first_switch k = Some (ctx, k')
     else \<exists>ctx k'. scheduler_switch_to_next_process k = Some (ctx, k')" if "p < 16" "is_process_active k ! p" for p
    using first_switch_total [OF ok _ that] switch_total [OF ok _ that] pid by (metis pid_ok_def)
  then show ?thesis using ok by blast
qed

text \<open>A boot: a frame for the kernel, a process from the file \<open>a\<close>, the first switch and a tick of the timer.\<close>

definition boot_request :: request where
  "boot_request = sample_request [0x61] [1, 2, 3]"

lemma boot_image:
  assumes "name = memcpy_into m 0 (req_name boot_request) 0 (unat (name_len boot_request))"
  shows "\<exists>img. ext2_read written_fs (boot_request\<lparr>req_name := name\<rparr>) = Some (0, img)"
proof -
  have f: "parent_inode boot_request = 1" "buffer_size boot_request = 3" "name_len boot_request = 1"
    by (simp_all add: boot_request_def sample_request_def)
  have "bytes_of name 1 = bytes_of (req_name boot_request) 1"
    unfolding assms f(3) by (simp add: bytes_of_def memcpy_into_def blit_def)
  also have "\<dots> = [0x61]"
    using bytes_name_mem [of "[0x61]"] by (simp add: boot_request_def sample_request_def One_nat_def)
  finally have n: "bytes_of name (unat (1 :: u8)) = [0x61]" by simp
  have live: "1 \<in> live written_fs" "is_dir_mode (node_of written_fs 1)" "names written_fs 1 [0x61] = Some (2, EXT2_FT_REG_FILE)"
    using written(3-5) by (simp_all add: sample_fields)
  then have "view written_fs 1 = Some (Folder (names written_fs 1))" by (simp add: view_live contents_names)
  then show ?thesis
    using read_view [OF written(2), of "boot_request\<lparr>req_name := name\<rparr>"] live written(6) n by (simp add: f del: One_nat_def)
qed

lemma boots:
  "\<exists>k n. reachable (process_init paging_init written_fs) k \<and> runs k n"
proof -
  let ?k0 = "process_init paging_init written_fs"
  have k0: "proc_ok ?k0" by (rule proc_init_ok [OF paging_init_ok])
  have vk: "valid_ptr PD_KERNEL" by (simp add: valid_ptr_def)
  have vk: "valid_ptr PD_KERNEL" by (simp add: valid_ptr_def)
  have "free_page_frame_count paging_init \<noteq> 0" by (simp add: paging_init_def)
  from allocate_frame_eq [OF paging_init_ok vk this, of 0] obtain i e where
    "paging_allocate_user_page_frame paging_init PD_KERNEL 0 = Some (True,
      (put_entry (paging_init\<lparr>page_frame_map := (page_frame_map paging_init)[i := True]\<rparr>) (dir_key PD_KERNEL) (page_index 0) e)
        \<lparr>free_page_frame_count := free_page_frame_count paging_init - 1\<rparr>)" .
  then obtain pg where f: "paging_allocate_user_page_frame (pages ?k0) PD_KERNEL 0 = Some (True, pg)"
    "free_page_frame_count pg = free_page_frame_count paging_init - 1" by (simp add: process_init_def)
  have "free_page_frame_count paging_init = 31" by (simp add: paging_init_def)
  with f(2) have count: "free_page_frame_count pg = 30" by simp
  have "page_directory_used paging_init = replicate 32 False" by (simp add: paging_init_def)
  with f(1) allocate_frame_spec [OF paging_init_ok vk, of 0] have used: "page_directory_used pg = replicate 32 False"
    by (auto simp: process_init_def elim!: okE)
  let ?k1 = "?k0\<lparr>pages := pg\<rparr>"
  have s1: "kstep ?k0 ?k1" by (rule kstep.frame [OF f(1)])
  have k1: "proc_ok ?k1" by (rule kstep_keeps [OF s1 k0])
  note o = proc_okD [OF k1]
  have none: "active_process_count ?k1 = 0" "active_process_count ?k1 < 16" by (simp_all add: process_init_def)
  from inactive_index [OF k1 none(2)] obtain i where i: "i < 16" "\<not> is_process_active ?k1 ! i"
    "process_list_get_inactive_index ?k1 = Some (i, ?k1\<lparr>is_process_active := (is_process_active ?k1)[i := True],
      active_process_count := active_process_count ?k1 + 1\<rparr>)" .
  have "paging_ok pg" using o(4) by simp
  moreover have "\<not> (\<forall>i<32. page_directory_used pg ! i)" using used by (auto intro!: exI [of _ 0])
  ultimately obtain d pg1 where
    1: "paging_create_new_page_directory pg = Some (PD d, pg1)" "d < 32" "paging_ok pg1"
    using create_directory_spec [of pg] by (auto elim!: okE split: if_splits)
  have vp: "valid_ptr (PD d)" using 1(2) by (simp add: valid_ptr_def)
  obtain b0 pg2 where 2: "paging_allocate_user_page_frame pg1 (PD d) 0 = Some (b0, pg2)" "paging_ok pg2"
    using allocate_frame_spec [OF 1(3) vp, of 0] by (auto elim!: okE)
  obtain b1 pg3 where 3: "paging_allocate_user_page_frame pg2 (PD d) 0xBFFFFFFC = Some (b1, pg3)"
    using allocate_frame_spec [OF 2(2) vp, of "0xBFFFFFFC"] by (auto elim!: okE)
  obtain img where r: "ext2_read written_fs (boot_request\<lparr>req_name := memcpy_into (memset (uninit written_fs) 0 0 256) 0
      (req_name boot_request) 0 (unat (name_len boot_request))\<rparr>) = Some (0, img)"
    using boot_image [OF refl] by blast
  have fs: "kernel_fs ?k1 = written_fs" "pages ?k1 = pg" by (simp_all add: process_init_def)
  have "buffer_size boot_request = 3" by (simp add: boot_request_def sample_request_def)
  then obtain k2 img' where c: "process_create_user_process ?k1 boot_request 0 = Some (0, k2, img')"
    "is_process_active k2 = (is_process_active ?k1)[i := True]"
    using none count i 1 2 3 o(1,2) r fs
    by (simp add: process_create_user_process_def paging_allocate_check_def ceil_div_def process_codes KERNEL_VIRTUAL_ADDRESS_BASE_def
        Let_def)
  have s2: "kstep ?k1 k2" by (rule kstep.create [OF c(1)])
  have k2: "proc_ok k2" by (rule kstep_keeps [OF s2 k1])
  have "current_running_pid k2 = -1" using create_pid [OF k1 c(1)] by (simp add: process_init_def)
  moreover have "is_process_active k2 ! i" using c(2) i(1) o(2) by simp
  ultimately obtain n k3 where 3: "first_switch k2 = Some (pcb_context (process_list k2 ! n), k3)" "runs k3 n"
    using first_switch_total [OF k2 _ i(1)] by metis
  have s3: "kstep k2 k3" by (rule kstep.first [OF 3(1)])
  from timer_slice [OF 3(2), of "pcb_context zero_pcb"] obtain n' k4 where
    4: "timer_interrupt k3 (pcb_context zero_pcb) = Some (pcb_context (process_list k4 ! n'), k4)" "runs k4 n'" by metis
  have s4: "kstep k3 k4" by (rule kstep.timer [OF 4(1)])
  show ?thesis
    using reachable.step [OF reachable.step [OF reachable.step [OF reachable.step [OF reachable.start s1] s2] s3] s4] 4(2) by blast
qed

theorem kernel_consistent_witness:
  "\<exists>k n. reachable (process_init paging_init written_fs) k \<and> runs k n \<and> proc_ok k \<and>
     (\<exists>ctx k'. scheduler_switch_to_next_process k = Some (ctx, k'))"
proof -
  obtain k n where r: "reachable (process_init paging_init written_fs) k" "runs k n" using boots by blast
  have "current_running_pid k \<noteq> -1" using runs_pointer(2,3) [OF r(2)]
    by (auto simp: unsigned_minus_1_eq_mask mask_eq_exp_minus_1)
  then show ?thesis using kernel_consistent [OF r(1)] r runs_pointer(3) [OF r(2)] by (auto simp: runs_def)
qed

text \<open>
  Allocation of a page frame. With a frame left, the page is mapped to a frame that was free
  and is now marked: the address translates to it, with its offset kept, and every other
  entry of every directory is unchanged. Without one, the answer is false and nothing changes.
  The invariant of the page manager is kept.
\<close>

theorem frame_allocation:
  assumes "paging_ok s" "valid_ptr p"
  shows "\<exists>b s'. paging_allocate_user_page_frame s p va = Some (b, s') \<and> paging_ok s' \<and>
    (if free_page_frame_count s = 0 then \<not> b \<and> s' = s
     else b \<and> (\<exists>i. 0 < i \<and> i < 32 \<and> \<not> page_frame_map s ! i \<and> page_frame_map s' = (page_frame_map s)[i := True] \<and>
       translate (dir_of s' (dir_key p)) va = Some (push_bit 22 (of_nat i) OR (va AND 0x3FFFFF)) \<and>
       (\<forall>q\<in>places. q \<noteq> (dir_key p, page_index va) \<longrightarrow> entry_at s' q = entry_at s q)))"
  using allocate_frame_spec [OF assms, of va] unfolding ok_def fresh_mapping_def by (auto split: if_splits)

theorem frame_allocation_witness:
  "\<exists>s'. paging_allocate_user_page_frame paging_init (PD 3) 0x10 = Some (True, s') \<and> paging_ok s'"
  using frame_allocation [OF paging_init_ok, of "PD 3" "0x10"] by (auto simp: valid_ptr_def paging_init_def)

text \<open>
  C27: Releasing a page frame never works: for a mapped page the frame number is computed as
  \<open>(lower_address >> 22) - 1\<close>, which is \<open>0xFFFFFFFF\<close> for every 10-bit address, and the frame
  map is written far outside its 32 elements; for an unmapped page the answer is false.
\<close>

theorem free_frame_out_of_bounds:
  assumes "paging_ok s" "valid_ptr p"
  shows "paging_free_user_page_frame s p va =
    (if present_bit (pde_flag (entry_at s (dir_key p, page_index va))) then None else Some (False, s))"
  by (rule free_frame_faults [OF assms])

theorem free_frame_out_of_bounds_witness:
  "paging_free_user_page_frame two_pages (PD 0) 0x10 = None \<and> paging_free_user_page_frame paging_init (PD 0) 0x10 = Some (False, paging_init)"
proof -
  have idx: "page_index 0x10 = 0" by (simp add: page_index_def)
  have at: "entry_at two_pages (Some 0, 0) = user_pde 1" "entry_at paging_init (Some 0, 0) = empty_pde"
    using two_pages_entries by (simp_all add: entry_at_def two_procs_def process_init_def paging_init_def)
  show ?thesis
    unfolding free_frame_out_of_bounds [OF two_pages_ok, of "PD 0", simplified valid_ptr_def, simplified]
      free_frame_out_of_bounds [OF paging_init_ok, of "PD 0", simplified valid_ptr_def, simplified]
    by (simp add: idx dir_key_def at) (simp add: user_pde_def user_flag_def kernel_flag_def empty_pde_def no_flag_def)
qed

lemma next_active_none: "length act = 16 \<Longrightarrow> \<forall>i<16. \<not> act ! i \<Longrightarrow> next_active act c = None"
  using next_active_result [of act c] by (metis not_Some_eq)

text \<open>
  The first switch after boot, with no current process (number \<open>-1\<close>), writes the state of
  \<open>_process_list[-1]\<close>: a fault, if any process is active. With no active process the search
  for one never ends. So without a current process the switch never gives a context to resume.
\<close>

theorem switch_without_current:
  assumes "proc_ok k" "current_running_pid k = - 1"
  shows "scheduler_switch_to_next_process k = None"
proof -
  have "next_active (is_process_active k) (- 1) = None \<or>
      (\<exists>n. next_active (is_process_active k) (- 1) = Some n)" by (cases "next_active (is_process_active k) (- 1)") auto
  then show ?thesis
    by (auto simp: scheduler_switch_to_next_process_def assms(2) set_state_def Let_def bind_eq_None_conv)
qed

theorem switch_without_current_witness: "scheduler_switch_to_next_process (process_init paging_init blank_fs) = None"
  by (rule switch_without_current [OF proc_init_ok [OF paging_init_ok]]) (simp add: process_init_def)

text \<open>
  C26: What a creation leaves behind. Codes 1 to 3 change nothing. Success activates one free slot:
  it is \<open>READY\<close> at its entry point with its number as pid, runs under a directory that was not in
  use, the other slots are as before, and CR3 is restored. Code 4 (the executable cannot be read)
  is an error that is not cleaned up: the slot stays active, with pid 0 and no page directory,
  and CR3 keeps the new directory.
\<close>

theorem create_outcomes:
  assumes "proc_ok k" "process_create_user_process k req entry = Some (r, k', img)"
  shows "proc_ok k' \<and> (r \<in> {1, 2, 3} \<and> k' = k \<or>
    (\<exists>i pd. i < 16 \<and> \<not> is_process_active k ! i \<and> is_process_active k' = (is_process_active k)[i := True] \<and>
      (\<forall>j<16. j \<noteq> i \<longrightarrow> process_list k' ! j = process_list k ! j) \<and>
      (pd = PD_NULL \<or> (\<exists>d<32. pd = PD d \<and> \<not> page_directory_used (pages k) ! d \<and> page_directory_used (pages k') ! d)) \<and>
      (r = 0 \<and> cr3 k' = cr3 k \<and> dir_ptr k' i = pd \<and> process_state (process_list k' ! i) = READY \<and>
         pcb_pid (process_list k' ! i) = of_nat i \<and> eip (pcb_context (process_list k' ! i)) = entry \<or>
       r = 4 \<and> cr3 k' = pd \<and> dir_ptr k' i = PD_NULL \<and> pcb_pid (process_list k' ! i) = 0)))"
  using assms(2)
proof (cases rule: create_cases)
  case 1
  then show ?thesis using assms(1) by auto
next
  case (2 i k1 pd pg1 b0 pg2 b1 pg3 p)
  note o = proc_okD [OF assms(1)]
  from inactive_index [OF assms(1) 2(1)] 2(3) have i: "i < 16" "\<not> is_process_active k ! i"
    "k1 = k\<lparr>is_process_active := (is_process_active k)[i := True], active_process_count := active_process_count k + 1\<rparr>"
    by (metis option.inject prod.inject)+
  have zero: "process_list k ! i = zero_pcb" using o(5) i by blast
  from okD [OF create_directory_spec [OF o(4)], of "(pd, pg1)"] 2(4) i(3) have
    ok1: "paging_ok pg1" and pd: "pd = PD_NULL \<or> (\<exists>d<32. pd = PD d \<and> \<not> page_directory_used (pages k) ! d \<and>
      page_directory_used pg1 = (page_directory_used (pages k))[d := True])"
    by (auto split: if_splits)
  have ptr: "pd = PD_NULL \<or> valid_ptr pd" using pd by (auto simp: valid_ptr_def)
  from allocate_any [OF ok1 ptr 2(5)] have ok2: "paging_ok pg2" "page_directory_used pg2 = page_directory_used pg1" by simp_all
  from allocate_any [OF ok2(1) ptr 2(6)] have used: "page_directory_used pg3 = page_directory_used pg1" using ok2 by simp
  have len: "length (page_directory_used (pages k)) = 32" using o(4) by (simp add: paging_ok_def)
  have dirs: "pd = PD_NULL \<or> (\<exists>d<32. pd = PD d \<and> \<not> page_directory_used (pages k) ! d \<and> page_directory_used (pages k') ! d)"
    using pd used len 2(9) by auto
  have "\<exists>i pd. i < 16 \<and> \<not> is_process_active k ! i \<and> is_process_active k' = (is_process_active k)[i := True] \<and>
      (\<forall>j<16. j \<noteq> i \<longrightarrow> process_list k' ! j = process_list k ! j) \<and>
      (pd = PD_NULL \<or> (\<exists>d<32. pd = PD d \<and> \<not> page_directory_used (pages k) ! d \<and> page_directory_used (pages k') ! d)) \<and>
      (r = 0 \<and> cr3 k' = cr3 k \<and> dir_ptr k' i = pd \<and> process_state (process_list k' ! i) = READY \<and>
         pcb_pid (process_list k' ! i) = of_nat i \<and> eip (pcb_context (process_list k' ! i)) = entry \<or>
       r = 4 \<and> cr3 k' = pd \<and> dir_ptr k' i = PD_NULL \<and> pcb_pid (process_list k' ! i) = 0)"
    using 2(9) i o(1) zero
    by (intro exI [of _ i] exI [of _ pd] conjI dirs)
      (auto simp: dir_ptr_def setup_pcb_def 2(8) nth_list_upd, simp_all add: zero_pcb_def)
  with create_keeps [OF assms] show ?thesis by blast
qed

text \<open>The sleep loop with interrupts enabled: it ends with the last tick it waits for, also when the
  counter wraps around. With interrupts disabled it ends at its first test or never.\<close>

lemma sleep_loop_enabled:
  "length (filter wakes [n..<m]) = d \<Longrightarrow> unat (now - start) + d = unat w \<Longrightarrow>
    sleep_loop True wakes start w n now = Some (now + of_nat d)"
proof (induction "m - n" arbitrary: n now d rule: less_induct)
  case less
  show ?case
  proof (cases d)
    case 0
    then show ?thesis using less.prems(2) by (subst sleep_loop.simps) (simp add: word_less_nat_alt)
  next
    case (Suc d')
    then have n: "n < m" using less.prems(1) by (cases "n < m") simp_all
    have go: "now - start < w" using less.prems(2) Suc by (simp add: word_less_nat_alt)
    have cut: "[n..<m] = n # [n + 1..<m]" using n upt_conv_Cons by simp
    show ?thesis
    proof (cases "wakes n")
      case True
      have "unat (now - start) + 1 < 2 ^ 32" using go unsigned_less [of w, where 'a = nat] by (simp add: word_less_nat_alt)
      then have "unat ((now - start) + 1) = unat (now - start) + 1" unfolding unat_word_ariths(1) by simp
      moreover have "now + 1 - start = (now - start) + 1" by (rule diff_add_eq [symmetric])
      ultimately have "unat (now + 1 - start) = unat (now - start) + 1" by (simp only:)
      then have "sleep_loop True wakes start w (n + 1) (now + 1) = Some (now + 1 + of_nat d')"
        using less.hyps [of "n + 1" d' "now + 1"] less.prems Suc n True cut by simp
      then show ?thesis using go True Suc by (subst sleep_loop.simps) (simp add: add.assoc)
    next
      case False
      then have "sleep_loop True wakes start w (n + 1) now = Some (now + of_nat d)"
        using less.hyps [of "n + 1" d now] less.prems n cut by simp
      then show ?thesis using go False by (subst sleep_loop.simps) simp
    qed
  qed
qed

lemma sleep_disabled: "sleep_ms False wakes ms now = (if ms = 0 then Some now else None)"
  by (simp add: sleep_ms_def sleep_loop.simps [of False] sleep_ticks_def PIT_TIMER_FREQUENCY_def word_neq_0_conv)

lemma sleep_enabled: "length (filter wakes [0..<m]) = unat ms \<Longrightarrow> sleep_ms True wakes ms now = Some (now + ms)"
  using sleep_loop_enabled [of wakes 0 m "unat ms" now now ms] by (simp add: sleep_ms_def sleep_ticks_def PIT_TIMER_FREQUENCY_def)

definition no_file :: request where
  "no_file = \<lparr>buf = (\<lambda>_. 0), req_name = (\<lambda>_. 0), name_len = 0, parent_inode = 0, buffer_size = 0, is_directory = False\<rparr>"

theorem create_outcomes_witness:
  "\<exists>k' img i. process_create_user_process two_procs no_file 0 = Some (4, k', img) \<and> 2 \<le> i \<and> i < 16 \<and>
     is_process_active k' ! i \<and> dir_ptr k' i = PD_NULL"
proof -
  have few: "active_process_count two_procs < 16" "free_page_frame_count (pages two_procs) = 29"
    by (simp_all add: two_procs_def process_init_def two_pages_def map_frame_def paging_init_def)
  obtain i where i: "i < 16" "process_list_get_inactive_index two_procs = Some (i, two_procs\<lparr>is_process_active := (is_process_active two_procs)[i := True],
      active_process_count := active_process_count two_procs + 1\<rparr>)" using inactive_index [OF two_procs_ok few(1)] by metis
  note o = proc_okD [OF two_procs_ok]
  have "\<not> page_directory_used (pages two_procs) ! 2" by (simp add: two_procs_def process_init_def two_pages_def)
  then have "\<not> (\<forall>i<32. page_directory_used (pages two_procs) ! i)" by (metis numeral_less_iff semiring_norm(76,78,81))
  with create_directory_spec [OF o(4)] few(2) obtain d pg1 where
    1: "paging_create_new_page_directory (pages two_procs) = Some (PD d, pg1)" "d < 32" "paging_ok pg1" "free_page_frame_count pg1 = 29"
    by (auto elim!: okE)
  have vp: "valid_ptr (PD d)" using 1(2) by (simp add: valid_ptr_def)
  obtain b0 pg2 where 2: "paging_allocate_user_page_frame pg1 (PD d) 0 = Some (b0, pg2)" "paging_ok pg2"
    using allocate_frame_spec [OF 1(3) vp, of 0] by (auto elim!: okE)
  obtain b1 pg3 where 3: "paging_allocate_user_page_frame pg2 (PD d) 0xBFFFFFFC = Some (b1, pg3)"
    using allocate_frame_spec [OF 2(2) vp, of "0xBFFFFFFC"] by (auto elim!: okE)
  obtain k' img where c: "process_create_user_process two_procs no_file 0 = Some (4, k', img)"
    using few few(1) [unfolded not_le [symmetric]] i 1 2 3 o(1)
    by (simp add: process_create_user_process_def paging_allocate_check_def ceil_div_def process_codes KERNEL_VIRTUAL_ADDRESS_BASE_def
        no_file_def Let_def ext2_read_def)
  from create_outcomes [OF two_procs_ok c] obtain i where
    "i < 16" "\<not> is_process_active two_procs ! i" "is_process_active k' ! i" "dir_ptr k' i = PD_NULL"
    using o(2) by auto
  moreover from this have "2 \<le> i" by (cases "i = 0"; cases "i = 1") auto
  ultimately show ?thesis using c by blast
qed

end
