(* ===== verification/Graphics.thy ===== *)
theory Graphics
  imports Prelude
begin

section \<open>The screen: \<open>drivers/graphics.c\<close>, \<open>lib/font.h\<close>\<close>

text \<open>
  The VGA adapter in its planar 640x480 mode: the sequencer's map mask, the read map of the graphics
  controller and the four planes of the display memory. A store goes to every plane of
  the map mask, a load comes from the plane of the read map (write mode 0 and read mode 0 with the
  full bit mask, which \<open>vga_init\<close> sets up). The other registers have no effect on this state.
  Coordinates are integers; products that leave the range of \<open>int\<close> are undefined in C and not modelled.
\<close>

subsection \<open>The adapter\<close>

record vga =
  seq_index :: u8
  gc_index :: u8
  map_mask :: u8
  read_map :: u8
  planes :: "nat \<Rightarrow> nat \<Rightarrow> u8"

definition VGA_WIDTH :: int where "VGA_WIDTH = 640"
definition VGA_HEIGHT :: int where "VGA_HEIGHT = 480"
definition VGA_PITCH :: int where "VGA_PITCH = VGA_WIDTH div 8"
definition VGA_PLANE_SIZE :: int where "VGA_PLANE_SIZE = VGA_PITCH * VGA_HEIGHT"
definition VGA_MISC_WRITE :: u16 where "VGA_MISC_WRITE = 0x3C2"
definition VGA_SEQ_INDEX :: u16 where "VGA_SEQ_INDEX = 0x3C4"
definition VGA_SEQ_DATA :: u16 where "VGA_SEQ_DATA = 0x3C5"
definition VGA_CRTC_INDEX :: u16 where "VGA_CRTC_INDEX = 0x3D4"
definition VGA_CRTC_DATA :: u16 where "VGA_CRTC_DATA = 0x3D5"
definition VGA_GC_INDEX :: u16 where "VGA_GC_INDEX = 0x3CE"
definition VGA_GC_DATA :: u16 where "VGA_GC_DATA = 0x3CF"
definition VGA_ACT_INDEX :: u16 where "VGA_ACT_INDEX = 0x3C0"

lemmas vga_ports = VGA_MISC_WRITE_def VGA_SEQ_INDEX_def VGA_SEQ_DATA_def VGA_CRTC_INDEX_def VGA_CRTC_DATA_def
  VGA_GC_INDEX_def VGA_GC_DATA_def VGA_ACT_INDEX_def

lemma vga_consts [simp]: "VGA_WIDTH = 640" "VGA_HEIGHT = 480" "VGA_PITCH = 80" "VGA_PLANE_SIZE = 38400"
  by (simp_all add: VGA_WIDTH_def VGA_HEIGHT_def VGA_PITCH_def VGA_PLANE_SIZE_def)

definition vga_out :: "u16 \<Rightarrow> u8 \<Rightarrow> vga \<Rightarrow> vga" where
  "vga_out port data s =
     (if port = VGA_SEQ_INDEX then s\<lparr>seq_index := data\<rparr>
      else if port = VGA_SEQ_DATA then (if seq_index s = 0x02 then s\<lparr>map_mask := data\<rparr> else s)
      else if port = VGA_GC_INDEX then s\<lparr>gc_index := data\<rparr>
      else if port = VGA_GC_DATA then (if gc_index s = 0x04 then s\<lparr>read_map := data AND 0x3\<rparr> else s)
      else s)"

definition vga_store :: "nat \<Rightarrow> u8 \<Rightarrow> vga \<Rightarrow> vga" where
  "vga_store i b s = s\<lparr>planes := (\<lambda>p. if p < 4 \<and> bit (map_mask s) p then (planes s p)(i := b) else planes s p)\<rparr>"

definition vga_load :: "nat \<Rightarrow> vga \<Rightarrow> u8" where
  "vga_load i s = planes s (unat (read_map s)) i"

subsection \<open>Drawing\<close>

text \<open>The port writes that select a plane for writing, and for writing and reading.\<close>

definition select_write :: "nat \<Rightarrow> vga \<Rightarrow> vga" where
  "select_write plane s = vga_out VGA_SEQ_DATA (push_bit plane 1) (vga_out VGA_SEQ_INDEX 0x02 s)"

definition select_plane :: "nat \<Rightarrow> vga \<Rightarrow> vga" where
  "select_plane plane s = vga_out VGA_GC_DATA (of_nat plane) (vga_out VGA_GC_INDEX 0x04 (select_write plane s))"

definition draw_plane :: "nat \<Rightarrow> u8 \<Rightarrow> u8 \<Rightarrow> nat \<Rightarrow> vga \<Rightarrow> vga" where
  "draw_plane byteIndex pixel_mask color plane s =
     (let s = select_plane plane s;
          current = vga_load byteIndex s
      in if color AND push_bit plane 1 \<noteq> 0 then vga_store byteIndex (current OR pixel_mask) s
         else vga_store byteIndex (current AND NOT pixel_mask) s)"

definition vga_draw_pixel :: "int \<Rightarrow> int \<Rightarrow> u8 \<Rightarrow> vga \<Rightarrow> vga" where
  "vga_draw_pixel x y color s =
     (if x < 0 \<or> x \<ge> VGA_WIDTH \<or> y < 0 \<or> y \<ge> VGA_HEIGHT then s
      else let byteIndex = nat (y * VGA_PITCH + drop_bit 3 x);
               pixel_mask = push_bit (nat (7 - (x AND 7))) 1
           in fold (draw_plane byteIndex pixel_mask color) [0..<4] s)"

definition clear_plane :: "u8 \<Rightarrow> nat \<Rightarrow> vga \<Rightarrow> vga" where
  "clear_plane color plane s =
     fold (\<lambda>i. vga_store i (if color AND push_bit plane 1 \<noteq> 0 then 0xFF else 0x00)) [0..<nat VGA_PLANE_SIZE] (select_write plane s)"

definition vga_clear :: "u8 \<Rightarrow> vga \<Rightarrow> vga" where
  "vga_clear color s = fold (clear_plane color) [0..<4] s"

text \<open>A rectangle of pixels in the order of the loops, rows first.\<close>

definition draw_box :: "int \<Rightarrow> int \<Rightarrow> nat list \<Rightarrow> u8 \<Rightarrow> vga \<Rightarrow> vga" where
  "draw_box px py rows color s =
     fold (\<lambda>dy. fold (\<lambda>dx. vga_draw_pixel (px + int dx) (py + int dy) color) [0..<8]) rows s"

text \<open>The 8x8 font for the ASCII codes 32 to 126, one byte per row, the least significant bit leftmost.\<close>

definition font8x8 :: "u8 list list" where
  "font8x8 = [
    [0x00, 0x00, 0x00, 0x00, 0x00, 0x00, 0x00, 0x00],
    [0x18, 0x3C, 0x3C, 0x18, 0x18, 0x00, 0x18, 0x00],
    [0x36, 0x36, 0x00, 0x00, 0x00, 0x00, 0x00, 0x00],
    [0x36, 0x36, 0x7F, 0x36, 0x7F, 0x36, 0x36, 0x00],
    [0x0C, 0x3E, 0x03, 0x1E, 0x30, 0x1F, 0x0C, 0x00],
    [0x00, 0x63, 0x33, 0x18, 0x0C, 0x66, 0x63, 0x00],
    [0x1C, 0x36, 0x1C, 0x6E, 0x3B, 0x33, 0x6E, 0x00],
    [0x06, 0x06, 0x03, 0x00, 0x00, 0x00, 0x00, 0x00],
    [0x18, 0x0C, 0x06, 0x06, 0x06, 0x0C, 0x18, 0x00],
    [0x06, 0x0C, 0x18, 0x18, 0x18, 0x0C, 0x06, 0x00],
    [0x00, 0x66, 0x3C, 0xFF, 0x3C, 0x66, 0x00, 0x00],
    [0x00, 0x0C, 0x0C, 0x3F, 0x0C, 0x0C, 0x00, 0x00],
    [0x00, 0x00, 0x00, 0x00, 0x00, 0x0C, 0x0C, 0x06],
    [0x00, 0x00, 0x00, 0x3F, 0x00, 0x00, 0x00, 0x00],
    [0x00, 0x00, 0x00, 0x00, 0x00, 0x0C, 0x0C, 0x00],
    [0x60, 0x30, 0x18, 0x0C, 0x06, 0x03, 0x01, 0x00],
    [0x3E, 0x63, 0x73, 0x7B, 0x6F, 0x67, 0x3E, 0x00],
    [0x0C, 0x0E, 0x0C, 0x0C, 0x0C, 0x0C, 0x3F, 0x00],
    [0x1E, 0x33, 0x30, 0x1C, 0x06, 0x33, 0x3F, 0x00],
    [0x1E, 0x33, 0x30, 0x1C, 0x30, 0x33, 0x1E, 0x00],
    [0x38, 0x3C, 0x36, 0x33, 0x7F, 0x30, 0x78, 0x00],
    [0x3F, 0x03, 0x1F, 0x30, 0x30, 0x33, 0x1E, 0x00],
    [0x1C, 0x06, 0x03, 0x1F, 0x33, 0x33, 0x1E, 0x00],
    [0x3F, 0x33, 0x30, 0x18, 0x0C, 0x0C, 0x0C, 0x00],
    [0x1E, 0x33, 0x33, 0x1E, 0x33, 0x33, 0x1E, 0x00],
    [0x1E, 0x33, 0x33, 0x3E, 0x30, 0x18, 0x0E, 0x00],
    [0x00, 0x0C, 0x0C, 0x00, 0x00, 0x0C, 0x0C, 0x00],
    [0x00, 0x0C, 0x0C, 0x00, 0x00, 0x0C, 0x0C, 0x06],
    [0x18, 0x0C, 0x06, 0x03, 0x06, 0x0C, 0x18, 0x00],
    [0x00, 0x00, 0x3F, 0x00, 0x00, 0x3F, 0x00, 0x00],
    [0x06, 0x0C, 0x18, 0x30, 0x18, 0x0C, 0x06, 0x00],
    [0x1E, 0x33, 0x30, 0x18, 0x0C, 0x00, 0x0C, 0x00],
    [0x3E, 0x63, 0x7B, 0x7B, 0x7B, 0x03, 0x1E, 0x00],
    [0x0C, 0x1E, 0x33, 0x33, 0x3F, 0x33, 0x33, 0x00],
    [0x3F, 0x66, 0x66, 0x3E, 0x66, 0x66, 0x3F, 0x00],
    [0x3C, 0x66, 0x03, 0x03, 0x03, 0x66, 0x3C, 0x00],
    [0x1F, 0x36, 0x66, 0x66, 0x66, 0x36, 0x1F, 0x00],
    [0x7F, 0x46, 0x16, 0x1E, 0x16, 0x46, 0x7F, 0x00],
    [0x7F, 0x46, 0x16, 0x1E, 0x16, 0x06, 0x0F, 0x00],
    [0x3C, 0x66, 0x03, 0x03, 0x73, 0x66, 0x7C, 0x00],
    [0x33, 0x33, 0x33, 0x3F, 0x33, 0x33, 0x33, 0x00],
    [0x1E, 0x0C, 0x0C, 0x0C, 0x0C, 0x0C, 0x1E, 0x00],
    [0x78, 0x30, 0x30, 0x30, 0x33, 0x33, 0x1E, 0x00],
    [0x67, 0x66, 0x36, 0x1E, 0x36, 0x66, 0x67, 0x00],
    [0x0F, 0x06, 0x06, 0x06, 0x46, 0x66, 0x7F, 0x00],
    [0x63, 0x77, 0x7F, 0x7F, 0x6B, 0x63, 0x63, 0x00],
    [0x63, 0x67, 0x6F, 0x7B, 0x73, 0x63, 0x63, 0x00],
    [0x1C, 0x36, 0x63, 0x63, 0x63, 0x36, 0x1C, 0x00],
    [0x3F, 0x66, 0x66, 0x3E, 0x06, 0x06, 0x0F, 0x00],
    [0x1E, 0x33, 0x33, 0x33, 0x3B, 0x1E, 0x38, 0x00],
    [0x3F, 0x66, 0x66, 0x3E, 0x36, 0x66, 0x67, 0x00],
    [0x1E, 0x33, 0x07, 0x0E, 0x38, 0x33, 0x1E, 0x00],
    [0x3F, 0x2D, 0x0C, 0x0C, 0x0C, 0x0C, 0x1E, 0x00],
    [0x33, 0x33, 0x33, 0x33, 0x33, 0x33, 0x3F, 0x00],
    [0x33, 0x33, 0x33, 0x33, 0x33, 0x1E, 0x0C, 0x00],
    [0x63, 0x63, 0x63, 0x6B, 0x7F, 0x77, 0x63, 0x00],
    [0x63, 0x63, 0x36, 0x1C, 0x1C, 0x36, 0x63, 0x00],
    [0x33, 0x33, 0x33, 0x1E, 0x0C, 0x0C, 0x1E, 0x00],
    [0x7F, 0x63, 0x31, 0x18, 0x4C, 0x66, 0x7F, 0x00],
    [0x1E, 0x06, 0x06, 0x06, 0x06, 0x06, 0x1E, 0x00],
    [0x03, 0x06, 0x0C, 0x18, 0x30, 0x60, 0x40, 0x00],
    [0x1E, 0x18, 0x18, 0x18, 0x18, 0x18, 0x1E, 0x00],
    [0x08, 0x1C, 0x36, 0x63, 0x00, 0x00, 0x00, 0x00],
    [0x00, 0x00, 0x00, 0x00, 0x00, 0x00, 0x00, 0xFF],
    [0x0C, 0x0C, 0x18, 0x00, 0x00, 0x00, 0x00, 0x00],
    [0x00, 0x00, 0x1E, 0x30, 0x3E, 0x33, 0x6E, 0x00],
    [0x07, 0x06, 0x06, 0x3E, 0x66, 0x66, 0x3B, 0x00],
    [0x00, 0x00, 0x1E, 0x33, 0x03, 0x33, 0x1E, 0x00],
    [0x38, 0x30, 0x30, 0x3e, 0x33, 0x33, 0x6E, 0x00],
    [0x00, 0x00, 0x1E, 0x33, 0x3f, 0x03, 0x1E, 0x00],
    [0x1C, 0x36, 0x06, 0x0f, 0x06, 0x06, 0x0F, 0x00],
    [0x00, 0x00, 0x6E, 0x33, 0x33, 0x3E, 0x30, 0x1F],
    [0x07, 0x06, 0x36, 0x6E, 0x66, 0x66, 0x67, 0x00],
    [0x0C, 0x00, 0x0E, 0x0C, 0x0C, 0x0C, 0x1E, 0x00],
    [0x30, 0x00, 0x30, 0x30, 0x30, 0x33, 0x33, 0x1E],
    [0x07, 0x06, 0x66, 0x36, 0x1E, 0x36, 0x67, 0x00],
    [0x0E, 0x0C, 0x0C, 0x0C, 0x0C, 0x0C, 0x1E, 0x00],
    [0x00, 0x00, 0x33, 0x7F, 0x7F, 0x6B, 0x63, 0x00],
    [0x00, 0x00, 0x1F, 0x33, 0x33, 0x33, 0x33, 0x00],
    [0x00, 0x00, 0x1E, 0x33, 0x33, 0x33, 0x1E, 0x00],
    [0x00, 0x00, 0x3B, 0x66, 0x66, 0x3E, 0x06, 0x0F],
    [0x00, 0x00, 0x6E, 0x33, 0x33, 0x3E, 0x30, 0x78],
    [0x00, 0x00, 0x3B, 0x6E, 0x66, 0x06, 0x0F, 0x00],
    [0x00, 0x00, 0x3E, 0x03, 0x1E, 0x30, 0x1F, 0x00],
    [0x08, 0x0C, 0x3E, 0x0C, 0x0C, 0x2C, 0x18, 0x00],
    [0x00, 0x00, 0x33, 0x33, 0x33, 0x33, 0x6E, 0x00],
    [0x00, 0x00, 0x33, 0x33, 0x33, 0x1E, 0x0C, 0x00],
    [0x00, 0x00, 0x63, 0x6B, 0x7F, 0x7F, 0x36, 0x00],
    [0x00, 0x00, 0x63, 0x36, 0x1C, 0x36, 0x63, 0x00],
    [0x00, 0x00, 0x33, 0x33, 0x33, 0x3E, 0x30, 0x1F],
    [0x00, 0x00, 0x3F, 0x19, 0x0C, 0x26, 0x3F, 0x00],
    [0x38, 0x0C, 0x0C, 0x07, 0x0C, 0x0C, 0x38, 0x00],
    [0x18, 0x18, 0x18, 0x00, 0x18, 0x18, 0x18, 0x00],
    [0x07, 0x0C, 0x0C, 0x38, 0x0C, 0x0C, 0x07, 0x00],
    [0x6E, 0x3B, 0x00, 0x00, 0x00, 0x00, 0x00, 0x00]]"

definition vga_draw_cursor :: "int \<Rightarrow> int \<Rightarrow> u8 \<Rightarrow> vga \<Rightarrow> vga" where
  "vga_draw_cursor cx cy color s = draw_box (cx * 8) (cy * 8) [7..<8] color s"

definition vga_clear_cursor :: "int \<Rightarrow> int \<Rightarrow> vga \<Rightarrow> vga" where
  "vga_clear_cursor cx cy s = draw_box (cx * 8) (cy * 8) [7..<16] 0x00 s"

definition draw_glyph :: "u8 list \<Rightarrow> int \<Rightarrow> int \<Rightarrow> u8 \<Rightarrow> vga \<Rightarrow> vga" where
  "draw_glyph glyph x y color s =
     fold (\<lambda>row. fold (\<lambda>col s. if glyph ! row AND push_bit col 1 \<noteq> 0
                              then vga_draw_pixel (x + int col) (y + int row) color s else s) [0..<8]) [0..<8] s"

text \<open>\<open>char\<close> is signed.\<close>

definition vga_draw_char :: "int \<Rightarrow> int \<Rightarrow> u8 \<Rightarrow> u8 \<Rightarrow> vga \<Rightarrow> vga" where
  "vga_draw_char x y c color s =
     (let x = x * 8; y = y * 8 in
      if sint c < 32 \<or> sint c > 126 then s
      else let s = draw_box x y [0..<8] 0x00 s;
               glyph = font8x8 ! nat (sint c - 32)
           in draw_glyph glyph x y color s)"

definition fill_row :: "nat \<Rightarrow> u8 \<Rightarrow> int \<Rightarrow> nat \<Rightarrow> nat \<Rightarrow> vga \<Rightarrow> vga" where
  "fill_row startBit planeValue y startByte row s =
     (let scanline = nat ((y + int row) * VGA_PITCH) in
      if startBit = 0 then vga_store (scanline + startByte) planeValue s
      else
        let leftMask = drop_bit startBit (0xFF :: u8);
            rightMask = push_bit (8 - startBit) (0xFF :: u8);
            current = vga_load (scanline + startByte) s;
            s = vga_store (scanline + startByte) (if planeValue \<noteq> 0 then current OR leftMask else current AND NOT leftMask) s;
            current = vga_load (scanline + startByte + 1) s
        in vga_store (scanline + startByte + 1) (if planeValue \<noteq> 0 then current OR rightMask else current AND NOT rightMask) s)"

definition vga_fill8x8 :: "int \<Rightarrow> int \<Rightarrow> u8 \<Rightarrow> vga \<Rightarrow> vga" where
  "vga_fill8x8 x y color s =
     (if x < 0 \<or> x + 8 > VGA_WIDTH \<or> y < 0 \<or> y + 8 > VGA_HEIGHT then s
      else
        let startByte = nat (drop_bit 3 x);
            startBit = nat (x AND 7)
        in fold (\<lambda>plane s.
             let s = select_plane plane s;
                 planeValue = (if color AND push_bit plane 1 \<noteq> 0 then 0xFF else 0x00)
             in fold (fill_row startBit planeValue y startByte) [0..<8] s) [0..<4] s)"


text \<open>
  The register values \<open>vga_init\<close> programs, after the unlocking of the CRTC with the value \<open>tmp\<close>
  that is read from it. Reading the input status has no effect here.
\<close>

definition vga_init_registers :: "(u16 \<times> u8) list" where
  "vga_init_registers = [
    (VGA_MISC_WRITE, 0xE3), (VGA_SEQ_INDEX, 0x00), (VGA_SEQ_DATA, 0x03),
    (VGA_SEQ_INDEX, 0x01), (VGA_SEQ_DATA, 0x01), (VGA_SEQ_INDEX, 0x02),
    (VGA_SEQ_DATA, 0x0F), (VGA_SEQ_INDEX, 0x03), (VGA_SEQ_DATA, 0x00),
    (VGA_SEQ_INDEX, 0x04), (VGA_SEQ_DATA, 0x02), (VGA_GC_INDEX, 0x00),
    (VGA_GC_DATA, 0x00), (VGA_GC_INDEX, 0x01), (VGA_GC_DATA, 0x00),
    (VGA_GC_INDEX, 0x02), (VGA_GC_DATA, 0x00), (VGA_GC_INDEX, 0x03),
    (VGA_GC_DATA, 0x00), (VGA_GC_INDEX, 0x04), (VGA_GC_DATA, 0x00),
    (VGA_GC_INDEX, 0x05), (VGA_GC_DATA, 0x00), (VGA_GC_INDEX, 0x06),
    (VGA_GC_DATA, 0x05), (VGA_GC_INDEX, 0x07), (VGA_GC_DATA, 0x0F),
    (VGA_GC_INDEX, 0x08), (VGA_GC_DATA, 0xFF), (VGA_CRTC_INDEX, 0x00),
    (VGA_CRTC_DATA, 0x5F), (VGA_CRTC_INDEX, 0x01), (VGA_CRTC_DATA, 0x4F),
    (VGA_CRTC_INDEX, 0x02), (VGA_CRTC_DATA, 0x50), (VGA_CRTC_INDEX, 0x03),
    (VGA_CRTC_DATA, 0x82), (VGA_CRTC_INDEX, 0x04), (VGA_CRTC_DATA, 0x54),
    (VGA_CRTC_INDEX, 0x05), (VGA_CRTC_DATA, 0x80), (VGA_CRTC_INDEX, 0x06),
    (VGA_CRTC_DATA, 0x0B), (VGA_CRTC_INDEX, 0x07), (VGA_CRTC_DATA, 0x3E),
    (VGA_CRTC_INDEX, 0x08), (VGA_CRTC_DATA, 0x00), (VGA_CRTC_INDEX, 0x09),
    (VGA_CRTC_DATA, 0x40), (VGA_CRTC_INDEX, 0x10), (VGA_CRTC_DATA, 0xEA),
    (VGA_CRTC_INDEX, 0x11), (VGA_CRTC_DATA, 0x8C), (VGA_CRTC_INDEX, 0x12),
    (VGA_CRTC_DATA, 0xDF), (VGA_CRTC_INDEX, 0x13), (VGA_CRTC_DATA, 0x28),
    (VGA_CRTC_INDEX, 0x14), (VGA_CRTC_DATA, 0x00), (VGA_CRTC_INDEX, 0x15),
    (VGA_CRTC_DATA, 0xE7), (VGA_CRTC_INDEX, 0x16), (VGA_CRTC_DATA, 0x04),
    (VGA_CRTC_INDEX, 0x17), (VGA_CRTC_DATA, 0xE3), (VGA_ACT_INDEX, 0x10),
    (VGA_ACT_INDEX, 0x01), (VGA_ACT_INDEX, 0x11), (VGA_ACT_INDEX, 0x00),
    (VGA_ACT_INDEX, 0x12), (VGA_ACT_INDEX, 0x0F), (VGA_ACT_INDEX, 0x13),
    (VGA_ACT_INDEX, 0x00), (VGA_ACT_INDEX, 0x14), (VGA_ACT_INDEX, 0x00),
    (VGA_ACT_INDEX, 0x20)]"

definition vga_init :: "u8 \<Rightarrow> vga \<Rightarrow> vga" where
  "vga_init tmp s =
     (let s = vga_out VGA_CRTC_DATA (tmp AND 0x7F) (vga_out VGA_CRTC_INDEX 0x11 s);
          s = fold (\<lambda>(port, data). vga_out port data) vga_init_registers s
      in vga_clear 0 s)"

subsection \<open>Pixels\<close>

text \<open>The bit of a plane at a pixel of the screen.\<close>

definition on_screen :: "int \<Rightarrow> int \<Rightarrow> bool" where
  "on_screen x y \<longleftrightarrow> 0 \<le> x \<and> x < 640 \<and> 0 \<le> y \<and> y < 480"

definition pixel :: "vga \<Rightarrow> nat \<Rightarrow> int \<Rightarrow> int \<Rightarrow> bool" where
  "pixel s p x y = bit (planes s p (nat (y * 80 + x div 8))) (nat (7 - x mod 8))"

text \<open>The state in which plane \<open>p\<close> is selected for writing and reading.\<close>

definition selected :: "nat \<Rightarrow> vga \<Rightarrow> bool" where
  "selected p s \<longleftrightarrow> map_mask s = push_bit p 1 \<and> read_map s = of_nat p \<and> seq_index s = 2 \<and> gc_index s = 4"

definition with_plane :: "nat \<Rightarrow> ((nat \<Rightarrow> u8) \<Rightarrow> nat \<Rightarrow> u8) \<Rightarrow> vga \<Rightarrow> vga" where
  "with_plane p f s = s\<lparr>planes := (planes s)(p := f (planes s p))\<rparr>"

lemma less_4_cases: "p < (4 :: nat) \<longleftrightarrow> p = 0 \<or> p = 1 \<or> p = 2 \<or> p = 3"
  by auto

lemma select_plane_simps [simp]:
  "planes (select_plane p s) = planes s" "planes (select_write p s) = planes s"
  by (simp_all add: select_plane_def select_write_def vga_out_def)

lemma select_plane_selected: "p < 4 \<Longrightarrow> selected p (select_plane p s)"
  by (auto simp: less_4_cases select_plane_def select_write_def vga_out_def selected_def vga_ports)

lemma select_plane_id: "selected p s \<Longrightarrow> p < 4 \<Longrightarrow> select_plane p s = s"
  by (auto simp: less_4_cases select_plane_def select_write_def vga_out_def selected_def vga_ports)

lemma bit_single: "p < 4 \<Longrightarrow> q < 4 \<Longrightarrow> bit (push_bit p (1 :: u8)) q \<longleftrightarrow> q = p"
  by (auto simp: bit_exp_iff)

lemma store_selected: "selected p s \<Longrightarrow> p < 4 \<Longrightarrow> vga_store i b s = with_plane p (\<lambda>m. m(i := b)) s"
proof -
  assume *: "selected p s" "p < 4"
  have "(\<lambda>q. if q < 4 \<and> bit (map_mask s) q then (planes s q)(i := b) else planes s q) = (planes s)(p := (planes s p)(i := b))"
    using * by (auto simp: selected_def bit_single fun_eq_iff simp del: push_bit_of_1)
  then show ?thesis by (simp add: vga_store_def with_plane_def)
qed

lemma load_selected: "selected p s \<Longrightarrow> p < 4 \<Longrightarrow> vga_load i s = planes s p i"
  by (simp add: vga_load_def selected_def unat_of_nat take_bit_nat_eq_self)

lemma with_plane_selected [simp]: "selected p (with_plane q f s) = selected p s"
  by (simp add: selected_def with_plane_def)

lemma with_plane_with_plane: "with_plane p g (with_plane p f s) = with_plane p (\<lambda>m. g (f m)) s"
  by (simp add: with_plane_def)

lemma planes_with_plane [simp]: "planes (with_plane p f s) q = (if q = p then f (planes s p) else planes s q)"
  by (simp add: with_plane_def)

lemma color_test: "p < 4 \<Longrightarrow> color AND push_bit p 1 \<noteq> 0 \<longleftrightarrow> bit (color :: u8) p"
  by (simp add: and_exp_eq_0_iff_not_bit)

text \<open>A change of one plane's byte, and of the same byte in all four.\<close>

definition mask_bits :: "u8 \<Rightarrow> bool \<Rightarrow> u8 \<Rightarrow> u8" where
  "mask_bits m b old = (if b then old OR m else old AND NOT m)"

lemma bit_set_bits: "k < 8 \<Longrightarrow> bit (mask_bits m b old) k = (if bit m k then b else bit old k)"
  by (simp add: mask_bits_def bit_simps)

lemma draw_plane_eq: "p < 4 \<Longrightarrow>
  draw_plane i m c p s = with_plane p (\<lambda>f. f(i := mask_bits m (bit c p) (f i))) (select_plane p s)"
  by (simp add: draw_plane_def Let_def color_test store_selected [OF select_plane_selected] load_selected [OF select_plane_selected]
      mask_bits_def with_plane_def del: push_bit_of_1)

lemma planes_draw_planes:
  "q < 4 \<Longrightarrow> planes (fold (draw_plane i m c) [0..<4] s) q = (planes s q)(i := mask_bits m (bit c q) (planes s q i))"
proof -
  have "[0..<4] = [0, 1, 2, 3 :: nat]" by (simp add: upt_rec)
  moreover assume "q < 4"
  ultimately show ?thesis by (simp only: less_4_cases) (auto simp: draw_plane_eq)
qed

lemma and_7: "0 \<le> x \<Longrightarrow> (x :: int) AND 7 = x mod 8"
  using take_bit_eq_mask [of 3 x] by (simp add: mask_eq_exp_minus_1 take_bit_eq_mod)

lemma byte_index_inj:
  assumes "on_screen x y" "on_screen u v"
  shows "nat (y * 80 + x div 8) = nat (v * 80 + u div 8) \<and> nat (7 - x mod 8) = nat (7 - u mod 8) \<longleftrightarrow> u = x \<and> v = y"
proof -
  have r: "0 \<le> x div 8" "x div 8 < 80" "0 \<le> u div 8" "u div 8 < 80" "0 \<le> y" "0 \<le> v" "x mod 8 < 8" "u mod 8 < 8" "0 \<le> x mod 8" "0 \<le> u mod 8"
    using assms by (auto simp: on_screen_def)
  have "y = v \<and> a = b" if "nat (y * 80 + a) = nat (v * 80 + b)" "0 \<le> a" "a < 80" "0 \<le> b" "b < 80" for a b
  proof -
    have "y * 80 + a = v * 80 + b" using that r(5,6) by simp
    moreover have "y \<le> v" "v \<le> y" using calculation that(2-5) by linarith+
    ultimately show ?thesis by simp
  qed
  note this [of "x div 8" "u div 8"]
  then have "nat (y * 80 + x div 8) = nat (v * 80 + u div 8) \<longleftrightarrow> y = v \<and> x div 8 = u div 8"
    using r(1-4) by auto
  moreover have "nat (7 - x mod 8) = nat (7 - u mod 8) \<longleftrightarrow> x mod 8 = u mod 8"
  proof -
    have "0 \<le> 7 - x mod 8" "0 \<le> 7 - u mod 8" using r by linarith+
    from eq_nat_nat_iff [OF this] show ?thesis by simp
  qed
  ultimately show ?thesis by (metis div_mult_mod_eq)
qed

text \<open>The reference: a pixel takes the colour, every other one stays.\<close>

lemma pixel_draw:
  assumes "on_screen u v" "p < 4"
  shows "pixel (vga_draw_pixel x y c s) p u v = (if u = x \<and> v = y then bit c p else pixel s p u v)"
proof (cases "on_screen x y")
  case False
  with assms show ?thesis by (auto simp: vga_draw_pixel_def on_screen_def)
next
  case True
  let ?i = "nat (y * 80 + x div 8)" and ?m = "push_bit (nat (7 - x mod 8)) 1 :: u8"
  have "vga_draw_pixel x y c s = fold (draw_plane ?i ?m c) [0..<4] s"
    using True by (simp add: vga_draw_pixel_def on_screen_def and_7 drop_bit_eq_div del: push_bit_of_1)
  then have planes: "planes (vga_draw_pixel x y c s) p = (planes s p)(?i := mask_bits ?m (bit c p) (planes s p ?i))"
    using planes_draw_planes [OF assms(2)] by (simp only:)
  have k: "nat (7 - u mod 8) < 8" "nat (7 - x mod 8) < 8"
    using pos_mod_sign [of 8 u] pos_mod_sign [of 8 x] by linarith+
  have "bit ?m (nat (7 - u mod 8)) \<longleftrightarrow> nat (7 - x mod 8) = nat (7 - u mod 8)"
    using k by (auto simp: bit_exp_iff)
  note m = bit_set_bits [OF k(1), of ?m "bit c p", unfolded this]
  note same = byte_index_inj [OF True assms(1)]
  show ?thesis
  proof (cases "?i = nat (v * 80 + u div 8)")
    case eq: True
    then show ?thesis using same unfolding pixel_def planes by (simp add: m del: push_bit_of_1)
  next
    case False
    then have "\<not> (u = x \<and> v = y)" by blast
    with False show ?thesis unfolding pixel_def planes by (auto simp del: push_bit_of_1)
  qed
qed

text \<open>Boxes of pixels and glyphs.\<close>

lemma pixel_draw_row:
  assumes "on_screen u v" "p < 4"
  shows "pixel (fold (\<lambda>dx. vga_draw_pixel (px + int dx) y c) [0..<n] s) p u v =
    (if px \<le> u \<and> u < px + int n \<and> v = y then bit c p else pixel s p u v)"
  using assms by (induction n) (auto simp: pixel_draw)

lemma pixel_draw_box:
  assumes "on_screen u v" "p < 4"
  shows "pixel (draw_box px py rows c s) p u v =
    (if px \<le> u \<and> u < px + 8 \<and> (\<exists>r\<in>set rows. v = py + int r) then bit c p else pixel s p u v)"
  using assms by (induction rows arbitrary: s) (auto simp: draw_box_def pixel_draw_row [where n = 8])

lemma pixel_draw_glyph_row:
  assumes "on_screen u v" "p < 4"
  shows "pixel (fold (\<lambda>col s. if P col then vga_draw_pixel (x + int col) y c s else s) [0..<n] s) p u v =
    (if x \<le> u \<and> u < x + int n \<and> P (nat (u - x)) \<and> v = y then bit c p else pixel s p u v)"
  using assms by (induction n) (auto simp: pixel_draw nat_less_iff)

lemma pixel_draw_glyph:
  assumes "on_screen u v" "p < 4"
  shows "pixel (draw_glyph g x y c s) p u v =
    (if x \<le> u \<and> u < x + 8 \<and> y \<le> v \<and> v < y + 8 \<and> bit (g ! nat (v - y)) (nat (u - x)) then bit c p else pixel s p u v)"
proof -
  have rows: "pixel (fold (\<lambda>row. fold (\<lambda>col s. if g ! row AND push_bit col 1 \<noteq> 0
      then vga_draw_pixel (x + int col) (y + int row) c s else s) [0..<8]) [0..<n] s) p u v =
    (if x \<le> u \<and> u < x + 8 \<and> y \<le> v \<and> v < y + int n \<and> bit (g ! nat (v - y)) (nat (u - x)) then bit c p else pixel s p u v)" for n
  proof (induction n)
    case (Suc n)
    then show ?case using assms
      by (cases "v = y + int n") (auto simp: and_exp_eq_0_iff_not_bit nat_less_iff pixel_draw_glyph_row [where n = 8])
  qed auto
  from rows [of 8] show ?thesis by (simp add: draw_glyph_def)
qed

text \<open>A printable character fills its 8x8 cell with its glyph over black.\<close>

lemma pixel_draw_char:
  assumes "on_screen u v" "p < 4"
  shows "pixel (vga_draw_char col row ch c s) p u v =
    (if 32 \<le> sint ch \<and> sint ch \<le> 126 \<and> u div 8 = col \<and> v div 8 = row
     then bit (font8x8 ! nat (sint ch - 32) ! nat (v mod 8)) (nat (u mod 8)) \<and> bit c p
     else pixel s p u v)"
proof (cases "32 \<le> sint ch \<and> sint ch \<le> 126")
  case True
  have cell: "b * 8 \<le> a \<and> a < b * 8 + 8 \<longleftrightarrow> a div 8 = b" for a b :: int by auto
  have box: "(\<exists>r\<in>set [0..<8]. v = y + int r) \<longleftrightarrow> y \<le> v \<and> v < y + 8" for y
  proof
    assume "y \<le> v \<and> v < y + 8"
    then show "\<exists>r\<in>set [0..<8]. v = y + int r" by (intro bexI [of _ "nat (v - y)"]) (auto simp: nat_less_iff)
  qed auto
  let ?g = "font8x8 ! nat (sint ch - 32)"
  have eq: "vga_draw_char col row ch c s = draw_glyph ?g (col * 8) (row * 8) c (draw_box (col * 8) (row * 8) [0..<8] 0x00 s)"
    using True unfolding vga_draw_char_def Let_def by (simp only: not_less [symmetric]) simp
  have "pixel (draw_glyph ?g x y c (draw_box x y [0..<8] 0x00 s)) p u v =
      (if (x \<le> u \<and> u < x + 8) \<and> (y \<le> v \<and> v < y + 8) then bit (?g ! nat (v - y)) (nat (u - x)) \<and> bit c p else pixel s p u v)" for x y
    unfolding pixel_draw_glyph [OF assms] pixel_draw_box [OF assms] box by simp
  note this [of "col * 8" "row * 8", unfolded cell]
  moreover have "nat (v - row * 8) = nat (v mod 8)" if "v div 8 = row" using that by (auto simp: minus_div_mult_eq_mod)
  moreover have "nat (u - col * 8) = nat (u mod 8)" if "u div 8 = col" using that by (auto simp: minus_div_mult_eq_mod)
  ultimately show ?thesis using True unfolding eq by simp
next
  case False
  then show ?thesis by (auto simp: vga_draw_char_def)
qed

subsection \<open>Block fills\<close>

lemma byte_row_inj:
  assumes "0 \<le> w" "0 \<le> c" "c < 80" "on_screen u v"
  shows "nat (v * 80 + u div 8) = nat (w * 80 + c) \<longleftrightarrow> v = w \<and> u div 8 = c"
proof -
  have r: "0 \<le> u div 8" "u div 8 < 80" "0 \<le> v" using assms(4) by (auto simp: on_screen_def)
  have "v = w \<and> u div 8 = c" if "nat (v * 80 + u div 8) = nat (w * 80 + c)"
  proof -
    have "v * 80 + u div 8 = w * 80 + c" using that r assms(1,2) by simp
    moreover have "v \<le> w" "w \<le> v" using calculation r assms(2,3) by linarith+
    ultimately show ?thesis by simp
  qed
  then show ?thesis by blast
qed

lemma bit_index: "nat (7 - u mod 8 :: int) < 8"
  using pos_mod_sign [of 8 u] by linarith

lemma bit_byte_update:
  assumes "0 \<le> w" "0 \<le> c" "c < 80" "on_screen u v"
  shows "bit ((f(nat (w * 80 + c) := mask_bits m b (f (nat (w * 80 + c))))) (nat (v * 80 + u div 8))) (nat (7 - u mod 8)) =
    (if v = w \<and> u div 8 = c \<and> bit m (nat (7 - u mod 8)) then b else bit (f (nat (v * 80 + u div 8))) (nat (7 - u mod 8)))"
proof (cases "nat (v * 80 + u div 8) = nat (w * 80 + c)")
  case True
  then show ?thesis using byte_row_inj [OF assms] bit_set_bits [OF bit_index, of m b] by simp
next
  case False
  then have "\<not> (v = w \<and> u div 8 = c)" using byte_row_inj [OF assms] by blast
  with False show ?thesis by auto
qed

lemma bit_left: "j \<le> 8 \<Longrightarrow> bit (drop_bit j (0xFF :: u8)) (nat (7 - u mod 8)) \<longleftrightarrow> int j \<le> u mod 8"
proof -
  have ff: "(0xFF :: u8) = - 1" by simp
  have "0 \<le> u mod 8" "u mod 8 < 8" by simp_all
  then show ?thesis unfolding ff by (auto simp: bit_simps)
qed

lemma bit_right: "0 < j \<Longrightarrow> j \<le> 8 \<Longrightarrow> bit (push_bit (8 - j) (0xFF :: u8)) (nat (7 - u mod 8)) \<longleftrightarrow> u mod 8 < int j"
proof -
  assume "0 < j" "j \<le> 8"
  have ff: "(0xFF :: u8) = - 1" by simp
  have "0 \<le> u mod 8" "u mod 8 < 8" by simp_all
  then show ?thesis using \<open>0 < j\<close> \<open>j \<le> 8\<close> unfolding ff by (auto simp: bit_simps)
qed

lemma span_8: "x \<le> u \<and> u < x + 8 \<longleftrightarrow>
    (u div 8 = x div 8 \<and> x mod 8 \<le> u mod 8) \<or> (u div 8 = x div 8 + 1 \<and> u mod 8 < x mod (8 :: int))"
proof -
  have "x = 8 * (x div 8) + x mod 8" "u = 8 * (u div 8) + u mod 8" "0 \<le> x mod 8" "x mod 8 < 8" "0 \<le> u mod 8" "u mod 8 < 8" by simp_all
  then show ?thesis by (smt (verit))
qed

text \<open>The bits of the value that fills a plane.\<close>

definition full_byte :: "bool \<Rightarrow> u8" where
  "full_byte b = (if b then 0xFF else 0x00)"

lemma fill_row_two:
  assumes "p < 4" "selected p s" "j \<noteq> 0"
  shows "fill_row j (full_byte b) y c r s =
    (let i = nat ((y + int r) * 80) + c in
     with_plane p (\<lambda>f. f(i + 1 := mask_bits (push_bit (8 - j) 0xFF) b (f (i + 1))))
       (with_plane p (\<lambda>f. f(i := mask_bits (drop_bit j 0xFF) b (f i))) s))"
proof -
  have if_set: "(if full_byte b \<noteq> 0 then old OR m else old AND NOT m) = mask_bits m b old" for old m
    by (simp add: mask_bits_def full_byte_def)
  show ?thesis
    using assms unfolding fill_row_def Let_def if_set
    by (simp add: store_selected [where p = p] load_selected [where p = p] with_plane_with_plane) (simp add: with_plane_def)
qed

lemma pixel_fill_row:
  assumes "0 \<le> x" "x + 8 \<le> 640" "0 \<le> y" "on_screen u v" "p < 4" "selected p s"
  shows "pixel (fill_row (nat (x AND 7)) (full_byte b) y (nat (drop_bit 3 x)) r s) p u v =
    (if x \<le> u \<and> u < x + 8 \<and> v = y + int r then b else pixel s p u v)"
proof -
  have x: "x AND 7 = x mod 8" "drop_bit 3 x = x div 8" "0 \<le> x mod 8" "0 \<le> x div 8" "x mod 8 < 8" "0 \<le> y + int r"
    using assms by (simp_all add: and_7 drop_bit_eq_div)
  have at: "nat ((y + int r) * 80) + nat (x div 8) = nat ((y + int r) * 80 + x div 8)"
      "nat ((y + int r) * 80 + x div 8) + 1 = nat ((y + int r) * 80 + (x div 8 + 1))"
    using x by (simp_all add: nat_add_distrib)
  let ?a = "nat ((y + int r) * 80 + x div 8)" and ?b = "nat ((y + int r) * 80 + (x div 8 + 1))"
  have full: "mask_bits 0xFF b old = full_byte b" for old
  proof -
    have ff: "(0xFF :: u8) = - 1" by simp
    have "mask_bits (- 1) b old = (if b then - 1 else 0)" by (simp add: mask_bits_def)
    then show ?thesis unfolding full_byte_def ff by simp
  qed
  have div: "x div 8 < 80" "x mod 8 \<noteq> 0 \<Longrightarrow> x div 8 + 1 < 80" using assms(1,2) x(3) by (presburger, presburger)
  show ?thesis
  proof (cases "x mod 8 = 0")
    case True
    then have "fill_row (nat (x AND 7)) (full_byte b) y (nat (drop_bit 3 x)) r s =
        with_plane p (\<lambda>f. f(?a := mask_bits 0xFF b (f ?a))) s"
      by (simp add: fill_row_def x(1,2) at(1) store_selected [OF assms(6,5)] full Let_def del: distrib_right_numeral)
    then show ?thesis
      using bit_byte_update [OF x(6,4) div(1) assms(4), of "planes s p" "0xFF" b] bit_left [of 0 u] span_8 [of x u] True
      by (auto simp: pixel_def)
  next
    case False
    let ?j = "nat (x mod 8)"
    let ?l = "drop_bit ?j (0xFF :: u8)" and ?r = "push_bit (8 - ?j) (0xFF :: u8)"
    have "fill_row (nat (x AND 7)) (full_byte b) y (nat (drop_bit 3 x)) r s =
        with_plane p (\<lambda>f. f(?b := mask_bits ?r b (f ?b))) (with_plane p (\<lambda>f. f(?a := mask_bits ?l b (f ?a))) s)"
    proof -
      have "?j \<noteq> 0" using False x(3) by simp
      from fill_row_two [OF assms(5,6) this, of b y "nat (x div 8)" r] show ?thesis unfolding x(1,2) Let_def at .
    qed
    then have "pixel (fill_row (nat (x AND 7)) (full_byte b) y (nat (drop_bit 3 x)) r s) p u v =
      (if v = y + int r \<and> u div 8 = x div 8 + 1 \<and> bit ?r (nat (7 - u mod 8)) then b
       else if v = y + int r \<and> u div 8 = x div 8 \<and> bit ?l (nat (7 - u mod 8)) then b else pixel s p u v)"
      using x(4) div False
      by (simp only: pixel_def planes_with_plane bit_byte_update [OF x(6) _ _ assms(4)] simp_thms if_True)
    moreover have "bit ?r (nat (7 - u mod 8)) \<longleftrightarrow> u mod 8 < x mod 8" "bit ?l (nat (7 - u mod 8)) \<longleftrightarrow> x mod 8 \<le> u mod 8"
      using bit_right [of ?j u] bit_left [of ?j u] x(3,5) False by auto
    ultimately show ?thesis using span_8 [of x u] by auto
  qed
qed

text \<open>The fill keeps the selection of its plane, and changes no other plane.\<close>

lemma fill_row_keeps:
  assumes "p < 4" "selected p s"
  shows "selected p (fill_row j val y c r s)" "q \<noteq> p \<Longrightarrow> planes (fill_row j val y c r s) q = planes s q"
  using assms by (simp_all add: fill_row_def Let_def store_selected)

lemma fill_rows_keep:
  assumes "p < 4" "selected p s"
  shows "selected p (fold (fill_row j val y c) rs s) \<and> (q \<noteq> p \<longrightarrow> planes (fold (fill_row j val y c) rs s) q = planes s q)"
  using assms by (induction rs arbitrary: s) (simp_all add: fill_row_keeps)

lemma pixel_fill_rows:
  assumes "0 \<le> x" "x + 8 \<le> 640" "0 \<le> y" "on_screen u v" "p < 4" "selected p s"
  shows "pixel (fold (fill_row (nat (x AND 7)) (full_byte b) y (nat (drop_bit 3 x))) [0..<n] s) p u v =
    (if x \<le> u \<and> u < x + 8 \<and> y \<le> v \<and> v < y + int n then b else pixel s p u v)"
  using assms
  by (induction n) (auto simp: pixel_fill_row fill_rows_keep)

definition fill_plane :: "int \<Rightarrow> int \<Rightarrow> u8 \<Rightarrow> nat \<Rightarrow> vga \<Rightarrow> vga" where
  "fill_plane x y color plane s =
     fold (fill_row (nat (x AND 7)) (full_byte (bit color plane)) y (nat (drop_bit 3 x))) [0..<8] (select_plane plane s)"

lemma pixel_fill_plane:
  assumes "0 \<le> x" "x + 8 \<le> 640" "0 \<le> y" "on_screen u v" "q < 4" "p < 4"
  shows "pixel (fill_plane x y c q s) p u v =
    (if p = q \<and> x \<le> u \<and> u < x + 8 \<and> y \<le> v \<and> v < y + 8 then bit c p else pixel s p u v)"
proof (cases "p = q")
  case True
  then show ?thesis
    using pixel_fill_rows [OF assms(1-4,6) select_plane_selected [OF assms(6)], of "bit c p" 8 s] by (simp add: fill_plane_def pixel_def)
next
  case False
  then show ?thesis
    using fill_rows_keep [OF assms(5) select_plane_selected [OF assms(5)], of _ _ _ _ _ s p] by (simp add: fill_plane_def pixel_def)
qed

lemma fill8x8_eq:
  assumes "0 \<le> x" "x + 8 \<le> 640" "0 \<le> y" "y + 8 \<le> 480"
  shows "vga_fill8x8 x y c s = fold (fill_plane x y c) [0, 1, 2, 3] s"
proof -
  have "[0..<4] = [0, 1, 2, 3 :: nat]" by (simp add: upt_rec)
  moreover have "(\<lambda>plane s. let s = select_plane plane s;
       planeValue = (if c AND push_bit plane 1 \<noteq> 0 then 0xFF else 0x00)
     in fold (fill_row (nat (x AND 7)) planeValue y (nat (drop_bit 3 x))) [0..<8] s) = fill_plane x y c"
    by (intro ext) (simp add: fill_plane_def full_byte_def Let_def and_exp_eq_0_iff_not_bit)
  moreover have "\<not> (x < 0 \<or> x + 8 > VGA_WIDTH \<or> y < 0 \<or> y + 8 > VGA_HEIGHT)" using assms by auto
  ultimately show ?thesis unfolding vga_fill8x8_def by (simp only: if_not_P if_False Let_def)
qed

text \<open>The planar fill against the reference that draws its 64 pixels one by one.\<close>

lemma pixel_fill8x8:
  assumes "on_screen u v" "p < 4"
  shows "pixel (vga_fill8x8 x y c s) p u v =
    (if 0 \<le> x \<and> x + 8 \<le> 640 \<and> 0 \<le> y \<and> y + 8 \<le> 480 \<and> x \<le> u \<and> u < x + 8 \<and> y \<le> v \<and> v < y + 8
     then bit c p else pixel s p u v)"
proof (cases "0 \<le> x \<and> x + 8 \<le> 640 \<and> 0 \<le> y \<and> y + 8 \<le> 480")
  case True
  then have "pixel (fold (fill_plane x y c) ps s) p u v =
      (if p \<in> set ps \<and> x \<le> u \<and> u < x + 8 \<and> y \<le> v \<and> v < y + 8 then bit c p else pixel s p u v)"
    if "\<forall>q\<in>set ps. q < 4" for ps s
    using that assms by (induction ps arbitrary: s) (auto simp: pixel_fill_plane)
  from this [of "[0, 1, 2, 3]" s] show ?thesis using fill8x8_eq [of x y c s] True assms(2) by (auto simp: less_4_cases)
next
  case False
  then show ?thesis by (auto simp: vga_fill8x8_def)
qed


subsection \<open>Clearing\<close>

lemma store_write_selected: "p < 4 \<Longrightarrow> map_mask s = push_bit p 1 \<Longrightarrow> planes (vga_store i b s) = (planes s)(p := (planes s p)(i := b))"
  by (auto simp: vga_store_def bit_single fun_eq_iff simp del: push_bit_of_1)

lemma store_mask [simp]: "map_mask (vga_store i b s) = map_mask s"
  by (simp add: vga_store_def)

lemma fold_store:
  assumes "p < 4" "map_mask s = push_bit p 1"
  shows "map_mask (fold (\<lambda>i. vga_store i b) [0..<n] s) = push_bit p 1 \<and>
    planes (fold (\<lambda>i. vga_store i b) [0..<n] s) = (planes s)(p := (\<lambda>i. if i < n then b else planes s p i))"
  using assms
  by (induction n) (auto simp: store_write_selected fun_eq_iff less_Suc_eq simp del: push_bit_of_1)

lemma planes_clear_plane:
  assumes "p < 4"
  shows "planes (clear_plane c p s) =
    (planes s)(p := (\<lambda>i. if i < 38400 then full_byte (bit c p) else planes s p i))"
proof -
  have "map_mask (select_write p s) = push_bit p 1"
    by (simp add: select_write_def vga_out_def vga_ports)
  from fold_store [OF assms this, of "full_byte (bit c p)" 38400]
  show ?thesis by (simp add: clear_plane_def full_byte_def and_exp_eq_0_iff_not_bit cong: if_cong)
qed

lemma pixel_clear:
  assumes "on_screen u v" "p < 4"
  shows "pixel (vga_clear c s) p u v = bit c p"
proof -
  have r: "0 \<le> u div 8" "u div 8 < 80" "0 \<le> v" "v < 480" using assms(1) by (auto simp: on_screen_def)
  then have "v * 80 + u div 8 < 38400" by linarith
  with r have i: "nat (v * 80 + u div 8) < 38400" by simp
  have "[0..<4] = [0, 1, 2, 3 :: nat]" by (simp add: upt_rec)
  then have "planes (vga_clear c s) p (nat (v * 80 + u div 8)) = full_byte (bit c p)"
    using assms(2) i by (auto simp: vga_clear_def planes_clear_plane less_4_cases)
  moreover have "bit (full_byte b) k \<longleftrightarrow> b" if "k < 8" for b k
  proof -
    have ff: "(0xFF :: u8) = - 1" by simp
    show ?thesis using that unfolding full_byte_def ff by simp
  qed
  ultimately show ?thesis using bit_index by (simp add: pixel_def)
qed

end
