(* ===== verification/Keyboard.thy ===== *)
theory Keyboard
  imports Prelude
begin

section \<open>The keyboard: \<open>drivers/keyboard.c\<close>\<close>

text \<open>
  The state of the driver and its interrupt handler as a function of the scancode read from the
  port. The acknowledgement to the interrupt controller is the list of port writes of \<open>pic_ack\<close>
  (\<open>cpu/interrupt.c\<close>).
\<close>

subsection \<open>State\<close>

record keyboard =
  read_extended_mode :: bool
  keyboard_input_on :: bool
  keyboard_buffer :: u8
  shift_pressed :: bool
  caps_lock_on :: bool
  special_key :: u8

definition SCANCODE_SHIFT_LEFT :: u8 where "SCANCODE_SHIFT_LEFT = 0x2A"
definition SCANCODE_SHIFT_RIGHT :: u8 where "SCANCODE_SHIFT_RIGHT = 0x36"
definition SCANCODE_CAPS_LOCK :: u8 where "SCANCODE_CAPS_LOCK = 0x3A"
definition EXT_SCANCODE_UP :: u8 where "EXT_SCANCODE_UP = 0x48"
definition EXT_SCANCODE_DOWN :: u8 where "EXT_SCANCODE_DOWN = 0x50"
definition EXT_SCANCODE_LEFT :: u8 where "EXT_SCANCODE_LEFT = 0x4B"
definition EXT_SCANCODE_RIGHT :: u8 where "EXT_SCANCODE_RIGHT = 0x4D"
definition KEY_NONE :: u8 where "KEY_NONE = 0x00"
definition KEY_UP :: u8 where "KEY_UP = 0x01"
definition KEY_DOWN :: u8 where "KEY_DOWN = 0x02"
definition KEY_LEFT :: u8 where "KEY_LEFT = 0x03"
definition KEY_RIGHT :: u8 where "KEY_RIGHT = 0x04"
definition EXTENDED_SCANCODE_BYTE :: u8 where "EXTENDED_SCANCODE_BYTE = 0xE0"

lemmas scancodes = SCANCODE_SHIFT_LEFT_def SCANCODE_SHIFT_RIGHT_def SCANCODE_CAPS_LOCK_def EXTENDED_SCANCODE_BYTE_def
  EXT_SCANCODE_UP_def EXT_SCANCODE_DOWN_def EXT_SCANCODE_LEFT_def EXT_SCANCODE_RIGHT_def
lemmas special_keys = KEY_NONE_def KEY_UP_def KEY_DOWN_def KEY_LEFT_def KEY_RIGHT_def

definition keyboard_scancode_1_to_ascii_map :: "u8 list" where
  "keyboard_scancode_1_to_ascii_map = [
    0, 0x1B, 0x31, 0x32, 0x33, 0x34, 0x35, 0x36, 0x37, 0x38, 0x39, 0x30, 0x2D, 0x3D, 0x08, 0x09,
    0x71, 0x77, 0x65, 0x72, 0x74, 0x79, 0x75, 0x69, 0x6F, 0x70, 0x5B, 0x5D, 0x0A, 0, 0x61, 0x73,
    0x64, 0x66, 0x67, 0x68, 0x6A, 0x6B, 0x6C, 0x3B, 0x27, 0x60, 0, 0x5C, 0x7A, 0x78, 0x63, 0x76,
    0x62, 0x6E, 0x6D, 0x2C, 0x2E, 0x2F, 0, 0x2A, 0, 0x20, 0, 0, 0, 0, 0, 0,
    0, 0, 0, 0, 0, 0, 0, 0, 0, 0, 0x2D, 0, 0, 0, 0x2B, 0,
    0, 0, 0, 0, 0, 0, 0, 0, 0, 0, 0, 0, 0, 0, 0, 0,
    0, 0, 0, 0, 0, 0, 0, 0, 0, 0, 0, 0, 0, 0, 0, 0,
    0, 0, 0, 0, 0, 0, 0, 0, 0, 0, 0, 0, 0, 0, 0, 0,
    0, 0, 0, 0, 0, 0, 0, 0, 0, 0, 0, 0, 0, 0, 0, 0,
    0, 0, 0, 0, 0, 0, 0, 0, 0, 0, 0, 0, 0, 0, 0, 0,
    0, 0, 0, 0, 0, 0, 0, 0, 0, 0, 0, 0, 0, 0, 0, 0,
    0, 0, 0, 0, 0, 0, 0, 0, 0, 0, 0, 0, 0, 0, 0, 0,
    0, 0, 0, 0, 0, 0, 0, 0, 0, 0, 0, 0, 0, 0, 0, 0,
    0, 0, 0, 0, 0, 0, 0, 0, 0, 0, 0, 0, 0, 0, 0, 0,
    0, 0, 0, 0, 0, 0, 0, 0, 0, 0, 0, 0, 0, 0, 0, 0,
    0, 0, 0, 0, 0, 0, 0, 0, 0, 0, 0, 0, 0, 0, 0, 0]"

text \<open>The second table gives its first half; C sets the rest to 0.\<close>

definition keyboard_scancode_1_to_ascii_uppercase_map :: "u8 list" where
  "keyboard_scancode_1_to_ascii_uppercase_map = [
    0, 0x1B, 0x21, 0x40, 0x23, 0x24, 0x25, 0x5E, 0x26, 0x2A, 0x28, 0x29, 0x5F, 0x2B, 0x08, 0x09,
    0x51, 0x57, 0x45, 0x52, 0x54, 0x59, 0x55, 0x49, 0x4F, 0x50, 0x7B, 0x7D, 0x0A, 0, 0x41, 0x53,
    0x44, 0x46, 0x47, 0x48, 0x4A, 0x4B, 0x4C, 0x3A, 0x22, 0x7E, 0, 0x7C, 0x5A, 0x58, 0x43, 0x56,
    0x42, 0x4E, 0x4D, 0x3C, 0x3E, 0x3F, 0, 0x2A, 0, 0x20, 0, 0, 0, 0, 0, 0,
    0, 0, 0, 0, 0, 0, 0, 0, 0, 0, 0x2D, 0, 0, 0, 0x2B, 0,
    0, 0, 0, 0, 0, 0, 0, 0, 0, 0, 0, 0, 0, 0, 0, 0,
    0, 0, 0, 0, 0, 0, 0, 0, 0, 0, 0, 0, 0, 0, 0, 0,
    0, 0, 0, 0, 0, 0, 0, 0, 0, 0, 0, 0, 0, 0, 0, 0] @ replicate 128 0"

definition keyboard_init :: keyboard where
  "keyboard_init = \<lparr>read_extended_mode = False, keyboard_input_on = False, keyboard_buffer = 0, shift_pressed = False,
     caps_lock_on = False, special_key = 0\<rparr>"

subsection \<open>Operations\<close>

definition keyboard_state_activate :: "keyboard \<Rightarrow> keyboard" where
  "keyboard_state_activate s =
     s\<lparr>keyboard_input_on := True, read_extended_mode := False, keyboard_buffer := 0, shift_pressed := False,
       caps_lock_on := False, special_key := KEY_NONE\<rparr>"

definition keyboard_state_deactivate :: "keyboard \<Rightarrow> keyboard" where
  "keyboard_state_deactivate s = s\<lparr>keyboard_input_on := False\<rparr>"

definition get_keyboard_buffer :: "keyboard \<Rightarrow> u8 \<times> keyboard" where
  "get_keyboard_buffer s = (keyboard_buffer s, s\<lparr>keyboard_buffer := 0\<rparr>)"

definition get_special_key :: "keyboard \<Rightarrow> u8 \<times> keyboard" where
  "get_special_key s = (special_key s, s\<lparr>special_key := KEY_NONE\<rparr>)"

definition is_shift_pressed :: "keyboard \<Rightarrow> bool" where "is_shift_pressed s = shift_pressed s"
definition is_caps_lock_on :: "keyboard \<Rightarrow> bool" where "is_caps_lock_on s = caps_lock_on s"

definition key_make :: "u8 \<Rightarrow> keyboard \<Rightarrow> keyboard" where
  "key_make scancode s =
     (let use_uppercase = (shift_pressed s \<noteq> caps_lock_on s) in
      if caps_lock_on s \<and> \<not> shift_pressed s
      then let c = keyboard_scancode_1_to_ascii_map ! unat scancode
           in if c \<ge> 0x61 \<and> c \<le> 0x7A then s\<lparr>keyboard_buffer := c - 32\<rparr> else s\<lparr>keyboard_buffer := c\<rparr>
      else let mapped = (if use_uppercase then keyboard_scancode_1_to_ascii_uppercase_map ! unat scancode
                         else keyboard_scancode_1_to_ascii_map ! unat scancode)
           in if mapped \<noteq> 0 then s\<lparr>keyboard_buffer := mapped\<rparr> else s)"

definition key_extended :: "u8 \<Rightarrow> keyboard \<Rightarrow> keyboard" where
  "key_extended clean_scancode s =
     (if clean_scancode = EXT_SCANCODE_UP then s\<lparr>special_key := KEY_UP\<rparr>
      else if clean_scancode = EXT_SCANCODE_DOWN then s\<lparr>special_key := KEY_DOWN\<rparr>
      else if clean_scancode = EXT_SCANCODE_LEFT then s\<lparr>special_key := KEY_LEFT\<rparr>
      else if clean_scancode = EXT_SCANCODE_RIGHT then s\<lparr>special_key := KEY_RIGHT\<rparr>
      else s)"

definition keyboard_isr :: "u8 \<Rightarrow> keyboard \<Rightarrow> keyboard" where
  "keyboard_isr scancode s =
     (if keyboard_input_on s then
        if scancode = EXTENDED_SCANCODE_BYTE then s\<lparr>read_extended_mode := True\<rparr>
        else
          let is_break_code = (scancode AND 0x80 \<noteq> 0);
              clean_scancode = scancode AND 0x7F
          in if \<not> read_extended_mode s then
               if clean_scancode = SCANCODE_SHIFT_LEFT \<or> clean_scancode = SCANCODE_SHIFT_RIGHT
               then s\<lparr>shift_pressed := \<not> is_break_code\<rparr>
               else if clean_scancode = SCANCODE_CAPS_LOCK \<and> \<not> is_break_code
               then s\<lparr>caps_lock_on := \<not> caps_lock_on s\<rparr>
               else if \<not> is_break_code then key_make scancode s
               else s
             else if \<not> is_break_code then (key_extended clean_scancode s)\<lparr>read_extended_mode := False\<rparr>
             else s\<lparr>read_extended_mode := False\<rparr>
      else s)"

definition PIC1_COMMAND :: u16 where "PIC1_COMMAND = 0x20"
definition PIC2_COMMAND :: u16 where "PIC2_COMMAND = 0xA0"
definition PIC_ACK :: u8 where "PIC_ACK = 0x20"

definition pic_ack :: "u8 \<Rightarrow> (u16 \<times> u8) list" where
  "pic_ack irq = (if irq \<ge> 8 then [(PIC2_COMMAND, PIC_ACK)] else []) @ [(PIC1_COMMAND, PIC_ACK)]"

subsection \<open>What is typed\<close>

lemma length_maps [simp]:
  "length keyboard_scancode_1_to_ascii_map = 256" "length keyboard_scancode_1_to_ascii_uppercase_map = 256"
  by (simp_all add: keyboard_scancode_1_to_ascii_map_def keyboard_scancode_1_to_ascii_uppercase_map_def)

definition is_letter :: "u8 \<Rightarrow> bool" where
  "is_letter c \<longleftrightarrow> 0x61 \<le> c \<and> c \<le> 0x7A"

lemma maps_agree:
  "list_all2 (\<lambda>l u. (is_letter l \<longrightarrow> u = l - 32) \<and> (l \<noteq> 0 \<longrightarrow> u \<noteq> 0))
     keyboard_scancode_1_to_ascii_map keyboard_scancode_1_to_ascii_uppercase_map"
  by code_simp

lemma break_bit: "(c :: u8) AND 0x80 \<noteq> 0 \<longleftrightarrow> 0x80 \<le> c"
proof -
  have "c AND 0x80 = 0 \<longleftrightarrow> \<not> bit c 7" using and_exp_eq_0_iff_not_bit [of c 7] by simp
  moreover have "bit c 7 \<longleftrightarrow> 0x80 \<le> c"
  proof -
    have "unat c < 256" by (rule unat_u8_less)
    moreover have "bit (unat c) 7 \<longleftrightarrow> bit c 7" by (simp add: bit_unsigned_iff)
    moreover have "bit (unat c) 7 \<longleftrightarrow> odd (unat c div 128)" by (simp add: bit_nat_def)
    moreover have "odd (n div 128) \<longleftrightarrow> 128 \<le> n" if "n < 256" for n :: nat
    proof (cases "128 \<le> n")
      case True
      then have "n div 128 = 1" using that by (intro div_nat_eqI) simp_all
      with True show ?thesis by simp
    qed simp
    ultimately show ?thesis by (simp add: word_le_nat_alt)
  qed
  ultimately show ?thesis by simp
qed

lemma clean_bits: "(c :: u8) AND 0x7F = take_bit 7 c"
  using take_bit_eq_mask [of 7 c] by (simp add: mask_eq_exp_minus_1)

lemma make_code: "(c :: u8) < 0x80 \<Longrightarrow> c AND 0x7F = c \<and> \<not> c AND 0x80 \<noteq> 0"
proof -
  assume c: "c < 0x80"
  then have "take_bit 7 c = c" by (simp add: word_unat_eq_iff unsigned_take_bit_eq take_bit_nat_eq_self word_less_nat_alt)
  then show ?thesis using c unfolding break_bit clean_bits by simp
qed

lemma map_facts:
  assumes "unat c < 256"
  shows "is_letter (keyboard_scancode_1_to_ascii_map ! unat c) \<Longrightarrow>
      keyboard_scancode_1_to_ascii_uppercase_map ! unat c = keyboard_scancode_1_to_ascii_map ! unat c - 32"
    "keyboard_scancode_1_to_ascii_map ! unat c \<noteq> 0 \<Longrightarrow> keyboard_scancode_1_to_ascii_uppercase_map ! unat c \<noteq> 0"
  using maps_agree assms by (simp_all add: list_all2_conv_all_nth)

definition modifier :: "u8 \<Rightarrow> bool" where
  "modifier c \<longleftrightarrow> c AND 0x7F = SCANCODE_SHIFT_LEFT \<or> c AND 0x7F = SCANCODE_SHIFT_RIGHT \<or> c AND 0x7F = SCANCODE_CAPS_LOCK"

lemma typed_key:
  assumes "keyboard_input_on s" "\<not> read_extended_mode s" "c < 0x80" "\<not> modifier c"
    "keyboard_scancode_1_to_ascii_map ! unat c \<noteq> 0"
  shows "keyboard_isr c s = s\<lparr>keyboard_buffer :=
    (let l = keyboard_scancode_1_to_ascii_map ! unat c; u = keyboard_scancode_1_to_ascii_uppercase_map ! unat c in
     if is_letter l then (if shift_pressed s \<noteq> caps_lock_on s then u else l)
     else if shift_pressed s \<and> \<not> caps_lock_on s then u else l)\<rparr>"
proof -
  have "c \<noteq> EXTENDED_SCANCODE_BYTE" using assms(3) by (auto simp: EXTENDED_SCANCODE_BYTE_def)
  moreover note map_facts [of c] unat_u8_less [of c] make_code [OF assms(3)]
  ultimately show ?thesis
    using assms by (auto simp: keyboard_isr_def key_make_def modifier_def Let_def is_letter_def)
qed

subsection \<open>Sequences of scancodes\<close>

text \<open>The codes outside extended sequences.\<close>

fun base_codes :: "bool \<Rightarrow> u8 list \<Rightarrow> u8 list" where
  "base_codes ext [] = []"
| "base_codes ext (c # cs) =
     (if c = EXTENDED_SCANCODE_BYTE then base_codes True cs
      else if ext then base_codes False cs else c # base_codes False cs)"

definition shift_code :: "u8 \<Rightarrow> bool" where
  "shift_code c \<longleftrightarrow> c AND 0x7F = SCANCODE_SHIFT_LEFT \<or> c AND 0x7F = SCANCODE_SHIFT_RIGHT"

lemma key_make_keeps [simp]:
  "keyboard_input_on (key_make c s) = keyboard_input_on s" "read_extended_mode (key_make c s) = read_extended_mode s"
  "shift_pressed (key_make c s) = shift_pressed s" "caps_lock_on (key_make c s) = caps_lock_on s"
  "special_key (key_make c s) = special_key s"
  by (simp_all add: key_make_def Let_def)

lemma key_extended_keeps [simp]:
  "keyboard_input_on (key_extended c s) = keyboard_input_on s" "keyboard_buffer (key_extended c s) = keyboard_buffer s"
  "shift_pressed (key_extended c s) = shift_pressed s" "caps_lock_on (key_extended c s) = caps_lock_on s"
  by (simp_all add: key_extended_def)

text \<open>One scancode: what it does to the mode and the modifiers.\<close>

lemma isr_modes:
  assumes "keyboard_input_on s"
  shows "keyboard_input_on (keyboard_isr c s)" "read_extended_mode (keyboard_isr c s) \<longleftrightarrow> c = EXTENDED_SCANCODE_BYTE"
    "shift_pressed (keyboard_isr c s) =
      (if c \<noteq> EXTENDED_SCANCODE_BYTE \<and> \<not> read_extended_mode s \<and> shift_code c then c < 0x80 else shift_pressed s)"
    "caps_lock_on (keyboard_isr c s) =
      (caps_lock_on s \<noteq> (c \<noteq> EXTENDED_SCANCODE_BYTE \<and> \<not> read_extended_mode s \<and> c = SCANCODE_CAPS_LOCK))"
proof -
  have caps: "c AND 0x7F = SCANCODE_CAPS_LOCK \<and> \<not> c AND 0x80 \<noteq> 0 \<longleftrightarrow> c = SCANCODE_CAPS_LOCK"
    using make_code [of c] unfolding break_bit by (auto simp: scancodes not_le)
  have other: "shift_code c \<Longrightarrow> c \<noteq> SCANCODE_CAPS_LOCK"
    by (auto simp: shift_code_def scancodes)
  show "keyboard_input_on (keyboard_isr c s)" using assms by (simp add: keyboard_isr_def Let_def)
  show "read_extended_mode (keyboard_isr c s) \<longleftrightarrow> c = EXTENDED_SCANCODE_BYTE"
    using assms by (simp add: keyboard_isr_def Let_def)
  show "shift_pressed (keyboard_isr c s) =
      (if c \<noteq> EXTENDED_SCANCODE_BYTE \<and> \<not> read_extended_mode s \<and> shift_code c then c < 0x80 else shift_pressed s)"
    using assms break_bit [of c] by (simp add: keyboard_isr_def Let_def shift_code_def not_le)
  show "caps_lock_on (keyboard_isr c s) =
      (caps_lock_on s \<noteq> (c \<noteq> EXTENDED_SCANCODE_BYTE \<and> \<not> read_extended_mode s \<and> c = SCANCODE_CAPS_LOCK))"
    using assms caps other by (simp add: keyboard_isr_def Let_def shift_code_def)
qed

lemma modifiers_after:
  "keyboard_input_on s \<Longrightarrow>
    (let s' = fold keyboard_isr cs s; base = base_codes (read_extended_mode s) cs in
     shift_pressed s' = (case filter shift_code base of [] \<Rightarrow> shift_pressed s | x # xs \<Rightarrow> last (x # xs) < 0x80) \<and>
     caps_lock_on s' = (caps_lock_on s \<noteq> odd (count_list base SCANCODE_CAPS_LOCK)))"
proof (induction cs arbitrary: s)
  case (Cons c cs)
  note IH = Cons.IH [OF isr_modes(1) [OF Cons.prems], of c] and one = isr_modes(2-4) [OF Cons.prems, of c]
  show ?case
  proof (cases "c = EXTENDED_SCANCODE_BYTE \<or> read_extended_mode s")
    case True
    then have base: "base_codes (read_extended_mode s) (c # cs) = base_codes (c = EXTENDED_SCANCODE_BYTE) cs" by auto
    have same: "shift_pressed (keyboard_isr c s) = shift_pressed s" "caps_lock_on (keyboard_isr c s) = caps_lock_on s"
      using one(2,3) True by auto
    have "fold keyboard_isr (c # cs) s = fold keyboard_isr cs (keyboard_isr c s)" by simp
    then show ?thesis using IH unfolding base one(1) same by simp
  next
    case False
    let ?f = "filter shift_code (base_codes False cs)"
    have base: "base_codes (read_extended_mode s) (c # cs) = c # base_codes False cs" using False by simp
    have fold: "fold keyboard_isr (c # cs) s = fold keyboard_isr cs (keyboard_isr c s)" by simp
    have ext: "read_extended_mode (keyboard_isr c s) = False" using one(1) False by simp
    have last: "(case if shift_code c then c # ?f else ?f of [] \<Rightarrow> shift_pressed s | x # xs \<Rightarrow> last (x # xs) < 0x80) =
        (case ?f of [] \<Rightarrow> if shift_code c then c < 0x80 else shift_pressed s | x # xs \<Rightarrow> last (x # xs) < 0x80)"
      by (cases ?f) simp_all
    have caps: "odd (count_list (c # base_codes False cs) SCANCODE_CAPS_LOCK) =
        ((c = SCANCODE_CAPS_LOCK) \<noteq> odd (count_list (base_codes False cs) SCANCODE_CAPS_LOCK))" by simp
    let ?s' = "fold keyboard_isr cs (keyboard_isr c s)"
    have shift1: "shift_pressed ?s' = (case ?f of [] \<Rightarrow> shift_pressed (keyboard_isr c s) | x # xs \<Rightarrow> last (x # xs) < 0x80)"
      and caps1: "caps_lock_on ?s' = (caps_lock_on (keyboard_isr c s) \<noteq> odd (count_list (base_codes False cs) SCANCODE_CAPS_LOCK))"
      using IH unfolding ext Let_def by blast+
    have sh: "shift_pressed (keyboard_isr c s) = (if shift_code c then c < 0x80 else shift_pressed s)"
      and cp: "caps_lock_on (keyboard_isr c s) = (caps_lock_on s \<noteq> (c = SCANCODE_CAPS_LOCK))"
      using one(2,3) False by simp_all
    show ?thesis unfolding base fold Let_def filter.simps last caps shift1 caps1 sh cp by (intro conjI) (rule refl, argo)
  qed
qed simp

text \<open>Extended sequences, as of the arrow keys, leave the character buffer alone.\<close>

lemma isr_extended_buffer:
  "read_extended_mode s \<or> c = EXTENDED_SCANCODE_BYTE \<Longrightarrow> keyboard_buffer (keyboard_isr c s) = keyboard_buffer s"
  by (auto simp: keyboard_isr_def Let_def)

end
