(* ===== verification/Console.thy ===== *)
theory Console
  imports Graphics Keyboard
begin

section \<open>The console: \<open>drivers/console.c\<close>, \<open>drivers/framebuffer.c\<close>\<close>

text \<open>
  The cursor of the console over the planar screen and the keyboard driver whose arrow keys it
  takes, and the text-mode functions of \<open>framebuffer.c\<close>, which only write to the text memory
  and the cursor ports. Characters are bytes; \<open>char\<close> is signed where it is compared.
\<close>

subsection \<open>State and operations\<close>

record console =
  fb_row :: int
  fb_col :: int
  fb_start_row :: int
  fb_start_col :: int
  screen :: vga
  keys :: keyboard

definition MAX_COLS :: int where "MAX_COLS = 640 div 8"
definition MAX_ROWS :: int where "MAX_ROWS = 480 div 8"

lemma console_consts [simp]: "MAX_COLS = 80" "MAX_ROWS = 60"
  by (simp_all add: MAX_COLS_def MAX_ROWS_def)

definition framebuffer_state :: "vga \<Rightarrow> keyboard \<Rightarrow> console" where
  "framebuffer_state v k = \<lparr>fb_row = 1, fb_col = 0, fb_start_row = 0, fb_start_col = 0, screen = v, keys = k\<rparr>"

definition console_init :: "u8 \<Rightarrow> console \<Rightarrow> console" where
  "console_init tmp s = s\<lparr>screen := vga_init tmp (screen s), keys := keyboard_state_activate (keys s)\<rparr>"

definition update_cursor :: "u8 \<Rightarrow> console \<Rightarrow> console" where
  "update_cursor text_color s = s\<lparr>screen := vga_draw_cursor (fb_col s) (fb_row s) text_color (screen s)\<rparr>"

definition clear_cursor :: "console \<Rightarrow> console" where
  "clear_cursor s = s\<lparr>screen := vga_clear_cursor (fb_col s) (fb_row s) (screen s)\<rparr>"

definition draw_here :: "u8 \<Rightarrow> u8 \<Rightarrow> console \<Rightarrow> console" where
  "draw_here c text_color s = s\<lparr>screen := vga_draw_char (fb_col s) (fb_row s) c text_color (screen s)\<rparr>"

definition step_back :: "console \<Rightarrow> console" where
  "step_back s =
     (if fb_col s > 0 then s\<lparr>fb_col := fb_col s - 1\<rparr>
      else if fb_row s > 0 then s\<lparr>fb_row := fb_row s - 1, fb_col := MAX_COLS - 1\<rparr>
      else s)"

definition new_line :: "console \<Rightarrow> console" where
  "new_line s =
     (let s = s\<lparr>fb_row := fb_row s + 1, fb_col := 0\<rparr>
      in if fb_row s \<ge> MAX_ROWS then s\<lparr>fb_row := MAX_ROWS - 1\<rparr> else s)"

definition putchar :: "u8 \<Rightarrow> u8 \<Rightarrow> console \<Rightarrow> console" where
  "putchar c text_color s =
     (let s = (if c \<noteq> 0 then
                 let s = (if c = 0x08 then draw_here 0x20 text_color (step_back (clear_cursor s))
                          else if c = 0x0A then new_line (clear_cursor s)
                          else let s = draw_here c text_color s;
                                   s = s\<lparr>fb_col := fb_col s + 1\<rparr>
                               in if fb_col s \<ge> MAX_COLS then new_line s else s)
                 in update_cursor text_color s
               else s);
          (key, ks) = get_special_key (keys s);
          s = s\<lparr>keys := ks\<rparr>
      in if key = KEY_LEFT then update_cursor text_color (step_back (clear_cursor s))
         else if key = KEY_RIGHT then
           let s = clear_cursor s;
               s = (if fb_col s < MAX_COLS - 1 then s\<lparr>fb_col := fb_col s + 1\<rparr> else s)
           in update_cursor text_color s
         else s)"

text \<open>The loop of \<open>puts\<close> from index \<open>i\<close> with at most \<open>n\<close> characters left; \<open>None\<close> is the null pointer.\<close>

fun puts_from :: "mem \<Rightarrow> nat \<Rightarrow> nat \<Rightarrow> u8 \<Rightarrow> console \<Rightarrow> console" where
  "puts_from str i 0 text_color s = s"
| "puts_from str i (Suc n) text_color s =
     (if str i \<noteq> 0 then puts_from str (i + 1) n text_color (putchar (str i) text_color s) else s)"

definition puts :: "mem option \<Rightarrow> u32 \<Rightarrow> u8 \<Rightarrow> console \<Rightarrow> console" where
  "puts str count text_color s =
     (case str of None \<Rightarrow> s | Some m \<Rightarrow> puts_from m 0 (unat count) text_color s)"

definition clear_screen :: "console \<Rightarrow> console" where
  "clear_screen s =
     update_cursor 0xF (s\<lparr>screen := vga_clear 0x00 (screen s), fb_col := 0, fb_row := 1\<rparr>)"

text \<open>The text mode.\<close>

definition CURSOR_PORT_CMD :: u16 where "CURSOR_PORT_CMD = 0x03D4"
definition CURSOR_PORT_DATA :: u16 where "CURSOR_PORT_DATA = 0x03D5"

definition framebuffer_set_cursor :: "u8 \<Rightarrow> u8 \<Rightarrow> (u16 \<times> u8) list" where
  "framebuffer_set_cursor r c =
     (let pos = (ucast r :: u16) * 80 + ucast c in
      [(CURSOR_PORT_CMD, 0x0F), (CURSOR_PORT_DATA, ucast (pos AND 0xFF)),
       (CURSOR_PORT_CMD, 0x0E), (CURSOR_PORT_DATA, ucast (drop_bit 8 pos AND 0xFF))])"

definition framebuffer_write :: "u8 \<Rightarrow> u8 \<Rightarrow> u8 \<Rightarrow> u8 \<Rightarrow> u8 \<Rightarrow> mem \<Rightarrow> mem" where
  "framebuffer_write row col c fg bg m =
     (let i = (unat row * 80 + unat col) * 2 in m(i := c, i + 1 := fg OR bg))"

definition framebuffer_clear :: "mem \<Rightarrow> mem" where
  "framebuffer_clear m = fold (\<lambda>i m. m(i * 2 := 0x00, i * 2 + 1 := 0x07)) [0..<80 * 25] m"

subsection \<open>The cursor stays on the screen\<close>

definition cursor_ok :: "console \<Rightarrow> bool" where
  "cursor_ok s \<longleftrightarrow> 0 \<le> fb_row s \<and> fb_row s < 60 \<and> 0 \<le> fb_col s \<and> fb_col s < 80"

lemma cursor_simps [simp]:
  "fb_row (update_cursor c s) = fb_row s" "fb_col (update_cursor c s) = fb_col s" "keys (update_cursor c s) = keys s"
  "fb_row (clear_cursor s) = fb_row s" "fb_col (clear_cursor s) = fb_col s" "keys (clear_cursor s) = keys s"
  "fb_row (draw_here ch c s) = fb_row s" "fb_col (draw_here ch c s) = fb_col s" "keys (draw_here ch c s) = keys s"
  "screen (step_back s) = screen s" "keys (step_back s) = keys s" "screen (new_line s) = screen s" "keys (new_line s) = keys s"
  by (simp_all add: update_cursor_def clear_cursor_def draw_here_def step_back_def new_line_def Let_def)

lemma cursor_ok_moves:
  "cursor_ok s \<Longrightarrow> cursor_ok (step_back s)" "0 \<le> fb_row s \<Longrightarrow> fb_row s < 60 \<Longrightarrow> cursor_ok (new_line s)"
  by (auto simp: cursor_ok_def step_back_def new_line_def Let_def)

lemma cursor_ok_simps [simp]:
  "cursor_ok (update_cursor c s) = cursor_ok s" "cursor_ok (clear_cursor s) = cursor_ok s"
  "cursor_ok (draw_here ch c s) = cursor_ok s" "cursor_ok (s\<lparr>keys := ks\<rparr>) = cursor_ok s" "cursor_ok (s\<lparr>screen := v\<rparr>) = cursor_ok s"
  by (simp_all add: cursor_ok_def)

lemma putchar_cursor_ok:
  assumes "cursor_ok s"
  shows "cursor_ok (putchar c text_color s)"
proof -
  have right: "cursor_ok (s\<lparr>fb_col := n\<rparr>)" if "cursor_ok s" "0 \<le> n" "n < 80" for s n
    using that by (simp add: cursor_ok_def)
  have print: "cursor_ok (if fb_col (s\<lparr>fb_col := fb_col s + 1\<rparr>) \<ge> MAX_COLS then new_line (s\<lparr>fb_col := fb_col s + 1\<rparr>)
      else s\<lparr>fb_col := fb_col s + 1\<rparr>)" if "cursor_ok s" for s
    using that by (auto simp: cursor_ok_def new_line_def Let_def)
  define s1 where "s1 = (if c \<noteq> 0 then
      let s = (if c = 0x08 then draw_here 0x20 text_color (step_back (clear_cursor s))
        else if c = 0x0A then new_line (clear_cursor s)
        else let s = draw_here c text_color s; s = s\<lparr>fb_col := fb_col s + 1\<rparr>
          in if fb_col s \<ge> MAX_COLS then new_line s else s)
      in update_cursor text_color s else s)"
  have "cursor_ok s1"
    using assms print [of "draw_here c text_color s"] cursor_ok_moves [of "clear_cursor s"]
    by (auto simp: s1_def Let_def cursor_ok_moves cursor_ok_def)
  then have s2: "cursor_ok (s1\<lparr>keys := k\<rparr>)" and pos: "0 \<le> fb_col s1" for k by (simp, simp add: cursor_ok_def)
  have eq: "putchar c text_color s = (let (key, ks) = get_special_key (keys s1); s = s1\<lparr>keys := ks\<rparr>
      in if key = KEY_LEFT then update_cursor text_color (step_back (clear_cursor s))
         else if key = KEY_RIGHT then
           let s = clear_cursor s; s = (if fb_col s < MAX_COLS - 1 then s\<lparr>fb_col := fb_col s + 1\<rparr> else s)
           in update_cursor text_color s
         else s)" unfolding putchar_def s1_def [symmetric] by (simp add: Let_def)
  show ?thesis
    unfolding eq get_special_key_def Let_def prod.case
    using s2 pos by (auto intro!: cursor_ok_moves right)
qed

lemma puts_cursor_ok: "cursor_ok s \<Longrightarrow> cursor_ok (puts_from str i n c s)"
  by (induction str i n c s rule: puts_from.induct) (simp_all add: putchar_cursor_ok)


subsection \<open>What printing shows\<close>

text \<open>The glyph of \<open>ch\<close> at a pixel of its cell, and the pixels of the cursor's line in a cell.\<close>

definition glyph_bit :: "u8 \<Rightarrow> int \<Rightarrow> int \<Rightarrow> bool" where
  "glyph_bit ch u v = bit (font8x8 ! nat (sint ch - 32) ! nat (v mod 8)) (nat (u mod 8))"

definition cursor_line :: "console \<Rightarrow> int \<Rightarrow> int \<Rightarrow> bool" where
  "cursor_line s u v \<longleftrightarrow> u div 8 = fb_col s \<and> v div 8 = fb_row s \<and> v mod 8 = 7"

lemma cell_8: "a * 8 \<le> b \<and> b < a * 8 + 8 \<longleftrightarrow> b div 8 = (a :: int)"
  by auto

lemma pixel_draw_cursor:
  assumes "on_screen u v" "p < 4"
  shows "pixel (vga_draw_cursor cx cy c s) p u v = (if u div 8 = cx \<and> v div 8 = cy \<and> v mod 8 = 7 then bit c p else pixel s p u v)"
proof -
  have "[7..<8] = [7 :: nat]" by (simp add: upt_rec)
  moreover have "v = cy * 8 + 7 \<longleftrightarrow> v div 8 = cy \<and> v mod 8 = 7"
  proof
    assume "v div 8 = cy \<and> v mod 8 = 7"
    moreover have "v = v div 8 * 8 + v mod 8" by (rule div_mult_mod_eq [symmetric])
    ultimately show "v = cy * 8 + 7" by metis
  qed simp
  moreover have "cx * 8 \<le> u \<and> u < cx * 8 + 8 \<longleftrightarrow> u div 8 = cx" by (rule cell_8)
  ultimately show ?thesis unfolding vga_draw_cursor_def pixel_draw_box [OF assms] by auto
qed

text \<open>Clearing the cursor blanks its line and the whole cell below.\<close>

lemma pixel_clear_cursor:
  assumes "on_screen u v" "p < 4"
  shows "pixel (vga_clear_cursor cx cy s) p u v =
    (\<not> (u div 8 = cx \<and> (v div 8 = cy \<and> v mod 8 = 7 \<or> v div 8 = cy + 1)) \<and> pixel s p u v)"
proof -
  have "(\<exists>r\<in>set [7..<16]. v = cy * 8 + int r) \<longleftrightarrow> cy * 8 + 7 \<le> v \<and> v < cy * 8 + 16"
  proof
    assume "cy * 8 + 7 \<le> v \<and> v < cy * 8 + 16"
    then show "\<exists>r\<in>set [7..<16]. v = cy * 8 + int r"
      by (intro bexI [of _ "nat (v - cy * 8)"]) (auto simp: nat_less_iff le_nat_iff)
  qed auto
  moreover have "cy * 8 + 7 \<le> v \<and> v < cy * 8 + 16 \<longleftrightarrow> v div 8 = cy \<and> v mod 8 = 7 \<or> v div 8 = cy + 1"
  proof -
    have "v = 8 * (v div 8) + v mod 8" "0 \<le> v mod 8" "v mod 8 < 8" by simp_all
    then show ?thesis by (smt (verit))
  qed
  moreover have "cx * 8 \<le> u \<and> u < cx * 8 + 8 \<longleftrightarrow> u div 8 = cx" by (rule cell_8)
  ultimately show ?thesis unfolding vga_clear_cursor_def pixel_draw_box [OF assms] by auto
qed

text \<open>A printable character with no arrow key waiting.\<close>

definition printable :: "u8 \<Rightarrow> bool" where
  "printable c \<longleftrightarrow> 32 \<le> sint c \<and> sint c \<le> 126"

definition no_arrow :: "console \<Rightarrow> bool" where
  "no_arrow s \<longleftrightarrow> special_key (keys s) \<notin> {KEY_LEFT, KEY_RIGHT}"

lemma putchar_printable:
  assumes "printable c" "no_arrow s"
  shows "putchar c color s =
    (let s1 = draw_here c color s; s1 = s1\<lparr>fb_col := fb_col s + 1\<rparr>;
         s1 = (if fb_col s + 1 \<ge> 80 then new_line s1 else s1)
     in (update_cursor color s1)\<lparr>keys := (keys s)\<lparr>special_key := KEY_NONE\<rparr>\<rparr>)"
proof -
  have "c \<noteq> 0" "c \<noteq> 8" "c \<noteq> 10" using assms(1) by (auto simp: printable_def)
  then show ?thesis
    using assms(2) by (auto simp: putchar_def get_special_key_def no_arrow_def Let_def)
qed

lemma putchar_keeps_no_arrow: "no_arrow s \<Longrightarrow> printable c \<Longrightarrow> no_arrow (putchar c color s)"
  by (simp add: putchar_printable Let_def) (simp add: no_arrow_def special_keys)

lemma putchar_cursor:
  assumes "printable c" "no_arrow s"
  shows "fb_col (putchar c color s) = (if fb_col s + 1 \<ge> 80 then 0 else fb_col s + 1)"
    "fb_row (putchar c color s) = (if fb_col s + 1 \<ge> 80 then min (fb_row s + 1) 59 else fb_row s)" 
  using assms by (auto simp: putchar_printable Let_def new_line_def)

lemma pixel_putchar:
  assumes "printable c" "no_arrow s" "on_screen u v" "p < 4"
  shows "pixel (screen (putchar c color s)) p u v =
    (if cursor_line (putchar c color s) u v then bit color p
     else if u div 8 = fb_col s \<and> v div 8 = fb_row s then glyph_bit c u v \<and> bit color p
     else pixel (screen s) p u v)"
proof -
  have scr: "screen (putchar c color s) = vga_draw_cursor (fb_col (putchar c color s)) (fb_row (putchar c color s)) color
      (vga_draw_char (fb_col s) (fb_row s) c color (screen s))"
    unfolding putchar_printable [OF assms(1,2)] by (simp add: Let_def update_cursor_def draw_here_def)
  show ?thesis
    unfolding scr pixel_draw_cursor [OF assms(3,4)] pixel_draw_char [OF assms(3,4)]
    using assms(1) by (auto simp: cursor_line_def printable_def glyph_bit_def)
qed


text \<open>A string that fits on the rest of its line.\<close>

lemma puts_line:
  assumes "cursor_ok s" "no_arrow s" "fb_col s + int n < 80" "\<And>k. k < n \<Longrightarrow> printable (str (i + k))"
    "n \<le> m" "n < m \<Longrightarrow> str (i + n) = 0"
  shows "fb_col (puts_from str i m color s) = fb_col s + int n" "fb_row (puts_from str i m color s) = fb_row s"
    "on_screen u v \<Longrightarrow> p < 4 \<Longrightarrow> pixel (screen (puts_from str i m color s)) p u v =
      (if v div 8 = fb_row s \<and> fb_col s \<le> u div 8 \<and> u div 8 < fb_col s + int n
       then glyph_bit (str (i + nat (u div 8 - fb_col s))) u v \<and> bit color p
       else if 0 < n \<and> u div 8 = fb_col s + int n \<and> v div 8 = fb_row s \<and> v mod 8 = 7 then bit color p
       else pixel (screen s) p u v)"
proof -
  have "fb_col (puts_from str i m color s) = fb_col s + int n \<and> fb_row (puts_from str i m color s) = fb_row s \<and>
    (on_screen u v \<longrightarrow> p < 4 \<longrightarrow> pixel (screen (puts_from str i m color s)) p u v =
      (if v div 8 = fb_row s \<and> fb_col s \<le> u div 8 \<and> u div 8 < fb_col s + int n
       then glyph_bit (str (i + nat (u div 8 - fb_col s))) u v \<and> bit color p
       else if 0 < n \<and> u div 8 = fb_col s + int n \<and> v div 8 = fb_row s \<and> v mod 8 = 7 then bit color p
       else pixel (screen s) p u v))"
    using assms
  proof (induction n arbitrary: i m s)
    case 0
    then have "puts_from str i m color s = s" by (cases m) auto
    then show ?case by auto
  next
    case (Suc n)
    then obtain m' where m: "m = Suc m'" by (cases m) auto
    have ch: "printable (str i)" using Suc.prems(4) [of 0] by simp
    then have nz: "str i \<noteq> 0" by (auto simp: printable_def)
    let ?s = "putchar (str i) color s"
    have pos: "fb_col ?s = fb_col s + 1" "fb_row ?s = fb_row s"
      using putchar_cursor [OF ch Suc.prems(2)] Suc.prems(3) by simp_all
    have step: "puts_from str i m color s = puts_from str (i + 1) m' color ?s" using m nz by simp
    have rest: "printable (str (Suc (i + k)))" if "k < n" for k using Suc.prems(4) [of "Suc k"] that by simp
    have IH: "fb_col (puts_from str (i + 1) m' color ?s) = fb_col ?s + int n \<and> fb_row (puts_from str (i + 1) m' color ?s) = fb_row ?s \<and>
      (on_screen u v \<longrightarrow> p < 4 \<longrightarrow> pixel (screen (puts_from str (i + 1) m' color ?s)) p u v =
        (if v div 8 = fb_row ?s \<and> fb_col ?s \<le> u div 8 \<and> u div 8 < fb_col ?s + int n
         then glyph_bit (str (i + 1 + nat (u div 8 - fb_col ?s))) u v \<and> bit color p
         else if 0 < n \<and> u div 8 = fb_col ?s + int n \<and> v div 8 = fb_row ?s \<and> v mod 8 = 7 then bit color p
         else pixel (screen ?s) p u v))"
      using Suc.prems m pos
      by (intro Suc.IH putchar_cursor_ok putchar_keeps_no_arrow ch) (auto simp: rest)
    have off: "Suc (i + nat (u div 8 - (fb_col s + 1))) = i + nat (u div 8 - fb_col s)" if "fb_col s + 1 \<le> u div 8"
    proof -
      from that obtain d where "u div 8 = fb_col s + 1 + int d" by (metis zle_iff_zadd)
      then show ?thesis by simp
    qed
    have px: "pixel (screen ?s) p u v =
      (if u div 8 = fb_col s + 1 \<and> v div 8 = fb_row s \<and> v mod 8 = 7 then bit color p
       else if u div 8 = fb_col s \<and> v div 8 = fb_row s then glyph_bit (str i) u v \<and> bit color p else pixel (screen s) p u v)"
      if "on_screen u v" "p < 4"
      using pixel_putchar [OF ch Suc.prems(2) that, of color] unfolding cursor_line_def pos .
    show ?case
    proof (intro conjI impI)
      assume scr: "on_screen u v" "p < 4"
      note IHp = IH [THEN conjunct2, THEN conjunct2, rule_format, OF scr, unfolded pos px [OF scr]]
      consider (row) "v div 8 \<noteq> fb_row s" | (left) "v div 8 = fb_row s" "u div 8 < fb_col s"
        | (first) "v div 8 = fb_row s" "u div 8 = fb_col s"
        | (inner) "v div 8 = fb_row s" "fb_col s + 1 \<le> u div 8" "u div 8 < fb_col s + 1 + int n"
        | (cursor) "v div 8 = fb_row s" "u div 8 = fb_col s + 1 + int n"
        | (right) "v div 8 = fb_row s" "fb_col s + 1 + int n < u div 8" by linarith
      then show "pixel (screen (puts_from str i m color s)) p u v =
        (if v div 8 = fb_row s \<and> fb_col s \<le> u div 8 \<and> u div 8 < fb_col s + int (Suc n)
         then glyph_bit (str (i + nat (u div 8 - fb_col s))) u v \<and> bit color p
         else if 0 < Suc n \<and> u div 8 = fb_col s + int (Suc n) \<and> v div 8 = fb_row s \<and> v mod 8 = 7 then bit color p
         else pixel (screen s) p u v)"
        unfolding step IHp by cases (simp_all add: off del: zle_add1_eq_le)
    qed (use IH in \<open>simp_all add: step pos\<close>)
  qed
  then show "fb_col (puts_from str i m color s) = fb_col s + int n" "fb_row (puts_from str i m color s) = fb_row s"
    "on_screen u v \<Longrightarrow> p < 4 \<Longrightarrow> pixel (screen (puts_from str i m color s)) p u v =
      (if v div 8 = fb_row s \<and> fb_col s \<le> u div 8 \<and> u div 8 < fb_col s + int n
       then glyph_bit (str (i + nat (u div 8 - fb_col s))) u v \<and> bit color p
       else if 0 < n \<and> u div 8 = fb_col s + int n \<and> v div 8 = fb_row s \<and> v mod 8 = 7 then bit color p
       else pixel (screen s) p u v)" by blast+
qed

end
