(* ===== verification/Cmos.thy ===== *)
theory Cmos
  imports Prelude
begin

section \<open>The real-time clock: \<open>drivers/cmos.c\<close>\<close>

text \<open>
  The clock chip is a parameter: \<open>dev n r\<close> is the value of its register \<open>r\<close> at the \<open>n\<close>-th read of the
  data port. The waiting loops end only when the chip lets them, so they are partial functions.
\<close>

subsection \<open>State and registers\<close>

type_synonym rtc_dev = "nat \<Rightarrow> u8 \<Rightarrow> u8"

record rtc =
  reads :: nat
  second :: u8
  minute :: u8
  hour :: u8
  day :: u8
  month :: u8
  century :: u8
  year :: u32
  century_register :: u8

definition CURRENT_YEAR :: u32 where "CURRENT_YEAR = 2025"

definition rtc_init :: rtc where
  "rtc_init = \<lparr>reads = 0, second = 0, minute = 0, hour = 0, day = 0, month = 0, century = 0, year = 0, century_register = 0x00\<rparr>"

definition get_RTC_register :: "rtc_dev \<Rightarrow> u8 \<Rightarrow> rtc \<Rightarrow> u8 \<times> rtc" where
  "get_RTC_register dev reg s = (dev (reads s) reg, s\<lparr>reads := reads s + 1\<rparr>)"

definition get_update_in_progress_flag :: "rtc_dev \<Rightarrow> rtc \<Rightarrow> bool \<times> rtc" where
  "get_update_in_progress_flag dev s =
     (let (v, s) = get_RTC_register dev 0x0A s in (v AND 0x80 \<noteq> 0, s))"

partial_function (option) wait_update :: "rtc_dev \<Rightarrow> rtc \<Rightarrow> rtc option" where
  "wait_update dev s =
     (let (busy, s) = get_update_in_progress_flag dev s in if busy then wait_update dev s else Some s)"

definition read_registers :: "rtc_dev \<Rightarrow> rtc \<Rightarrow> rtc" where
  "read_registers dev s =
     (let (v, s) = get_RTC_register dev 0x00 s; s = s\<lparr>second := v\<rparr>;
          (v, s) = get_RTC_register dev 0x02 s; s = s\<lparr>minute := v\<rparr>;
          (v, s) = get_RTC_register dev 0x04 s; s = s\<lparr>hour := v\<rparr>;
          (v, s) = get_RTC_register dev 0x07 s; s = s\<lparr>day := v\<rparr>;
          (v, s) = get_RTC_register dev 0x08 s; s = s\<lparr>month := v\<rparr>;
          (v, s) = get_RTC_register dev 0x09 s; s = s\<lparr>year := ucast v\<rparr>
      in if century_register s \<noteq> 0
         then let (v, s) = get_RTC_register dev (century_register s) s in s\<lparr>century := v\<rparr>
         else s)"

text \<open>The comparison of the do-while loop; \<open>last_year\<close> is one byte.\<close>

definition changed :: "rtc \<Rightarrow> rtc \<Rightarrow> bool" where
  "changed old s \<longleftrightarrow> second old \<noteq> second s \<or> minute old \<noteq> minute s \<or> hour old \<noteq> hour s \<or> day old \<noteq> day s \<or>
     month old \<noteq> month s \<or> ucast (ucast (year old) :: u8) \<noteq> year s \<or> century old \<noteq> century s"

partial_function (option) read_twice :: "rtc_dev \<Rightarrow> rtc \<Rightarrow> rtc option" where
  "read_twice dev old = do {
     s \<leftarrow> wait_update dev old;
     let s = read_registers dev s;
     if changed old s then read_twice dev s else Some s
   }"

subsection \<open>Conversions\<close>

definition from_bcd :: "u8 \<Rightarrow> u8" where
  "from_bcd b = (b AND 0x0F) + (b div 16) * 10"

definition hour_from_bcd :: "u8 \<Rightarrow> u8" where
  "hour_from_bcd b = ((b AND 0x0F) + ((b AND 0x70) div 16) * 10) OR (b AND 0x80)"

definition convert_bcd :: "u8 \<Rightarrow> rtc \<Rightarrow> rtc" where
  "convert_bcd registerB s =
     (if registerB AND 0x04 = 0 then
        let s = s\<lparr>second := from_bcd (second s), minute := from_bcd (minute s), hour := hour_from_bcd (hour s),
                  day := from_bcd (day s), month := from_bcd (month s),
                  year := (year s AND 0x0F) + (year s div 16) * 10\<rparr>
        in if century_register s \<noteq> 0 then s\<lparr>century := from_bcd (century s)\<rparr> else s
      else s)"

definition convert_hour :: "u8 \<Rightarrow> u8 \<Rightarrow> u8" where
  "convert_hour registerB h =
     (if registerB AND 0x02 = 0 \<and> h AND 0x80 \<noteq> 0 then ((h AND 0x7F) + 12) mod 24 else h)"

definition full_year :: "rtc \<Rightarrow> u32" where
  "full_year s =
     (if century_register s \<noteq> 0 then year s + ucast (century s) * 100
      else let y = year s + (CURRENT_YEAR div 100) * 100 in if y < CURRENT_YEAR then y + 100 else y)"

definition read_rtc :: "rtc_dev \<Rightarrow> rtc \<Rightarrow> rtc option" where
  "read_rtc dev s = do {
     s \<leftarrow> wait_update dev s;
     s \<leftarrow> read_twice dev (read_registers dev s);
     let (registerB, s) = get_RTC_register dev 0x0B s;
     let s = convert_bcd registerB s;
     let s = s\<lparr>hour := convert_hour registerB (hour s)\<rparr>;
     Some (s\<lparr>year := full_year s\<rparr>)
   }"

subsection \<open>Correctness of the conversions\<close>

definition to_bcd :: "nat \<Rightarrow> u8" where
  "to_bcd n = of_nat (16 * (n div 10) + n mod 10)"

lemma and_0F: "(b :: u8) AND 0x0F = b mod 16"
  using take_bit_eq_mask [of 4 b] by (simp add: mask_eq_exp_minus_1 take_bit_eq_mod)

lemma unat_to_bcd: "n < 100 \<Longrightarrow> unat (to_bcd n) = 16 * (n div 10) + n mod 10"
proof -
  assume "n < 100"
  then have "n div 10 < 10" by simp
  then have "16 * (n div 10) + n mod 10 < 256" by simp
  then show ?thesis by (simp add: to_bcd_def unat_of_nat del: of_nat_add of_nat_mult)
qed

lemma bcd_parts: "n < 100 \<Longrightarrow> to_bcd n mod 16 = of_nat (n mod 10) \<and> to_bcd n div 16 = of_nat (n div 10)"
proof -
  assume n: "n < 100"
  then have "n div 10 < 10" by simp
  then show ?thesis
    by (simp add: word_unat_eq_iff unat_mod unat_div unat_to_bcd n unat_of_nat)
qed

lemma from_bcd_to_bcd: "n < 100 \<Longrightarrow> from_bcd (to_bcd n) = of_nat n"
proof -
  assume "n < 100"
  from bcd_parts [OF this] have "from_bcd (to_bcd n) = of_nat (n mod 10) + of_nat (n div 10) * 10"
    by (simp add: from_bcd_def and_0F)
  also have "\<dots> = of_nat (n mod 10 + n div 10 * 10)" by (simp only: of_nat_add of_nat_mult of_nat_numeral)
  finally show ?thesis by simp
qed

text \<open>Twelve-hour times: the right hour of the day, and what the conversion gives.\<close>

definition hour_of_day :: "nat \<Rightarrow> bool \<Rightarrow> nat" where
  "hour_of_day h pm = h mod 12 + (if pm then 12 else 0)"

definition twelve_hour :: "nat \<Rightarrow> bool \<Rightarrow> u8" where
  "twelve_hour h pm = to_bcd h OR (if pm then 0x80 else 0)"

lemma hours_enum: "h \<in> {1..12} \<longleftrightarrow> h \<in> set [1, 2, 3, 4, 5, 6, 7, 8, 9, 10, 11, 12 :: nat]"
  by (subst atLeastAtMost_upt) (simp add: upt_rec eval_nat_numeral)

lemma convert_twelve_hour:
  assumes "h \<in> {1..12}" "registerB AND 0x02 = 0"
  shows "convert_hour registerB (hour_from_bcd (twelve_hour h pm)) =
    of_nat (if h = 12 then (if pm then 0 else 12) else hour_of_day h pm)"
  using assms unfolding hours_enum
  by (cases pm) (auto simp: convert_hour_def hour_from_bcd_def twelve_hour_def hour_of_day_def to_bcd_def)


subsection \<open>Reading\<close>

text \<open>What is returned was read in two passes in a row, whatever the chip does in between.\<close>

lemma read_twice_same:
  assumes "read_twice dev old = Some s"
  shows "\<exists>o' w. (o' = old \<or> (\<exists>w'. o' = read_registers dev w')) \<and> wait_update dev o' = Some w \<and>
    s = read_registers dev w \<and> \<not> changed o' s"
  using assms
proof (rule read_twice.raw_induct [where P = "\<lambda>dev old s. \<exists>o' w. (o' = old \<or> (\<exists>w'. o' = read_registers dev w')) \<and>
    wait_update dev o' = Some w \<and> s = read_registers dev w \<and> \<not> changed o' s", rotated])
  fix f dev old s
  assume IH: "\<And>dev old s. f dev old = Some s \<Longrightarrow> \<exists>o' w. (o' = old \<or> (\<exists>w'. o' = read_registers dev w')) \<and>
      wait_update dev o' = Some w \<and> s = read_registers dev w \<and> \<not> changed o' s"
    and eq: "(wait_update dev old \<bind> (\<lambda>s. let s = read_registers dev s in if changed old s then f dev s else Some s)) = Some s"
  then obtain w where w: "wait_update dev old = Some w"
    "(if changed old (read_registers dev w) then f dev (read_registers dev w) else Some (read_registers dev w)) = Some s"
    by (auto simp: bind_eq_Some_conv Let_def)
  show "\<exists>o' w. (o' = old \<or> (\<exists>w'. o' = read_registers dev w')) \<and> wait_update dev o' = Some w \<and>
      s = read_registers dev w \<and> \<not> changed o' s"
  proof (cases "changed old (read_registers dev w)")
    case True
    then show ?thesis using IH [of dev "read_registers dev w" s] w(2) by auto
  next
    case False
    then show ?thesis using w by auto
  qed
qed

text \<open>A chip that does not change while it is read.\<close>

lemma wait_update_free: "dev (reads s) 0x0A AND 0x80 = 0 \<Longrightarrow> wait_update dev s = Some (s\<lparr>reads := reads s + 1\<rparr>)"
  by (subst wait_update.simps) (simp add: get_update_in_progress_flag_def get_RTC_register_def)

definition steady :: "rtc_dev \<Rightarrow> (u8 \<Rightarrow> u8) \<Rightarrow> bool" where
  "steady dev v \<longleftrightarrow> (\<forall>n r. dev n r = v r) \<and> v 0x0A AND 0x80 = 0"

lemma read_registers_steady:
  assumes "steady dev v" "century_register s = 0"
  shows "read_registers dev s = s\<lparr>reads := reads s + 6, second := v 0, minute := v 2, hour := v 4, day := v 7, month := v 8, year := ucast (v 9)\<rparr>"
  using assms by (simp add: read_registers_def get_RTC_register_def steady_def Let_def)

lemma ucast_back: "ucast (ucast (ucast (b :: u8) :: u32) :: u8) = (ucast b :: u32)"
proof -
  have "(ucast (ucast b :: u32) :: u8) = b" by (rule bit_word_eqI) (simp add: bit_simps)
  then show ?thesis by simp
qed

lemma read_twice_steady:
  assumes "steady dev v" "century_register s = 0"
  shows "read_twice dev (read_registers dev s) = Some ((read_registers dev s)\<lparr>reads := reads s + 13\<rparr>)"
proof -
  note rr = read_registers_steady [OF assms]
  have "dev n 0x0A AND 0x80 = 0" for n using assms(1) by (simp add: steady_def)
  then have "wait_update dev (read_registers dev s) = Some ((read_registers dev s)\<lparr>reads := reads s + 7\<rparr>)"
    by (subst wait_update_free) (simp_all add: rr)
  moreover have "read_registers dev ((read_registers dev s)\<lparr>reads := reads s + 7\<rparr>) = (read_registers dev s)\<lparr>reads := reads s + 13\<rparr>"
    using assms(2) by (subst read_registers_steady [OF assms(1)]) (simp_all add: rr)
  moreover have "\<not> changed (read_registers dev s) ((read_registers dev s)\<lparr>reads := reads s + 13\<rparr>)"
    by (simp add: changed_def rr ucast_back)
  ultimately show ?thesis by (subst read_twice.simps) (simp add: Let_def)
qed

lemma read_rtc_steady:
  assumes "steady dev v" "century_register s = 0"
  shows "\<exists>s'. read_rtc dev s = Some s' \<and>
    (v 0x0B AND 0x04 = 0 \<longrightarrow> second s' = from_bcd (v 0) \<and> minute s' = from_bcd (v 2) \<and>
       hour s' = convert_hour (v 0x0B) (hour_from_bcd (v 4)) \<and> day s' = from_bcd (v 7) \<and> month s' = from_bcd (v 8)) \<and>
    (v 0x0B AND 0x04 \<noteq> 0 \<longrightarrow> second s' = v 0 \<and> minute s' = v 2 \<and> hour s' = convert_hour (v 0x0B) (v 4) \<and>
       day s' = v 7 \<and> month s' = v 8)"
proof -
  have w: "wait_update dev s = Some (s\<lparr>reads := reads s + 1\<rparr>)"
    using assms(1) by (intro wait_update_free) (simp add: steady_def)
  have cr: "century_register (s\<lparr>reads := reads s + 1\<rparr>) = 0" using assms(2) by simp
  have b: "dev n r = v r" for n r using assms(1) by (simp add: steady_def)
  show ?thesis
    unfolding read_rtc_def w bind.bind_lunit Option.bind.bind_lunit read_twice_steady [OF assms(1) cr]
    unfolding read_registers_steady [OF assms(1) cr] by (simp add: get_RTC_register_def b convert_bcd_def Let_def assms(2))
qed

end
