(* ===== verification/Cpu_Tables.thy ===== *)
theory Cpu_Tables
  imports Prelude
begin

section \<open>Segments and interrupt gates: \<open>cpu/gdt.c\<close>, \<open>cpu/idt.c\<close>\<close>

text \<open>
  The two descriptor tables the processor reads. A table entry is a record of its bit fields; its
  8 bytes in memory, as the packed structure lays them out, are a 64-bit word, which is read back
  the way the processor does it. Loading the tables and enabling interrupts are instructions without
  effect on these tables.
\<close>

subsection \<open>Segment descriptors\<close>

record segment_descriptor =
  segment_low :: u16
  base_low :: u16
  base_mid :: u8
  type_bit :: "4 word"
  non_system :: bool
  seg_dpl :: "2 word"
  seg_present :: bool
  segment_high :: "4 word"
  avl :: bool
  long_mode :: bool
  default_op :: bool
  granularity :: bool
  base_high :: u8

definition GDT_MAX_ENTRY_COUNT :: nat where "GDT_MAX_ENTRY_COUNT = 32"
definition GDT_KERNEL_CODE_SEGMENT_SELECTOR :: u16 where "GDT_KERNEL_CODE_SEGMENT_SELECTOR = 0x8"
definition GDT_KERNEL_DATA_SEGMENT_SELECTOR :: u16 where "GDT_KERNEL_DATA_SEGMENT_SELECTOR = 0x10"
definition GDT_USER_CODE_SEGMENT_SELECTOR :: u16 where "GDT_USER_CODE_SEGMENT_SELECTOR = 0x18"
definition GDT_USER_DATA_SEGMENT_SELECTOR :: u16 where "GDT_USER_DATA_SEGMENT_SELECTOR = 0x20"
definition GDT_TSS_SELECTOR :: u16 where "GDT_TSS_SELECTOR = 0x28"

definition null_descriptor :: segment_descriptor where
  "null_descriptor =
     \<lparr>segment_low = 0x0000, base_low = 0x0000, base_mid = 0x00, type_bit = 0x0, non_system = False, seg_dpl = 0x0,
      seg_present = False, segment_high = 0x0, avl = False, long_mode = False, default_op = False, granularity = False,
      base_high = 0x00\<rparr>"

definition flat_segment :: "4 word \<Rightarrow> 2 word \<Rightarrow> segment_descriptor" where
  "flat_segment type ring =
     \<lparr>segment_low = 0xFFFF, base_low = 0x0000, base_mid = 0x00, type_bit = type, non_system = True, seg_dpl = ring,
      seg_present = True, segment_high = 0xF, avl = False, long_mode = False, default_op = True, granularity = True,
      base_high = 0x00\<rparr>"

definition sizeof_TSSEntry :: u32 where "sizeof_TSSEntry = 104"

definition tss_descriptor :: segment_descriptor where
  "tss_descriptor =
     \<lparr>segment_low = ucast sizeof_TSSEntry, base_low = 0, base_mid = 0, type_bit = 0x9, non_system = False, seg_dpl = 0,
      seg_present = True, segment_high = ucast (drop_bit 16 (sizeof_TSSEntry AND push_bit 16 0xF)), avl = False,
      long_mode = False, default_op = True, granularity = False, base_high = 0\<rparr>"

text \<open>The elements without an initializer are 0.\<close>

definition global_descriptor_table :: "segment_descriptor list" where
  "global_descriptor_table =
     [null_descriptor, flat_segment 0xA 0x0, flat_segment 0x2 0x0, flat_segment 0xA 0x3, flat_segment 0x2 0x3,
      tss_descriptor] @ replicate (GDT_MAX_ENTRY_COUNT - 6) null_descriptor"

definition gdt_size :: u16 where
  "gdt_size = of_nat (8 * GDT_MAX_ENTRY_COUNT) - 1"

text \<open>\<open>base\<close> is the address of the task state segment.\<close>

definition gdt_install_tss :: "u32 \<Rightarrow> segment_descriptor list \<Rightarrow> segment_descriptor list option" where
  "gdt_install_tss base table = do {
     e \<leftarrow> arr_get table 5;
     arr_put table 5 (e\<lparr>base_high := ucast (drop_bit 24 (base AND push_bit 24 0xFF)),
                        base_mid := ucast (drop_bit 16 (base AND push_bit 16 0xFF)),
                        base_low := ucast (base AND 0xFFFF)\<rparr>)
   }"

subsection \<open>Interrupt gates\<close>

record idt_gate =
  offset_low :: u16
  segment :: u16
  idt_reserved :: "5 word"
  r_bit_1 :: "3 word"
  r_bit_2 :: "3 word"
  gate_32 :: bool
  r_bit_3 :: bool
  gate_dpl :: "2 word"
  gate_present :: bool
  offset_high :: u16

definition IDT_MAX_ENTRY_COUNT :: nat where "IDT_MAX_ENTRY_COUNT = 256"
definition ISR_STUB_TABLE_LIMIT :: nat where "ISR_STUB_TABLE_LIMIT = 64"
definition INTERRUPT_GATE_R_BIT_1 :: "3 word" where "INTERRUPT_GATE_R_BIT_1 = 0"
definition INTERRUPT_GATE_R_BIT_2 :: "3 word" where "INTERRUPT_GATE_R_BIT_2 = 6"
definition INTERRUPT_GATE_R_BIT_3 :: bool where "INTERRUPT_GATE_R_BIT_3 = False"

definition zero_gate :: idt_gate where
  "zero_gate = \<lparr>offset_low = 0, segment = 0, idt_reserved = 0, r_bit_1 = 0, r_bit_2 = 0, gate_32 = False, r_bit_3 = False,
     gate_dpl = 0, gate_present = False, offset_high = 0\<rparr>"

definition set_interrupt_gate :: "idt_gate list \<Rightarrow> u8 \<Rightarrow> u32 \<Rightarrow> u16 \<Rightarrow> u8 \<Rightarrow> idt_gate list option" where
  "set_interrupt_gate idt int_vector handler_address gdt_seg_selector privilege = do {
     g \<leftarrow> arr_get idt (unat int_vector);
     let addr = handler_address;
     arr_put idt (unat int_vector)
       (g\<lparr>r_bit_1 := INTERRUPT_GATE_R_BIT_1, r_bit_2 := INTERRUPT_GATE_R_BIT_2, r_bit_3 := INTERRUPT_GATE_R_BIT_3,
          gate_32 := True, gate_present := True, segment := gdt_seg_selector, idt_reserved := 0,
          gate_dpl := ucast (privilege AND 0x3), offset_low := ucast (addr AND 0xFFFF),
          offset_high := ucast (drop_bit 16 addr AND 0xFFFF)\<rparr>)
   }"

fun set_gates :: "u32 list \<Rightarrow> nat list \<Rightarrow> idt_gate list \<Rightarrow> idt_gate list option" where
  "set_gates isr_stub_table [] idt = Some idt"
| "set_gates isr_stub_table (i # is) idt = do {
     stub \<leftarrow> arr_get isr_stub_table i;
     idt \<leftarrow> set_interrupt_gate idt (of_nat i) stub GDT_KERNEL_CODE_SEGMENT_SELECTOR 0;
     set_gates isr_stub_table is idt
   }"

definition initialize_idt :: "u32 list \<Rightarrow> idt_gate list \<Rightarrow> idt_gate list option" where
  "initialize_idt isr_stub_table idt = do {
     idt \<leftarrow> set_gates isr_stub_table [0..<ISR_STUB_TABLE_LIMIT] idt;
     stub \<leftarrow> arr_get isr_stub_table 0x30;
     set_interrupt_gate idt 0x30 stub GDT_KERNEL_CODE_SEGMENT_SELECTOR 3
   }"

subsection \<open>The tables in memory\<close>

definition b1 :: "bool \<Rightarrow> 64 word" where
  "b1 b = (if b then 1 else 0)"

definition enc_segment :: "segment_descriptor \<Rightarrow> 64 word" where
  "enc_segment d =
     ucast (segment_low d) OR push_bit 16 (ucast (base_low d)) OR push_bit 32 (ucast (base_mid d)) OR
     push_bit 40 (ucast (type_bit d)) OR push_bit 44 (b1 (non_system d)) OR push_bit 45 (ucast (seg_dpl d)) OR
     push_bit 47 (b1 (seg_present d)) OR push_bit 48 (ucast (segment_high d)) OR push_bit 52 (b1 (avl d)) OR
     push_bit 53 (b1 (long_mode d)) OR push_bit 54 (b1 (default_op d)) OR push_bit 55 (b1 (granularity d)) OR
     push_bit 56 (ucast (base_high d))"

definition enc_gate :: "idt_gate \<Rightarrow> 64 word" where
  "enc_gate g =
     ucast (offset_low g) OR push_bit 16 (ucast (segment g)) OR push_bit 32 (ucast (idt_reserved g)) OR
     push_bit 37 (ucast (r_bit_1 g)) OR push_bit 40 (ucast (r_bit_2 g)) OR push_bit 43 (b1 (gate_32 g)) OR
     push_bit 44 (b1 (r_bit_3 g)) OR push_bit 45 (ucast (gate_dpl g)) OR push_bit 47 (b1 (gate_present g)) OR
     push_bit 48 (ucast (offset_high g))"

text \<open>How the processor reads a descriptor: base, limit, privilege level, and a gate's offset and type.\<close>

definition seg_base :: "64 word \<Rightarrow> u32" where
  "seg_base w = of4 (ucast (drop_bit 16 w)) (ucast (drop_bit 24 w)) (ucast (drop_bit 32 w)) (ucast (drop_bit 56 w))"

definition seg_limit :: "64 word \<Rightarrow> u32" where
  "seg_limit w = ucast (take_bit 16 w) OR push_bit 16 (ucast (take_bit 4 (drop_bit 48 w)))"

definition descriptor_dpl :: "64 word \<Rightarrow> 2 word" where
  "descriptor_dpl w = ucast (drop_bit 45 w)"

definition gate_offset :: "64 word \<Rightarrow> u32" where
  "gate_offset w = ucast (take_bit 16 w) OR push_bit 16 (ucast (drop_bit 48 w))"

definition gate_selector :: "64 word \<Rightarrow> u16" where
  "gate_selector w = ucast (drop_bit 16 w)"

text \<open>Bits 40 to 47 of a present 32-bit interrupt gate are 1, the privilege level, 0, and 1110.\<close>

definition interrupt_gate_32 :: "64 word \<Rightarrow> bool" where
  "interrupt_gate_32 w \<longleftrightarrow> (ucast (drop_bit 40 w) :: 5 word) = 0xE \<and> bit w 47"

subsection \<open>Reading back what was written\<close>

lemma and_16: "(x :: u32) AND 0xFFFF = take_bit 16 x" and and_2: "(y :: u8) AND 0x3 = take_bit 2 y"
  and and_byte: "base AND push_bit 16 0xFF = push_bit 16 (take_bit 8 (drop_bit 16 (base :: u32)))"
    "base AND push_bit 24 0xFF = push_bit 24 (take_bit 8 (drop_bit 24 base))"
proof -
  show "x AND 0xFFFF = take_bit 16 x" using take_bit_eq_mask [of 16 x] by (simp add: mask_eq_exp_minus_1)
  show "y AND 0x3 = take_bit 2 y" using take_bit_eq_mask [of 2 y] by (simp add: mask_eq_exp_minus_1)
  have ff: "(0xFF :: u32) = mask 8" by (simp add: mask_eq_exp_minus_1)
  show "base AND push_bit 16 0xFF = push_bit 16 (take_bit 8 (drop_bit 16 base))"
    "base AND push_bit 24 0xFF = push_bit 24 (take_bit 8 (drop_bit 24 base))"
    unfolding ff by (rule bit_word_eqI, auto simp: bit_simps)+
qed

lemma bit_b1 [simp]: "bit (b1 b) n \<longleftrightarrow> b \<and> n = 0"
  by (simp add: b1_def bit_1_iff)

lemma bit_beyond: "LENGTH('a) \<le> n \<Longrightarrow> \<not> bit (w :: 'a::len word) n"
  by (auto dest: bit_imp_le_length)

lemma gate_reads:
  assumes "g = g0\<lparr>r_bit_1 := INTERRUPT_GATE_R_BIT_1, r_bit_2 := INTERRUPT_GATE_R_BIT_2, r_bit_3 := INTERRUPT_GATE_R_BIT_3,
    gate_32 := True, gate_present := True, segment := sel, idt_reserved := 0, gate_dpl := ucast ((privilege :: u8) AND 0x3),
    offset_low := ucast (addr AND 0xFFFF), offset_high := ucast (drop_bit 16 addr AND 0xFFFF)\<rparr>"
  shows "gate_offset (enc_gate g) = addr" "gate_selector (enc_gate g) = sel"
    "descriptor_dpl (enc_gate g) = ucast privilege" "interrupt_gate_32 (enc_gate g)"
proof -
  show "gate_offset (enc_gate g) = addr"
    unfolding gate_offset_def enc_gate_def assms and_16
    by (rule bit_word_eqI) (auto simp: bit_simps dest: bit_imp_le_length)
  show "gate_selector (enc_gate g) = sel"
    unfolding gate_selector_def enc_gate_def assms
    by (rule bit_word_eqI) (auto simp: bit_simps dest: bit_imp_le_length)
  show "descriptor_dpl (enc_gate g) = ucast privilege"
    unfolding descriptor_dpl_def enc_gate_def assms and_2
    by (rule bit_word_eqI) (auto simp: bit_simps dest: bit_imp_le_length)
  show "interrupt_gate_32 (enc_gate g)"
    unfolding interrupt_gate_32_def
  proof (intro conjI bit_word_eqI)
    fix n
    assume "n < LENGTH(5)"
    then have n: "n = 0 \<or> n = 1 \<or> n = 2 \<or> n = 3 \<or> n = 4" by auto
    have off: "\<not> bit sel k" if "16 \<le> k" for k using that by (auto dest: bit_imp_le_length)
    show "bit (ucast (drop_bit 40 (enc_gate g)) :: 5 word) n \<longleftrightarrow> bit (0xE :: 5 word) n"
      unfolding enc_gate_def assms
      using n by (elim disjE) (simp_all add: bit_simps off INTERRUPT_GATE_R_BIT_1_def INTERRUPT_GATE_R_BIT_2_def INTERRUPT_GATE_R_BIT_3_def)
  qed (simp add: bit_simps assms enc_gate_def)
qed

lemma set_gate_spec:
  assumes "length idt = 256"
  obtains g where "set_interrupt_gate idt v addr sel privilege = Some (idt[unat v := g])"
    "gate_offset (enc_gate g) = addr" "gate_selector (enc_gate g) = sel" "descriptor_dpl (enc_gate g) = ucast privilege"
    "interrupt_gate_32 (enc_gate g)"
proof -
  have "unat v < length idt" using assms unat_u8_less [of v] by simp
  then have eq: "set_interrupt_gate idt v addr sel privilege = Some (idt[unat v := (idt ! unat v)\<lparr>r_bit_1 := INTERRUPT_GATE_R_BIT_1,
      r_bit_2 := INTERRUPT_GATE_R_BIT_2, r_bit_3 := INTERRUPT_GATE_R_BIT_3, gate_32 := True, gate_present := True,
      segment := sel, idt_reserved := 0, gate_dpl := ucast (privilege AND 0x3), offset_low := ucast (addr AND 0xFFFF),
      offset_high := ucast (drop_bit 16 addr AND 0xFFFF)\<rparr>])"
    by (simp add: set_interrupt_gate_def Let_def)
  show thesis by (rule that [OF eq gate_reads [OF refl]])
qed

definition good_gate :: "idt_gate \<Rightarrow> u32 \<Rightarrow> 2 word \<Rightarrow> bool" where
  "good_gate g addr ring \<longleftrightarrow> gate_offset (enc_gate g) = addr \<and> gate_selector (enc_gate g) = GDT_KERNEL_CODE_SEGMENT_SELECTOR \<and>
     descriptor_dpl (enc_gate g) = ring \<and> interrupt_gate_32 (enc_gate g)"

lemma set_gates_spec:
  assumes "length idt = 256" "distinct is" "\<forall>i\<in>set is. i < 64" "length stubs = 64"
  shows "\<exists>idt'. set_gates stubs is idt = Some idt' \<and> length idt' = 256 \<and>
    (\<forall>i<256. if i \<in> set is then good_gate (idt' ! i) (stubs ! i) 0 else idt' ! i = idt ! i)"
  using assms
proof (induction "is" arbitrary: idt)
  case (Cons i "is")
  obtain g where g: "set_interrupt_gate idt (of_nat i) (stubs ! i) GDT_KERNEL_CODE_SEGMENT_SELECTOR 0 = Some (idt[unat (of_nat i :: u8) := g])"
    "good_gate g (stubs ! i) 0"
    using set_gate_spec [OF Cons.prems(1), where v = "of_nat i" and addr = "stubs ! i" and sel = GDT_KERNEL_CODE_SEGMENT_SELECTOR and privilege = 0]
    unfolding good_gate_def by (metis ucast_0)
  have i: "unat (of_nat i :: u8) = i" using Cons.prems(3) by (simp add: unat_of_nat)
  have "length (idt[i := g]) = 256" using Cons.prems(1) by simp
  from Cons.IH [OF this] Cons.prems(2-4) obtain idt' where
    r: "set_gates stubs is (idt[i := g]) = Some idt'" "length idt' = 256"
    "\<forall>j<256. if j \<in> set is then good_gate (idt' ! j) (stubs ! j) 0 else idt' ! j = idt[i := g] ! j" by auto
  have "\<forall>j<256. if j \<in> set (i # is) then good_gate (idt' ! j) (stubs ! j) 0 else idt' ! j = idt ! j"
  proof (intro allI impI)
    fix j :: nat
    assume "j < 256"
    with r(3) Cons.prems(1,2) g(2) show "if j \<in> set (i # is) then good_gate (idt' ! j) (stubs ! j) 0 else idt' ! j = idt ! j"
      by (cases "j = i") (auto simp: nth_list_upd split: if_splits)
  qed
  then show ?case using g(1) i r(1,2) Cons.prems(3,4) by simp
qed simp

text \<open>After initialization every stub is reached by its vector, and only vector 0x30 from user mode.\<close>

lemma initialize_idt_spec:
  assumes "length idt = 256" "length stubs = 64"
  shows "\<exists>idt'. initialize_idt stubs idt = Some idt' \<and> length idt' = 256 \<and>
    (\<forall>i<64. good_gate (idt' ! i) (stubs ! i) (if i = 0x30 then 3 else 0)) \<and> (\<forall>i. 64 \<le> i \<and> i < 256 \<longrightarrow> idt' ! i = idt ! i)"
proof -
  have "\<forall>i\<in>set [0..<64]. i < 64" by simp
  from set_gates_spec [OF assms(1) distinct_upt this assms(2)] obtain idt1 where
    1: "set_gates stubs [0..<64] idt = Some idt1" "length idt1 = 256"
    "\<forall>i<256. if i \<in> set [0..<64] then good_gate (idt1 ! i) (stubs ! i) 0 else idt1 ! i = idt ! i" by blast
  obtain g where g: "set_interrupt_gate idt1 0x30 (stubs ! 0x30) GDT_KERNEL_CODE_SEGMENT_SELECTOR 3 = Some (idt1[unat (0x30 :: u8) := g])"
    "good_gate g (stubs ! 0x30) 3"
    using set_gate_spec [OF 1(2), where v = "0x30" and addr = "stubs ! 0x30" and sel = GDT_KERNEL_CODE_SEGMENT_SELECTOR and privilege = 3]
    unfolding good_gate_def by force
  have stub: "arr_get stubs 0x30 = Some (stubs ! 0x30)" using assms(2) by simp
  have eq: "initialize_idt stubs idt = Some (idt1[0x30 := g])"
    unfolding initialize_idt_def ISR_STUB_TABLE_LIMIT_def 1(1) Option.bind.bind_lunit stub g(1) by simp
  have "good_gate (idt1[0x30 := g] ! i) (stubs ! i) (if i = 0x30 then 3 else 0)" if "i < 64" for i
    using 1(2,3) g(2) that by (auto simp: nth_list_upd)
  moreover have "idt1[0x30 := g] ! i = idt ! i" if "64 \<le> i \<and> i < 256" for i
    using 1(2,3) that by (auto simp: nth_list_upd)
  ultimately show ?thesis using eq 1(2) by auto
qed

text \<open>The segments as the processor sees them.\<close>

lemma enc_segment_reads:
  "seg_base (enc_segment d) = of4 (ucast (base_low d)) (ucast (drop_bit 8 (base_low d))) (base_mid d) (base_high d)"
  "seg_limit (enc_segment d) = ucast (segment_low d) OR push_bit 16 (ucast (segment_high d))"
  "descriptor_dpl (enc_segment d) = seg_dpl d"
proof -
  have "(ucast (drop_bit 16 (enc_segment d)) :: u8) = ucast (base_low d)"
    "(ucast (drop_bit 24 (enc_segment d)) :: u8) = ucast (drop_bit 8 (base_low d))"
    "(ucast (drop_bit 32 (enc_segment d)) :: u8) = base_mid d" "(ucast (drop_bit 56 (enc_segment d)) :: u8) = base_high d"
    unfolding enc_segment_def by (rule bit_word_eqI, simp add: bit_simps bit_beyond)+
  then show "seg_base (enc_segment d) = of4 (ucast (base_low d)) (ucast (drop_bit 8 (base_low d))) (base_mid d) (base_high d)"
    unfolding seg_base_def by (simp only:)
  have "(ucast (take_bit 16 (enc_segment d)) :: u32) = ucast (segment_low d)"
  proof (rule bit_word_eqI)
    fix n
    show "bit (ucast (take_bit 16 (enc_segment d)) :: u32) n \<longleftrightarrow> bit (ucast (segment_low d) :: u32) n"
      unfolding enc_segment_def by (cases "n < 16") (simp_all add: bit_simps bit_beyond)
  qed
  moreover have "(ucast (take_bit 4 (drop_bit 48 (enc_segment d))) :: u32) = ucast (segment_high d)"
  proof (rule bit_word_eqI)
    fix n
    show "bit (ucast (take_bit 4 (drop_bit 48 (enc_segment d))) :: u32) n \<longleftrightarrow> bit (ucast (segment_high d) :: u32) n"
      unfolding enc_segment_def by (cases "n < 4") (simp_all add: bit_simps bit_beyond)
  qed
  ultimately show "seg_limit (enc_segment d) = ucast (segment_low d) OR push_bit 16 (ucast (segment_high d))"
    unfolding seg_limit_def by (simp only:)
  show "descriptor_dpl (enc_segment d) = seg_dpl d"
    unfolding descriptor_dpl_def enc_segment_def
    by (rule bit_word_eqI) (simp add: bit_simps bit_beyond)
qed

lemma flat_segment_reads:
  "seg_base (enc_segment (flat_segment t r)) = 0" "seg_limit (enc_segment (flat_segment t r)) = 0xFFFFF"
  "descriptor_dpl (enc_segment (flat_segment t r)) = r"
  by (simp_all add: enc_segment_reads flat_segment_def of4_def)

lemma tss_base:
  assumes "gdt_install_tss base table = Some table'"
  shows "seg_base (enc_segment (table' ! 5)) = base" "i \<noteq> 5 \<Longrightarrow> table' ! i = table ! i"
proof -
  from assms have len: "5 < length table" and t: "table' = table[5 := (table ! 5)\<lparr>base_high := ucast (drop_bit 24 (base AND push_bit 24 0xFF)),
      base_mid := ucast (drop_bit 16 (base AND push_bit 16 0xFF)), base_low := ucast (base AND 0xFFFF)\<rparr>]"
    by (auto simp: gdt_install_tss_def arr_get_def bind_eq_Some_conv split: if_splits)
  have "ucast (drop_bit 24 (push_bit 24 (take_bit 8 (drop_bit 24 base)))) = (ucast (drop_bit 24 base) :: u8)"
    "ucast (drop_bit 16 (push_bit 16 (take_bit 8 (drop_bit 16 base)))) = (ucast (drop_bit 16 base) :: u8)"
    "ucast (ucast (take_bit 16 base) :: u16) = (ucast base :: u8)"
    "ucast (drop_bit 8 (ucast (take_bit 16 base) :: u16)) = (ucast (drop_bit 8 base) :: u8)"
    by (rule bit_word_eqI, auto simp: bit_simps)+
  then show "seg_base (enc_segment (table' ! 5)) = base"
    unfolding t using len by (simp only: enc_segment_reads and_16 and_byte nth_list_update_eq segment_descriptor.simps of4_b32) simp
  show "i \<noteq> 5 \<Longrightarrow> table' ! i = table ! i" unfolding t by simp
qed

end
