(* ===== verification/Interrupt.thy ===== *)
theory Interrupt
  imports Process Console Cmos Cpu_Tables CString
begin

section \<open>Interrupts and system calls: \<open>cpu/interrupt.c\<close>\<close>

text \<open>
  The whole machine: the kernel's process and page tables with the file system, the console, the
  clock, the memory of each address space by virtual address, and the log of the writes to the
  interrupt controllers. A system call gets its arguments in registers and reads its structures from
  the caller's memory; its result byte goes through the page directory that is then in CR3.
  The kernel does not check the pointers it is given. From \<open>KERNEL_VIRTUAL_ADDRESS_BASE\<close> on the memory
  of every address space is the kernel's own, with the tables above in it: the model follows a call as
  long as it leaves these bytes as they are, and a store that would change one has no result. The handler
  returns, resumes a process, halts for good, or (\<open>None\<close>) faults, never ends or is not followed.
\<close>

subsection \<open>State\<close>

record machine =
  kern :: kernel
  con :: console
  clock :: rtc
  user_mem :: "pd_ptr \<Rightarrow> mem"
  port_log :: "(u16 \<times> u8) list"
  itoa_buffer :: mem
  rtc_uninit :: mem
  gdt :: "segment_descriptor list"
  idt :: "idt_gate list"
  wakes :: "nat \<Rightarrow> bool"
  text_mem :: mem

record int_frame =
  fr_cpu :: cpu_register
  int_number :: u32
  error_code :: u32
  fr_eip :: u32
  fr_cs :: u32
  fr_eflags :: u32

datatype outcome = Returned machine | Resumed task_context machine | Halted machine

definition PIC1_OFFSET :: u32 where "PIC1_OFFSET = 0x20"
definition PIC2_OFFSET :: u32 where "PIC2_OFFSET = 0x28"
definition PIC1_DATA :: u16 where "PIC1_DATA = 0x21"
definition PIC2_DATA :: u16 where "PIC2_DATA = 0xA1"
definition PIC_DISABLE_ALL_MASK :: u8 where "PIC_DISABLE_ALL_MASK = 0xFF"
definition ICW1_ICW4 :: u8 where "ICW1_ICW4 = 0x01"
definition ICW1_INIT :: u8 where "ICW1_INIT = 0x10"
definition ICW4_8086 :: u8 where "ICW4_8086 = 0x01"
definition IRQ_TIMER :: u8 where "IRQ_TIMER = 0"
definition IRQ_KEYBOARD :: u8 where "IRQ_KEYBOARD = 1"

definition io_wait :: "(u16 \<times> u8) list" where
  "io_wait = [(0x80, 0)]"

definition pic_remap :: "(u16 \<times> u8) list" where
  "pic_remap =
     [(PIC1_COMMAND, ICW1_INIT OR ICW1_ICW4)] @ io_wait @ [(PIC2_COMMAND, ICW1_INIT OR ICW1_ICW4)] @ io_wait @
     [(PIC1_DATA, ucast PIC1_OFFSET)] @ io_wait @ [(PIC2_DATA, ucast PIC2_OFFSET)] @ io_wait @
     [(PIC1_DATA, 0x4)] @ io_wait @ [(PIC2_DATA, 0x2)] @ io_wait @
     [(PIC1_DATA, ICW4_8086)] @ io_wait @ [(PIC2_DATA, ICW4_8086)] @ io_wait @
     [(PIC1_DATA, PIC_DISABLE_ALL_MASK), (PIC2_DATA, PIC_DISABLE_ALL_MASK)]"

text \<open>\<open>masks\<close> is what is read from the controller.\<close>

definition activate_keyboard_interrupt :: "u8 \<Rightarrow> (u16 \<times> u8) list" where
  "activate_keyboard_interrupt masks = [(PIC1_DATA, masks AND NOT (push_bit (unat IRQ_KEYBOARD) 1))]"

subsection \<open>Numbers\<close>

function itoa_loop :: "int \<Rightarrow> nat \<Rightarrow> mem \<Rightarrow> (nat \<times> mem) option" where
  "itoa_loop i ptr buffer =
     (if i > 0 then
        if ptr = 0 then None
        else itoa_loop (i div 10) (ptr - 1) (buffer(ptr - 1 := of_int (i mod 10) + 0x30))
      else Some (ptr, buffer))"
  by pat_completeness auto
termination
  by (relation "measure (\<lambda>(i, ptr, buffer). nat i)") auto

declare itoa_loop.simps [simp del]

text \<open>The static buffer has 12 bytes. Negating the least \<open>int\<close> is undefined.\<close>

definition itoa :: "int \<Rightarrow> mem \<Rightarrow> (nat \<times> mem) option" where
  "itoa i buffer =
     (let ptr = 11; buffer = buffer(ptr := 0) in
      if i = 0 then Some (ptr - 1, buffer(ptr - 1 := 0x30))
      else if i = - (2 ^ 31) then None
      else do {
        (ptr, buffer) \<leftarrow> itoa_loop \<bar>i\<bar> ptr buffer;
        if i < 0 then if ptr = 0 then None else Some (ptr - 1, buffer(ptr - 1 := 0x2D))
        else Some (ptr, buffer)
      })"

subsection \<open>Structures in the caller's memory\<close>

definition request_at :: "mem \<Rightarrow> nat \<Rightarrow> request" where
  "request_at m a =
     \<lparr>buf = (\<lambda>i. m (unat (get32 m a) + i)), req_name = (\<lambda>i. m (unat (get32 m (a + 4)) + i)), name_len = m (a + 8),
      parent_inode = get32 m (a + 9), buffer_size = get32 m (a + 13), is_directory = (m (a + 17) \<noteq> 0)\<rparr>"

definition put_buffer :: "mem \<Rightarrow> u32 \<Rightarrow> mem \<Rightarrow> mem" where
  "put_buffer m p out = (\<lambda>a. if unat p \<le> a then out (a - unat p) else m a)"

definition current_mem :: "machine \<Rightarrow> mem" where
  "current_mem m = user_mem m (cr3 (kern m))"

text \<open>The new memory \<open>u\<close> of the address space \<open>pd\<close>, if its upper half is as before.\<close>

definition kernel_half_same :: "mem \<Rightarrow> mem \<Rightarrow> bool" where
  "kernel_half_same m u \<longleftrightarrow> (\<forall>a\<in>{0xC0000000..<2 ^ 32}. u a = m a)"

definition set_mem_of :: "pd_ptr \<Rightarrow> mem \<Rightarrow> machine \<Rightarrow> machine option" where
  "set_mem_of pd u m =
     (if kernel_half_same (user_mem m pd) u then Some (m\<lparr>user_mem := (user_mem m)(pd := u)\<rparr>) else None)"

definition set_mem :: "mem \<Rightarrow> machine \<Rightarrow> machine option" where
  "set_mem u m = set_mem_of (cr3 (kern m)) u m"

text \<open>\<open>*((int8_t*) ecx) = code\<close>\<close>

definition set_status :: "u32 \<Rightarrow> int \<Rightarrow> machine \<Rightarrow> machine option" where
  "set_status ecx code m = set_mem ((current_mem m)(unat ecx := of_int code)) m"

text \<open>A string literal.\<close>

definition lit :: "string \<Rightarrow> mem" where
  "lit s = (\<lambda>i. if i < length s then of_char (s ! i) else 0)"

definition print :: "mem \<Rightarrow> u32 \<Rightarrow> u8 \<Rightarrow> machine \<Rightarrow> machine" where
  "print s count color m = m\<lparr>con := puts (Some s) count color (con m)\<rparr>"

subsection \<open>System calls\<close>

definition syscall_read :: "u32 \<Rightarrow> u32 \<Rightarrow> machine \<Rightarrow> machine option" where
  "syscall_read ebx ecx m = do {
     let u = current_mem m;
     (code, out) \<leftarrow> ext2_read (kernel_fs (kern m)) (request_at u (unat ebx));
     m \<leftarrow> set_mem (put_buffer u (get32 u (unat ebx)) out) m;
     set_status ecx code m
   }"

definition syscall_read_directory :: "u32 \<Rightarrow> u32 \<Rightarrow> machine \<Rightarrow> machine option" where
  "syscall_read_directory ebx ecx m = do {
     let u = current_mem m;
     (code, out) \<leftarrow> read_directory (kernel_fs (kern m)) (if ebx = 0 then None else Some (request_at u (unat ebx)));
     m \<leftarrow> (if ebx = 0 then Some m else set_mem (put_buffer u (get32 u (unat ebx)) out) m);
     set_status ecx code m
   }"

definition syscall_write :: "u32 \<Rightarrow> u32 \<Rightarrow> machine \<Rightarrow> machine option" where
  "syscall_write ebx ecx m = do {
     (code, st) \<leftarrow> ext2_write (kernel_fs (kern m)) (if ebx = 0 then None else Some (request_at (current_mem m) (unat ebx)));
     set_status ecx code (m\<lparr>kern := (kern m)\<lparr>kernel_fs := st\<rparr>\<rparr>)
   }"

definition syscall_delete :: "u32 \<Rightarrow> u32 \<Rightarrow> machine \<Rightarrow> machine option" where
  "syscall_delete ebx ecx m = do {
     (code, st) \<leftarrow> ext2_delete (kernel_fs (kern m)) (request_at (current_mem m) (unat ebx));
     set_status ecx code (m\<lparr>kern := (kern m)\<lparr>kernel_fs := st\<rparr>\<rparr>)
   }"

definition syscall_getchar :: "u32 \<Rightarrow> machine \<Rightarrow> machine option" where
  "syscall_getchar ebx m =
     (let (c, ks) = get_keyboard_buffer (keys (con m));
          m = m\<lparr>con := (con m)\<lparr>keys := ks\<rparr>\<rparr>
      in set_mem ((current_mem m)(unat ebx := c)) m)"

text \<open>
  The executable is read with the new directory in CR3, so its bytes land in the new address
  space, and the status byte goes to the address space in CR3 after the call.
\<close>

definition syscall_create :: "u32 \<Rightarrow> u32 \<Rightarrow> machine \<Rightarrow> machine option" where
  "syscall_create ebx ecx m = do {
     let u = current_mem m;
     let entry = get32 u (unat ebx);
     (pd, _) \<leftarrow> paging_create_new_page_directory (pages (kern m));
     let req = (request_at u (unat ebx))\<lparr>buf := (\<lambda>i. user_mem m pd (unat entry + i))\<rparr>;
     (code, k, image) \<leftarrow> process_create_user_process (kern m) req entry;
     m \<leftarrow> set_mem_of pd (put_buffer (user_mem m pd) entry image) (m\<lparr>kern := k\<rparr>);
     set_status ecx code m
   }"

text \<open>What \<open>process_destroy\<close> draws over the clock when it ends a process.\<close>

definition blank_clock :: "console \<Rightarrow> console" where
  "blank_clock c = c\<lparr>screen := fold (\<lambda>i. vga_draw_char (70 + int i) 59 0x20 0x0) [0..<8] (screen c)\<rparr>"

text \<open>The screen after the end of the process in slot \<open>i\<close>, which is destroyed by its pid.\<close>

definition exit_console :: "nat \<Rightarrow> machine \<Rightarrow> console" where
  "exit_console i m =
     (if is_process_active (kern m) ! unat (pcb_pid (process_list (kern m) ! i)) then blank_clock (con m) else con m)"

definition syscall_kill :: "u32 \<Rightarrow> u32 \<Rightarrow> machine \<Rightarrow> machine option" where
  "syscall_kill ebx ecx m = do {
     (b, k) \<leftarrow> process_destroy (kern m) ebx;
     let m = m\<lparr>kern := k, con := (if b then blank_clock (con m) else con m)\<rparr>;
     set_status ecx (if b then 1 else 0) m
   }"

definition state_name :: "process_state \<Rightarrow> string" where
  "state_name s = (case s of RUNNING \<Rightarrow> ''RUNNING'' | READY \<Rightarrow> ''READY'' | BLOCK \<Rightarrow> ''BLOCKED'')"

text \<open>One line of \<open>ps\<close>: number, name and state, padded with blanks.\<close>

definition ps_line :: "pcb \<Rightarrow> machine \<Rightarrow> machine option" where
  "ps_line p m = do {
     (q, b) \<leftarrow> itoa (sint (pcb_pid p)) (itoa_buffer m);
     let m = m\<lparr>itoa_buffer := b\<rparr>;
     n \<leftarrow> strlen b q;
     let m = print (\<lambda>i. b (q + i)) (of_nat n) 0xE m;
     let m = print (lit ''      '') (6 - of_nat n) 0xE m;
     l \<leftarrow> strlen (pcb_name p) 0;
     let m = print (pcb_name p) (of_nat l) 0xE m;
     let m = print (lit (replicate 32 CHR '' '')) (32 - of_nat l) 0xC m;
     let s = state_name (process_state p);
     let m = print (lit s) (of_nat (length s)) 0xE m;
     Some (m\<lparr>con := putchar 0x0A 0xC (con m)\<rparr>)
   }"

fun ps_lines :: "nat list \<Rightarrow> machine \<Rightarrow> machine option" where
  "ps_lines [] m = Some m"
| "ps_lines (i # is) m =
     (if is_process_active (kern m) ! i then do { m \<leftarrow> ps_line (process_list (kern m) ! i) m; ps_lines is m }
      else ps_lines is m)"

definition syscall_ps :: "machine \<Rightarrow> machine option" where
  "syscall_ps m =
     (let m = print (lit ''PID   Name                            State'')
                (of_nat (length ''PID  Name                            State'')) 0xD m;
          m = m\<lparr>con := putchar 0x0A 0xC (con m)\<rparr>
      in ps_lines [0..<PROCESS_COUNT_MAX] m)"

text \<open>
  The handler runs with interrupts enabled or not, as the gate it was entered through says: an
  interrupt gate clears the flag, a trap gate leaves it set. \<open>wakes\<close> of the machine tells which of the
  interrupts that would end a \<open>hlt\<close> are ticks of the timer.
\<close>

definition interrupts_enabled :: "machine \<Rightarrow> u32 \<Rightarrow> bool" where
  "interrupts_enabled m vector \<longleftrightarrow> \<not> interrupt_gate_32 (enc_gate (idt m ! unat vector))"

definition syscall_sleep :: "bool \<Rightarrow> u32 \<Rightarrow> machine \<Rightarrow> machine option" where
  "syscall_sleep iflag ms m = do {
     now \<leftarrow> sleep_ms iflag (wakes m) ms (pit_ticks (kern m));
     Some (m\<lparr>kern := (kern m)\<lparr>pit_ticks := now\<rparr>\<rparr>)
   }"

text \<open>
  The structure \<open>rtc_time\<close> has 12 bytes: six fields, two bytes of padding, and \<open>year\<close>, which
  is never set; \<open>rtc_uninit\<close> is what the stack holds there.
\<close>

definition syscall_time :: "rtc_dev \<Rightarrow> u32 \<Rightarrow> machine \<Rightarrow> machine option" where
  "syscall_time dev ebx m = do {
     c \<leftarrow> read_rtc dev (clock m);
     let bytes = [second c, minute c, hour c, day c, month c, century c] @ map (rtc_uninit m) [6..<12];
     set_mem (blit (current_mem m) (unat ebx) bytes) (m\<lparr>clock := c\<rparr>)
   }"

text \<open>\<open>draw_info\<close>: \<open>x\<close>, \<open>y\<close>, \<open>color\<close>, \<open>character\<close>. The coordinates become \<open>int\<close>.\<close>

definition syscall_draw :: "u32 \<Rightarrow> machine \<Rightarrow> machine" where
  "syscall_draw ebx m =
     (let u = current_mem m; a = unat ebx in
      m\<lparr>con := (con m)\<lparr>screen := vga_draw_char (sint (get32 u a)) (sint (get32 u (a + 4))) (u (a + 9)) (u (a + 8)) (screen (con m))\<rparr>\<rparr>)"

definition syscall_fill :: "u32 \<Rightarrow> u32 \<Rightarrow> u32 \<Rightarrow> machine \<Rightarrow> machine" where
  "syscall_fill ebx ecx edx m =
     m\<lparr>con := (con m)\<lparr>screen := vga_fill8x8 (sint ebx) (sint ecx) (ucast edx) (screen (con m))\<rparr>\<rparr>"

definition syscall :: "rtc_dev \<Rightarrow> int_frame \<Rightarrow> machine \<Rightarrow> outcome option" where
  "syscall dev frame m =
     (let eax = reg_eax (fr_cpu frame); ebx = reg_ebx (fr_cpu frame); ecx = reg_ecx (fr_cpu frame); edx = reg_edx (fr_cpu frame) in
      if eax = 0 then map_option Returned (syscall_read ebx ecx m)
      else if eax = 1 then map_option Returned (syscall_read_directory ebx ecx m)
      else if eax = 2 then map_option Returned (syscall_write ebx ecx m)
      else if eax = 3 then map_option Returned (syscall_delete ebx ecx m)
      else if eax = 4 then map_option Returned (syscall_getchar ebx m)
      else if eax = 5 then Some (Returned (m\<lparr>con := putchar (ucast ebx) (ucast ecx) (con m)\<rparr>))
      else if eax = 6 then Some (Returned (m\<lparr>con := puts (if ebx = 0 then None else Some (\<lambda>i. current_mem m (unat ebx + i))) ecx (ucast edx) (con m)\<rparr>))
      else if eax = 7 then Some (Returned (m\<lparr>con := (con m)\<lparr>keys := keyboard_state_activate (keys (con m))\<rparr>\<rparr>))
      else if eax = 8 then Some (Returned (m\<lparr>con := clear_screen (con m)\<rparr>))
      else if eax = 9 then map_option Returned (syscall_create ebx ecx m)
      else if eax = 10 then
        (case process_get_current_running_pcb_pointer (kern m) of
           None \<Rightarrow> Some (Halted m)
         | Some i \<Rightarrow> map_option (\<lambda>(ctx, k). Resumed ctx (m\<lparr>kern := k, con := exit_console i m\<rparr>)) (syscall_exit (kern m)))
      else if eax = 11 then map_option Returned (syscall_kill ebx ecx m)
      else if eax = 12 then map_option Returned (syscall_ps m)
      else if eax = 13 then map_option Returned (syscall_sleep (interrupts_enabled m (int_number frame)) ebx m)
      else if eax = 14 then map_option Returned (syscall_time dev ebx m)
      else if eax = 15 then Some (Returned (syscall_draw ebx m))
      else if eax = 16 then Some (Returned (syscall_fill ebx ecx edx m))
      else Some (Returned m))"

subsection \<open>The interrupt handler\<close>

definition ack :: "u8 \<Rightarrow> machine \<Rightarrow> machine" where
  "ack irq m = m\<lparr>port_log := port_log m @ pic_ack irq\<rparr>"

text \<open>
  \<open>scancode\<close> is the byte the keyboard port gives. An exception ends in \<open>hlt\<close> with interrupts
  disabled, which is the end. The page directory field of the saved context
  is not initialized from the frame and not used.
\<close>

definition main_interrupt_handler :: "rtc_dev \<Rightarrow> u8 \<Rightarrow> int_frame \<Rightarrow> machine \<Rightarrow> outcome option" where
  "main_interrupt_handler dev scancode frame m =
     (if int_number frame = 0xd \<or> int_number frame = 0xe then Some (Halted m)
      else if int_number frame = ucast IRQ_KEYBOARD + PIC1_OFFSET
      then Some (Returned (ack IRQ_KEYBOARD (m\<lparr>con := (con m)\<lparr>keys := keyboard_isr scancode (keys (con m))\<rparr>\<rparr>)))
      else if int_number frame = ucast IRQ_TIMER + PIC1_OFFSET then
        let ctx = \<lparr>cpu = fr_cpu frame, eip = fr_eip frame, eflags = fr_eflags frame, page_directory_virtual_addr = PD_NULL\<rparr>
        in map_option (\<lambda>(next, k). Resumed next (ack IRQ_TIMER (m\<lparr>kern := k\<rparr>))) (timer_interrupt (kern m) ctx)
      else if int_number frame = 0x30 then syscall dev frame m
      else if int_number frame < 32 then Some (Halted m)
      else if int_number frame \<ge> PIC1_OFFSET \<and> int_number frame < PIC1_OFFSET + 16
      then Some (Returned (ack (ucast (int_number frame - PIC1_OFFSET)) m))
      else Some (Returned m))"


subsection \<open>Start-up\<close>

definition PIT_MAX_FREQUENCY :: u32 where "PIT_MAX_FREQUENCY = 1193182"
definition PIT_TIMER_COUNTER :: u32 where "PIT_TIMER_COUNTER = PIT_MAX_FREQUENCY div PIT_TIMER_FREQUENCY"
definition PIT_COMMAND_VALUE :: u8 where
  "PIT_COMMAND_VALUE = 0 OR push_bit 1 3 OR push_bit 4 3 OR push_bit 6 0"

definition activate_timer_interrupt :: "u8 \<Rightarrow> (u16 \<times> u8) list" where
  "activate_timer_interrupt masks =
     [(0x43, PIT_COMMAND_VALUE), (0x40, ucast (PIT_TIMER_COUNTER AND 0xFF)),
      (0x40, ucast (drop_bit 8 PIT_TIMER_COUNTER AND 0xFF)),
      (PIC1_DATA, masks AND NOT (push_bit (unat IRQ_TIMER) 1))]"

definition log_ports :: "(u16 \<times> u8) list \<Rightarrow> machine \<Rightarrow> machine" where
  "log_ports outs m = m\<lparr>port_log := port_log m @ outs\<rparr>"

text \<open>
  \<open>kernel_setup\<close>: the addresses of the interrupt stubs and of the task state segment, the port
  reads and the memory at address 0 are parameters. Loading the tables and setting the kernel stack
  have no effect on this state. The last call is the switch from no process (\<open>first_switch\<close>).
\<close>

definition shell_request :: "mem \<Rightarrow> request" where
  "shell_request m =
     \<lparr>buf = m, req_name = lit ''shell'', name_len = 5, parent_inode = 2, buffer_size = 0x100000, is_directory = False\<rparr>"

definition kernel_setup :: "u32 list \<Rightarrow> u32 \<Rightarrow> u8 \<Rightarrow> u8 \<Rightarrow> u8 \<Rightarrow> machine \<Rightarrow> (task_context \<times> machine) option" where
  "kernel_setup isr_stub_table tss_address crtc masks1 masks2 m = do {
     let m = log_ports pic_remap m;
     table \<leftarrow> initialize_idt isr_stub_table (idt m);
     let m = log_ports (activate_keyboard_interrupt masks1) (m\<lparr>idt := table\<rparr>);
     let m = log_ports (framebuffer_set_cursor 0 0) (m\<lparr>text_mem := framebuffer_clear (text_mem m)\<rparr>);
     let m = m\<lparr>con := console_init crtc (con m)\<rparr>;
     st \<leftarrow> initialize_filesystem_ext2 (kernel_fs (kern m));
     descriptors \<leftarrow> gdt_install_tss tss_address (gdt m);
     let m = m\<lparr>gdt := descriptors\<rparr>;
     let k = (kern m)\<lparr>kernel_fs := st\<rparr>;
     (_, pg) \<leftarrow> paging_allocate_user_page_frame (pages k) PD_KERNEL 0;
     let k = k\<lparr>pages := pg\<rparr>;
     (_, image) \<leftarrow> ext2_read st (shell_request (user_mem m PD_KERNEL));
     (_, k, image) \<leftarrow> process_create_user_process k (shell_request image) 0;
     let m = log_ports (activate_timer_interrupt masks2) m;
     (next, k) \<leftarrow> first_switch k;
     Some (next, m\<lparr>kern := k\<rparr>)
   }"

end
