(* ===== verification/Device_Theorems.thy ===== *)
theory Device_Theorems
  imports Interrupt Process_Theorems
begin

section \<open>Properties of the devices, the descriptor tables and the interrupt handler\<close>

text \<open>
  The properties of \<open>drivers/\<close> and \<open>cpu/\<close>. The states of the applications are a black screen with
  the cursor at its start, an initial keyboard and clock, and empty tables.
\<close>

definition black_vga :: vga where
  "black_vga = \<lparr>seq_index = 0, gc_index = 0, map_mask = 0, read_map = 0, planes = \<lambda>_ _. 0\<rparr>"

definition black_console :: console where
  "black_console = framebuffer_state black_vga keyboard_init"

lemma black_console: "cursor_ok black_console" "no_arrow black_console" "fb_col black_console = 0" "fb_row black_console = 1"
  by (simp_all add: black_console_def framebuffer_state_def cursor_ok_def no_arrow_def keyboard_init_def special_keys)

subsection \<open>The screen\<close>

text \<open>What is to be seen: the set pixels of the four planes.\<close>

definition shown :: "vga \<Rightarrow> (nat \<times> int \<times> int) set" where
  "shown s = {(p, u, v). p < 4 \<and> on_screen u v \<and> pixel s p u v}"

text \<open>
  C28: The planar block fill, which writes whole bytes under masks in each plane, shows exactly what
  drawing the 64 pixels of the block one after the other shows, for every alignment and colour;
  a block that is not completely on the screen is not drawn at all.
\<close>

theorem fill_is_64_pixels:
  "shown (vga_fill8x8 x y c s) =
    shown (if 0 \<le> x \<and> x + 8 \<le> 640 \<and> 0 \<le> y \<and> y + 8 \<le> 480 then draw_box x y [0..<8] c s else s)"
proof -
  have rows: "(\<exists>r\<in>set [0..<8]. v = y + int r) \<longleftrightarrow> y \<le> v \<and> v < y + 8" for v
  proof
    assume "y \<le> v \<and> v < y + 8"
    then show "\<exists>r\<in>set [0..<8]. v = y + int r" by (intro bexI [of _ "nat (v - y)"]) (auto simp: nat_less_iff)
  qed auto
  have "pixel (vga_fill8x8 x y c s) p u v =
      pixel (if 0 \<le> x \<and> x + 8 \<le> 640 \<and> 0 \<le> y \<and> y + 8 \<le> 480 then draw_box x y [0..<8] c s else s) p u v"
    if "p < 4" "on_screen u v" for p u v
    unfolding pixel_fill8x8 [OF that(2,1)] by (simp add: pixel_draw_box [OF that(2,1)] rows del: set_upt)
  then show ?thesis by (auto simp: shown_def)
qed

text \<open>
  Drawing a character changes its own 8x8 cell and nothing else: a printable one shows its glyph
  over black, any other code, also a negative \<open>char\<close>, draws nothing.
\<close>

theorem character_cell:
  "shown (vga_draw_char col row ch c s) =
    (if printable ch
     then {(p, u, v). p < 4 \<and> on_screen u v \<and>
       (if u div 8 = col \<and> v div 8 = row then glyph_bit ch u v \<and> bit c p else pixel s p u v)}
     else shown s)"
  using pixel_draw_char by (auto simp: shown_def printable_def glyph_bit_def split: if_splits)

text \<open>
  C29: Printing a string of printable characters that fits on the line leaves the glyph of every
  character in its cell, the cursor line in the cell after them, every other pixel as it
  was, and the cursor behind the string.
\<close>

theorem puts_shows:
  assumes "cursor_ok s" "no_arrow s" "fb_col s + int n < 80" "\<And>k. k < n \<Longrightarrow> printable (str k)"
    "n \<le> unat count" "n < unat count \<Longrightarrow> str n = 0"
  shows "fb_col (puts (Some str) count color s) = fb_col s + int n \<and> fb_row (puts (Some str) count color s) = fb_row s \<and>
    shown (screen (puts (Some str) count color s)) = {(p, u, v). p < 4 \<and> on_screen u v \<and>
      (if v div 8 = fb_row s \<and> fb_col s \<le> u div 8 \<and> u div 8 < fb_col s + int n
       then glyph_bit (str (nat (u div 8 - fb_col s))) u v \<and> bit color p
       else if 0 < n \<and> u div 8 = fb_col s + int n \<and> v div 8 = fb_row s \<and> v mod 8 = 7 then bit color p
       else pixel (screen s) p u v)}"
proof -
  have ch: "printable (str (0 + k))" if "k < n" for k using assms(4) [OF that] by simp
  have stop: "str (0 + n) = 0" if "n < unat count" using assms(6) [OF that] by simp
  note line = puts_line [where str = str and i = 0 and color = color, OF assms(1-3) ch assms(5) stop]
  have "shown (screen (puts_from str 0 (unat count) color s)) = {(p, u, v). p < 4 \<and> on_screen u v \<and>
      (if v div 8 = fb_row s \<and> fb_col s \<le> u div 8 \<and> u div 8 < fb_col s + int n
       then glyph_bit (str (nat (u div 8 - fb_col s))) u v \<and> bit color p
       else if 0 < n \<and> u div 8 = fb_col s + int n \<and> v div 8 = fb_row s \<and> v mod 8 = 7 then bit color p
       else pixel (screen s) p u v)}"
    unfolding shown_def by (simp only: line(3) add_0 cong: conj_cong)
  then show ?thesis using line(1,2) by (simp add: puts_def)
qed

theorem puts_shows_witness: "fb_col (puts (Some (lit ''ok'')) 5 0xF black_console) = 2"
proof -
  have "printable (lit ''ok'' k)" if "k < 2" for k
    using that by (auto simp: less_2_cases_iff lit_def printable_def of_char_def)
  moreover have "lit ''ok'' 2 = 0" by (simp add: lit_def)
  ultimately show ?thesis
    using puts_shows [OF black_console(1,2), where n = 2 and count = 5 and str = "lit ''ok''"] black_console(3) by simp
qed

text \<open>
  Erasing the cursor erases too much: besides the cursor's line it blanks the whole cell below
  it, so a newline, a backspace or an arrow key removes the character under the cursor's cell.
\<close>

theorem clear_cursor_blanks_below:
  "shown (screen (clear_cursor s)) =
    shown (screen s) - {(p, u, v). u div 8 = fb_col s \<and> (v div 8 = fb_row s \<and> v mod 8 = 7 \<or> v div 8 = fb_row s + 1)}"
  using pixel_clear_cursor by (auto simp: shown_def clear_cursor_def)

subsection \<open>The keyboard\<close>

text \<open>
  C32: What a key types. With the input on, a key that has a character puts it into the buffer:
  a letter in upper case exactly when one of Shift and Caps Lock is on, any other key shifted when
  Shift is on and Caps Lock is not. So with both on a symbol key types its unshifted character.
\<close>

theorem key_types:
  assumes "keyboard_input_on s" "\<not> read_extended_mode s" "c < 0x80" "\<not> modifier c"
    "keyboard_scancode_1_to_ascii_map ! unat c \<noteq> 0"
  shows "keyboard_isr c s = s\<lparr>keyboard_buffer :=
    (let plain = keyboard_scancode_1_to_ascii_map ! unat c in
     if is_letter plain then (if shift_pressed s \<noteq> caps_lock_on s then plain - 32 else plain)
     else if shift_pressed s \<and> \<not> caps_lock_on s then keyboard_scancode_1_to_ascii_uppercase_map ! unat c else plain)\<rparr>"
  unfolding typed_key [OF assms] using map_facts(1) [of c] unat_u8_less [of c] by (simp add: Let_def)

theorem key_types_witness:
  "keyboard_buffer (keyboard_isr 0x02 ((keyboard_state_activate keyboard_init)\<lparr>shift_pressed := True, caps_lock_on := True\<rparr>)) = of_char CHR ''1''"
proof -
  have "keyboard_scancode_1_to_ascii_map ! 2 = 0x31" by (simp add: keyboard_scancode_1_to_ascii_map_def)
  then show ?thesis
    using key_types [of "(keyboard_state_activate keyboard_init)\<lparr>shift_pressed := True, caps_lock_on := True\<rparr>" "0x02"]
    by (simp add: keyboard_state_activate_def modifier_def scancodes is_letter_def of_char_def)
qed

text \<open>
  C31: The modifiers follow the keys. After any sequence of scancodes, Shift counts as pressed
  exactly when the last Shift code outside extended sequences was a press, and Caps Lock is toggled
  once for each press code of its key; releases and extended codes do not matter. The driver has one flag for
  both Shift keys: it is off as soon as one of them is released, also while the other is still held, where
  the comment of \<open>keyboard.h\<close> says "either shift key is currently pressed" (the application shows such a sequence).
\<close>

theorem modifiers_follow_keys:
  assumes "keyboard_input_on s"
  shows "shift_pressed (fold keyboard_isr cs s) =
      (case filter shift_code (base_codes (read_extended_mode s) cs) of [] \<Rightarrow> shift_pressed s | x # xs \<Rightarrow> last (x # xs) < 0x80) \<and>
    caps_lock_on (fold keyboard_isr cs s) =
      (caps_lock_on s \<noteq> odd (count_list (base_codes (read_extended_mode s) cs) SCANCODE_CAPS_LOCK))"
  using modifiers_after [OF assms, of cs] by (simp add: Let_def)

theorem modifiers_follow_keys_witness:
  "shift_pressed (fold keyboard_isr [0x2A, 0xE0, 0xAA, 0x3A] (keyboard_state_activate keyboard_init)) \<and>
   caps_lock_on (fold keyboard_isr [0x2A, 0xE0, 0xAA, 0x3A] (keyboard_state_activate keyboard_init)) \<and>
   \<not> shift_pressed (fold keyboard_isr [0x2A, 0x36, 0xAA] (keyboard_state_activate keyboard_init))"
  using modifiers_follow_keys [of "keyboard_state_activate keyboard_init" "[0x2A, 0xE0, 0xAA, 0x3A]"]
    modifiers_follow_keys [of "keyboard_state_activate keyboard_init" "[0x2A, 0x36, 0xAA]"]
  by (simp add: keyboard_state_activate_def shift_code_def scancodes)

subsection \<open>Numbers\<close>

text \<open>A decimal digit, and the number a string of digits denotes.\<close>

definition digit :: "u8 \<Rightarrow> bool" where
  "digit d \<longleftrightarrow> 0x30 \<le> d \<and> d \<le> 0x39"

definition number :: "u8 list \<Rightarrow> int" where
  "number xs = foldl (\<lambda>a d. 10 * a + (int (unat d) - 48)) 0 xs"

lemma digit_of_mod: "digit (of_int (i mod 10) + 0x30) \<and> int (unat (of_int (i mod 10) + 0x30 :: u8)) = i mod 10 + 48"
proof -
  obtain n where n: "i mod 10 = int n" "n < 10" by (rule that [of "nat (i mod 10)"]) (simp_all add: nat_less_iff)
  have "of_int (i mod 10) + 0x30 = (of_nat (n + 48) :: u8)" using n(1) by simp
  moreover have "unat (of_nat (n + 48) :: u8) = n + 48" using n(2) by (simp add: unat_of_nat del: of_nat_add)
  ultimately show ?thesis using n by (simp add: digit_def word_le_nat_alt del: of_nat_add)
qed

lemma itoa_loop_spec:
  "0 \<le> i \<Longrightarrow> i < 10 ^ k \<Longrightarrow> k \<le> ptr \<Longrightarrow> \<exists>p b xs. itoa_loop i ptr m = Some (p, b) \<and> p + length xs = ptr \<and>
     (\<forall>j<length xs. b (p + j) = xs ! j) \<and> (\<forall>a\<ge>ptr. b a = m a) \<and> (\<forall>d\<in>set xs. digit d) \<and> number xs = i \<and> length xs \<le> k \<and> (0 < i \<longrightarrow> xs \<noteq> [])"
proof (induction i ptr m arbitrary: k rule: itoa_loop.induct)
  case (1 i ptr m)
  show ?case
  proof (cases "0 < i")
    case False
    then show ?thesis using 1(2) by (subst itoa_loop.simps) (auto simp: number_def intro!: exI [of _ "[]"])
  next
    case True
    then obtain k' where k: "k = Suc k'" using 1(3) by (cases k) auto
    have ptr: "ptr \<noteq> 0" using 1(4) k by simp
    let ?d = "of_int (i mod 10) + 0x30 :: u8" and ?m = "m(ptr - 1 := of_int (i mod 10) + 0x30)"
    have div: "0 \<le> i div 10" "i div 10 < 10 ^ k'" using True 1(3) k by auto
    have le: "k' \<le> ptr - 1" using 1(4) k by simp
    from 1(1) [OF True ptr div le] obtain p b xs where
      r: "itoa_loop (i div 10) (ptr - 1) ?m = Some (p, b)" "p + length xs = ptr - 1" "\<forall>j<length xs. b (p + j) = xs ! j"
      "\<forall>a\<ge>ptr - 1. b a = ?m a" "\<forall>d\<in>set xs. digit d" "number xs = i div 10" "length xs \<le> k'"
      by blast
    have "itoa_loop i ptr m = Some (p, b)" using r(1) True ptr by (subst itoa_loop.simps) simp
    moreover have "p + length (xs @ [?d]) = ptr" using r(2) ptr by simp
    moreover have "b (p + j) = (xs @ [?d]) ! j" if "j < length (xs @ [?d])" for j
      using r(2-4) that by (cases "j < length xs") (auto simp: nth_append less_Suc_eq)
    moreover have "\<forall>a\<ge>ptr. b a = m a" using r(4) ptr by auto
    moreover have "\<forall>d\<in>set (xs @ [?d]). digit d" using r(5) digit_of_mod by auto
    moreover have "number (xs @ [?d]) = i" using r(6) digit_of_mod [of i] by (simp add: number_def)
    ultimately show ?thesis using r(7) k by (intro exI [of _ p] exI [of _ b] exI [of _ "xs @ [?d]"]) auto
  qed
qed

text \<open>
  C33: Numbers are printed right. For every \<open>int\<close> but the least one, \<open>itoa\<close> stays inside its 12-byte
  buffer and leaves a NUL-terminated string: a minus sign exactly for a negative number, then
  at least one digit, and the digits denote the absolute value.
\<close>

theorem itoa_prints:
  assumes "- (2 ^ 31) < i" "i < 2 ^ 31"
  shows "\<exists>p b xs. itoa i m = Some (p, b) \<and> p \<le> 10 \<and> cstr b p (if i < 0 then 0x2D # xs else xs) \<and>
    p + length (if i < 0 then 0x2D # xs else xs) = 11 \<and> xs \<noteq> [] \<and> (\<forall>d\<in>set xs. digit d) \<and> number xs = \<bar>i\<bar>"
proof (cases "i = 0")
  case True
  then show ?thesis by (intro exI [of _ 10] exI [of _ "m(11 := 0, 10 := 0x30)"] exI [of _ "[0x30]"])
      (simp add: itoa_def Let_def digit_def number_def)
next
  case False
  have "\<bar>i\<bar> < 10 ^ 10" "(0 :: int) < \<bar>i\<bar>" using assms False by auto
  then obtain p b xs where
    r: "itoa_loop \<bar>i\<bar> 11 (m(11 := 0)) = Some (p, b)" "p + length xs = 11" "\<forall>j<length xs. b (p + j) = xs ! j"
    "\<forall>a\<ge>11. b a = (m(11 := 0)) a" "\<forall>d\<in>set xs. digit d" "number xs = \<bar>i\<bar>" "length xs \<le> 10" "xs \<noteq> []"
    using itoa_loop_spec [of "\<bar>i\<bar>" 10 11 "m(11 := 0)"] by auto
  have nz: "xs ! j \<noteq> 0" if "j < length xs" for j
    using r(5) nth_mem [OF that] by (auto simp: digit_def)
  have pos: "p \<noteq> 0" using r(2,7) by simp
  have end0: "b 11 = 0" using r(4) by simp
  have str: "cstr b p xs" unfolding cstr_def using r(2,3) nz end0 by auto
  show ?thesis
  proof (cases "i < 0")
    case True
    have "cstr (b(p - 1 := 0x2D)) (Suc (p - 1)) xs" using str pos by (subst cstr_cong [of xs _ _ b p]) auto
    then have "cstr (b(p - 1 := 0x2D)) (p - 1) (0x2D # xs)" by simp
    moreover have "itoa i m = Some (p - 1, b(p - 1 := 0x2D))" using r(1) True assms pos False by (simp add: itoa_def Let_def)
    ultimately show ?thesis using r(2,5-8) True pos
      by (intro exI [of _ "p - 1"] exI [of _ "b(p - 1 := 0x2D)"] exI [of _ xs]) (cases xs; auto)
  next
    case neg: False
    have "itoa i m = Some (p, b)" using r(1) neg assms False by (simp add: itoa_def Let_def)
    moreover have "p \<le> 10" using r(2,8) by (cases xs) auto
    ultimately show ?thesis using str r(2,5-8) neg
      by (intro exI [of _ p] exI [of _ b] exI [of _ xs]) auto
  qed
qed

theorem itoa_prints_witness: "\<exists>p b. itoa (- 2025) (\<lambda>_. 0) = Some (p, b) \<and> b p = 0x2D"
  using itoa_prints [of "- 2025" "\<lambda>_. 0"] by auto

subsection \<open>The clock\<close>

text \<open>
  Reading the clock. When the chip holds still and is in BCD mode, \<open>read_rtc\<close> returns, and the
  minute, second, day and month are the numbers the registers encode.
\<close>

theorem clock_decodes:
  assumes "century_register s = 0" "\<And>n r. dev n r = v r" "v 0x0A AND 0x80 = 0" "v 0x0B AND 0x04 = 0"
    and "v 0 = to_bcd sec" "v 2 = to_bcd mn" "v 7 = to_bcd d" "v 8 = to_bcd mon"
    and "sec < 100" "mn < 100" "d < 100" "mon < 100"
  shows "\<exists>s'. read_rtc dev s = Some s' \<and> second s' = of_nat sec \<and> minute s' = of_nat mn \<and> day s' = of_nat d \<and> month s' = of_nat mon"
proof -
  have "steady dev v" using assms(2,3) by (simp add: steady_def)
  from read_rtc_steady [OF this assms(1)] assms(4-12) show ?thesis by (auto simp: from_bcd_to_bcd)
qed

theorem clock_decodes_witness:
  "\<exists>s'. read_rtc (\<lambda>_ r. if r = 0 then 0x59 else if r = 2 then 0x07 else if r = 7 then 0x31 else if r = 8 then 0x12 else 0) rtc_init = Some s' \<and>
    second s' = 59 \<and> minute s' = 7 \<and> day s' = 31 \<and> month s' = 12"
  using clock_decodes [where s = rtc_init and v = "\<lambda>r. if r = 0 then 0x59 else if r = 2 then 0x07 else if r = 7 then 0x31 else if r = 8 then 0x12 else 0"
      and sec = 59 and mn = 7 and d = 31 and mon = 12 and dev = "\<lambda>_ r. if r = 0 then 0x59 else if r = 2 then 0x07 else if r = 7 then 0x31 else if r = 8 then 0x12 else 0"]
  by (simp add: rtc_init_def to_bcd_def)

text \<open>
  The twelve-hour clock. The conversion gives the hour of the day for every hour but twelve: noon
  becomes 0 and midnight 12.
\<close>

theorem twelve_o_clock:
  assumes "1 \<le> h" "h \<le> 12" "registerB AND 0x02 = 0"
  shows "convert_hour registerB (hour_from_bcd (to_bcd h OR (if pm then 0x80 else 0))) =
    of_nat (if h = 12 then (if pm then 0 else 12) else h + (if pm then 12 else 0))"
  using convert_twelve_hour [of h registerB pm] assms by (auto simp: twelve_hour_def hour_of_day_def)

theorem twelve_o_clock_witness: "convert_hour 0 (hour_from_bcd (to_bcd 12 OR 0x80)) = 0"
  using twelve_o_clock [of 12 0 True] by simp

subsection \<open>Descriptor tables\<close>

text \<open>
  C30: The interrupt table. After \<open>initialize_idt\<close> each of the 64 vectors is a present 32-bit
  interrupt gate to its own stub in the kernel's code segment; only vector 0x30, the system call, may
  be raised from user mode; the other vectors are as before.
\<close>

theorem interrupt_table:
  assumes "length table = 256" "length stubs = 64"
  shows "\<exists>table'. initialize_idt stubs table = Some table' \<and> length table' = 256 \<and>
    (\<forall>i<64. gate_offset (enc_gate (table' ! i)) = stubs ! i \<and> gate_selector (enc_gate (table' ! i)) = GDT_KERNEL_CODE_SEGMENT_SELECTOR \<and>
       descriptor_dpl (enc_gate (table' ! i)) = (if i = 0x30 then 3 else 0) \<and> interrupt_gate_32 (enc_gate (table' ! i))) \<and>
    (\<forall>i. 64 \<le> i \<and> i < 256 \<longrightarrow> table' ! i = table ! i)"
  using initialize_idt_spec [OF assms] unfolding good_gate_def .

theorem interrupt_table_witness:
  "\<exists>table'. initialize_idt (replicate 64 0xC0101000) (replicate 256 zero_gate) = Some table' \<and>
     gate_offset (enc_gate (table' ! 0x21)) = 0xC0101000 \<and> descriptor_dpl (enc_gate (table' ! 0x30)) = 3"
proof -
  obtain t where t: "initialize_idt (replicate 64 0xC0101000) (replicate 256 zero_gate) = Some t"
    "\<forall>i<64. gate_offset (enc_gate (t ! i)) = replicate 64 0xC0101000 ! i \<and>
       gate_selector (enc_gate (t ! i)) = GDT_KERNEL_CODE_SEGMENT_SELECTOR \<and>
       descriptor_dpl (enc_gate (t ! i)) = (if i = 0x30 then 3 else 0) \<and> interrupt_gate_32 (enc_gate (t ! i))"
    using interrupt_table [of "replicate 256 zero_gate" "replicate 64 0xC0101000"] by auto
  from t(2) [rule_format, of "0x21"] t(2) [rule_format, of "0x30"] t(1) show ?thesis by simp
qed

text \<open>
  The segments. The kernel's and the user's code and data segments cover the same flat
  address space, those of the user at privilege level 3, and after \<open>gdt_install_tss\<close> the processor
  finds the task state segment at its address, with the other descriptors unchanged.
\<close>

theorem segments:
  "\<exists>table. gdt_install_tss address global_descriptor_table = Some table \<and> seg_base (enc_segment (table ! 5)) = address \<and>
    (\<forall>i\<in>{1, 2, 3, 4}. seg_base (enc_segment (table ! i)) = 0 \<and> seg_limit (enc_segment (table ! i)) = 0xFFFFF \<and>
       descriptor_dpl (enc_segment (table ! i)) = (if i \<le> 2 then 0 else 3))"
proof -
  obtain t where t: "gdt_install_tss address global_descriptor_table = Some t"
    by (auto simp: gdt_install_tss_def global_descriptor_table_def arr_get_def arr_put_def)
  have "t ! i = global_descriptor_table ! i" if "i \<noteq> 5" for i using tss_base(2) [OF t that] .
  then have "t ! 1 = flat_segment 0xA 0" "t ! 2 = flat_segment 2 0" "t ! 3 = flat_segment 0xA 3" "t ! 4 = flat_segment 2 3"
    by (simp_all add: global_descriptor_table_def)
  then show ?thesis using t tss_base(1) [OF t] by (auto simp: flat_segment_reads)
qed

theorem segments_witness:
  "\<exists>table. gdt_install_tss 0xC0123456 global_descriptor_table = Some table \<and> seg_base (enc_segment (table ! 5)) = 0xC0123456"
  using segments [of "0xC0123456"] by blast

subsection \<open>The interrupt handler\<close>

definition machine_ok :: "machine \<Rightarrow> bool" where
  "machine_ok m \<longleftrightarrow> proc_ok (kern m) \<and> cursor_ok (con m)"

fun machine_of :: "outcome \<Rightarrow> machine" where
  "machine_of (Returned m) = m"
| "machine_of (Resumed ctx m) = m"
| "machine_of (Halted m) = m"

definition resumes_current :: "outcome \<Rightarrow> bool" where
  "resumes_current out \<longleftrightarrow> (case out of
     Resumed ctx m \<Rightarrow> (let n = unat (current_running_pid (kern m)) in n < 16 \<and> is_process_active (kern m) ! n \<and>
       process_state (process_list (kern m) ! n) = RUNNING \<and> ctx = pcb_context (process_list (kern m) ! n) \<and> cr3 (kern m) = page_directory_virtual_addr ctx)
   | _ \<Rightarrow> True)"

lemma switch_resumes:
  assumes "proc_ok k" "scheduler_switch_to_next_process k = Some (ctx, k')"
  shows "unat (current_running_pid k') < 16 \<and> is_process_active k' ! unat (current_running_pid k') \<and>
    process_state (process_list k' ! unat (current_running_pid k')) = RUNNING \<and>
    ctx = pcb_context (process_list k' ! unat (current_running_pid k')) \<and> cr3 k' = page_directory_virtual_addr ctx"
  using assms(2,1)
proof (cases rule: switch_cases)
  case (1 n pl)
  note o = proc_okD [OF assms(1)]
  have n: "unat (of_nat n :: u32) = n" using 1(1) by (simp add: unat_of_nat_u32)
  show ?thesis using 1 o(1) by (auto simp: n dir_ptr_def nth_list_upd)
qed

lemma print_kern [simp]: "kern (print s n color m) = kern m"
  by (simp add: print_def)

text \<open>A store leaves the kernel and the console alone.\<close>

lemma store_fields:
  "set_mem_of pd u m = Some m' \<Longrightarrow> kern m' = kern m \<and> con m' = con m"
  "set_mem u m = Some m' \<Longrightarrow> kern m' = kern m \<and> con m' = con m"
  "set_status ecx code m = Some m' \<Longrightarrow> kern m' = kern m \<and> con m' = con m"
  by (auto simp: set_mem_of_def set_mem_def set_status_def split: if_splits)

lemma cursor_ok_print: "cursor_ok (con m) \<Longrightarrow> cursor_ok (con (print s n color m))"
  by (simp add: print_def puts_def puts_cursor_ok)

lemma machine_okI: "proc_ok (kern m) \<Longrightarrow> cursor_ok (con m) \<Longrightarrow> machine_ok m"
  by (simp add: machine_ok_def)

lemma ps_line_keeps: "ps_line p m = Some m' \<Longrightarrow> machine_ok m \<Longrightarrow> machine_ok m'"
proof -
  assume "ps_line p m = Some m'" and ok: "machine_ok m"
  then obtain q b n l where m': "m' = (let m = m\<lparr>itoa_buffer := b\<rparr>; m = print (\<lambda>i. b (q + i)) (of_nat n) 0xE m;
      m = print (lit ''      '') (6 - of_nat n) 0xE m; m = print (pcb_name p) (of_nat l) 0xE m;
      m = print (lit (replicate 32 CHR '' '')) (32 - of_nat l) 0xC m;
      m = print (lit (state_name (process_state p))) (of_nat (length (state_name (process_state p)))) 0xE m
    in m\<lparr>con := putchar 0x0A 0xC (con m)\<rparr>)"
    unfolding ps_line_def Let_def by (auto simp: bind_eq_Some_conv)
  show ?thesis
    using ok unfolding m' Let_def machine_ok_def by (simp add: putchar_cursor_ok cursor_ok_print)
qed

lemma ps_lines_keeps: "ps_lines is m = Some m' \<Longrightarrow> machine_ok m \<Longrightarrow> machine_ok m'"
  by (induction "is" arbitrary: m) (auto simp: bind_eq_Some_conv split: if_splits dest: ps_line_keeps)

lemma syscall_ps_keeps: "syscall_ps m = Some m' \<Longrightarrow> machine_ok m \<Longrightarrow> machine_ok m'"
  unfolding syscall_ps_def Let_def
  by (erule ps_lines_keeps) (simp add: machine_ok_def putchar_cursor_ok cursor_ok_print)

lemma clear_screen_ok: "cursor_ok (clear_screen c)"
  by (simp add: clear_screen_def) (simp add: cursor_ok_def)

lemma blank_clock_ok [simp]: "cursor_ok (blank_clock c) = cursor_ok c"
  by (simp add: blank_clock_def)

lemma file_calls_keep:
  "syscall_read ebx ecx m = Some m' \<Longrightarrow> machine_ok m \<Longrightarrow> machine_ok m'"
  "syscall_read_directory ebx ecx m = Some m' \<Longrightarrow> machine_ok m \<Longrightarrow> machine_ok m'"
  "syscall_write ebx ecx m = Some m' \<Longrightarrow> machine_ok m \<Longrightarrow> machine_ok m'"
  "syscall_delete ebx ecx m = Some m' \<Longrightarrow> machine_ok m \<Longrightarrow> machine_ok m'"
  "syscall_time dev ebx m = Some m' \<Longrightarrow> machine_ok m \<Longrightarrow> machine_ok m'"
  "syscall_sleep iflag ms m = Some m' \<Longrightarrow> machine_ok m \<Longrightarrow> machine_ok m'"
  "syscall_getchar ebx m = Some m' \<Longrightarrow> machine_ok m \<Longrightarrow> machine_ok m'"
  by (auto simp: syscall_read_def syscall_read_directory_def syscall_write_def syscall_delete_def syscall_time_def
      syscall_sleep_def syscall_getchar_def get_keyboard_buffer_def machine_ok_def bind_eq_Some_conv Let_def
      split: if_splits option.splits dest!: store_fields)

lemma process_calls_keep:
  "syscall_create ebx ecx m = Some m' \<Longrightarrow> machine_ok m \<Longrightarrow> machine_ok m'"
  "syscall_kill ebx ecx m = Some m' \<Longrightarrow> machine_ok m \<Longrightarrow> machine_ok m'"
  by (auto simp: syscall_create_def syscall_kill_def machine_ok_def bind_eq_Some_conv Let_def
      dest!: store_fields dest: create_keeps destroy_keeps split: if_splits)

lemma resumed_ok:
  assumes "proc_ok k1" "scheduler_switch_to_next_process k1 = Some (ctx, kern m)"
  shows "resumes_current (Resumed ctx m)"
  using switch_resumes [OF assms] by (simp add: resumes_current_def Let_def)

lemma console_calls_keep:
  assumes "machine_ok m"
  shows "machine_ok (m\<lparr>con := putchar c color (con m)\<rparr>)"
    "machine_ok (m\<lparr>con := puts str n color (con m)\<rparr>)" "machine_ok (m\<lparr>con := (con m)\<lparr>keys := ks\<rparr>\<rparr>)"
    "machine_ok (m\<lparr>con := clear_screen (con m)\<rparr>)" "machine_ok (syscall_draw ebx m)" "machine_ok (syscall_fill ebx ecx edx m)"
  using assms
  by (simp_all add: machine_ok_def puts_def putchar_cursor_ok puts_cursor_ok
      clear_screen_ok syscall_draw_def syscall_fill_def Let_def split: option.split)

lemma if_SomeE: "(if b then x else y) = Some out \<Longrightarrow> (b \<Longrightarrow> x = Some out \<Longrightarrow> P) \<Longrightarrow> (\<not> b \<Longrightarrow> y = Some out \<Longrightarrow> P) \<Longrightarrow> P"
  by (simp split: if_splits)

lemma returned_ok: "x = Some out \<Longrightarrow> x = map_option Returned y \<Longrightarrow> (\<And>m'. y = Some m' \<Longrightarrow> machine_ok m') \<Longrightarrow>
    \<exists>m'. out = Returned m' \<and> machine_ok m'"
  by auto

lemmas calls_keep = file_calls_keep process_calls_keep syscall_ps_keeps

lemma syscall_keeps:
  assumes "machine_ok m" "syscall dev frame m = Some out"
  shows "machine_ok (machine_of out) \<and> resumes_current out"
proof (cases "reg_eax (fr_cpu frame) = 10")
  case True
  show ?thesis
  proof (cases "process_get_current_running_pcb_pointer (kern m)")
    case None
    then show ?thesis using assms True by (auto simp: syscall_def Let_def resumes_current_def)
  next
    case (Some i)
    then obtain ctx k where e: "syscall_exit (kern m) = Some (ctx, k)" "out = Resumed ctx (m\<lparr>kern := k, con := exit_console i m\<rparr>)"
      using assms(2) True by (auto simp: syscall_def Let_def)
    have "proc_ok (kern m)" using assms(1) by (simp add: machine_ok_def)
    from exit_switch [OF this e(1)] obtain k1 where k1: "proc_ok k1" "scheduler_switch_to_next_process k1 = Some (ctx, k)" .
    then have "proc_ok k" by (rule switch_keeps)
    with k1 show ?thesis using assms(1) resumed_ok [of k1 ctx "m\<lparr>kern := k, con := exit_console i m\<rparr>"]
      by (simp add: e(2) machine_ok_def exit_console_def)
  qed
next
  case False
  have "\<exists>m'. out = Returned m' \<and> machine_ok m'"
    using assms(2) unfolding syscall_def Let_def
    by (elim if_SomeE) (use False calls_keep [OF _ assms(1)] console_calls_keep [OF assms(1)] assms(1) in \<open>auto simp: map_option_eq_Some\<close>)
  then show ?thesis by (auto simp: resumes_current_def)
qed


definition small_idt :: "idt_gate list" where
  "small_idt = the (initialize_idt (replicate 64 0xC0101000) (replicate 256 zero_gate))"

definition small_machine :: machine where
  "small_machine =
     \<lparr>kern = two_procs, con = black_console, clock = \<lparr>reads = 0, second = 0, minute = 0, hour = 0, day = 0, month = 0, century = 0, year = 0, century_register = 0\<rparr>,
      user_mem = (\<lambda>_ _. 0), port_log = [], itoa_buffer = (\<lambda>_. 0), rtc_uninit = (\<lambda>_. 0), gdt = [], idt = small_idt, wakes = (\<lambda>_. True), text_mem = (\<lambda>_. 0)\<rparr>"

definition frame_of :: "u32 \<Rightarrow> int_frame" where
  "frame_of n =
     \<lparr>fr_cpu = cpu (pcb_context zero_pcb), int_number = n, error_code = 0, fr_eip = 0, fr_cs = 0, fr_eflags = 0\<rparr>"

lemma small_machine_ok: "machine_ok small_machine" "kern small_machine = two_procs"
  by (simp_all add: small_machine_def machine_ok_def two_procs_ok black_console)



definition sleep_frame :: "u32 \<Rightarrow> int_frame" where
  "sleep_frame ms = (frame_of 0x30)\<lparr>fr_cpu := (cpu (pcb_context zero_pcb))\<lparr>reg_eax := 13, reg_ebx := ms\<rparr>\<rparr>"


end
