(* ===== verification/User.thy ===== *)
theory User
  imports Interrupt
begin

section \<open>User programs: the system calls they make\<close>

text \<open>
  A user program runs on the machine and sees it through \<open>int 0x30\<close>. Its own variables are values of
  the model; where they lie in memory is the compiler's choice, so a call takes the request itself and
  gives back the buffer and the status it leaves. That this is what \<open>syscall\<close> does with the structures
  in memory is proved below. \<open>junk\<close> is what the stack holds where a program reads a variable it has
  not set, a fresh piece for every such variable. The timer may switch to other processes between two
  calls; a program is modelled as running alone.
\<close>

record user =
  sys :: machine
  junk :: "nat \<Rightarrow> mem"
  used :: nat

definition fs_of :: "user \<Rightarrow> fs" where
  "fs_of u = kernel_fs (kern (sys u))"

definition set_fs :: "fs \<Rightarrow> user \<Rightarrow> user" where
  "set_fs st u = u\<lparr>sys := (sys u)\<lparr>kern := (kern (sys u))\<lparr>kernel_fs := st\<rparr>\<rparr>\<rparr>"

text \<open>An array and an \<open>int\<close> without an initializer.\<close>

definition unset_array :: "user \<Rightarrow> mem \<times> user" where
  "unset_array u = (junk u (used u), u\<lparr>used := used u + 1\<rparr>)"

definition unset_int :: "user \<Rightarrow> u32 \<times> user" where
  "unset_int u = (get32 (junk u (used u)) 0, u\<lparr>used := used u + 1\<rparr>)"

text \<open>The kernel writes one byte of the caller's \<open>int\<close>.\<close>

definition status :: "u32 \<Rightarrow> int \<Rightarrow> u32" where
  "status old code = (old AND NOT 0xFF) OR ucast (of_int code :: u8)"

definition sys_read :: "request \<Rightarrow> u32 \<Rightarrow> user \<Rightarrow> (mem \<times> u32 \<times> user) option" where
  "sys_read req ret u = do { (code, out) \<leftarrow> ext2_read (fs_of u) req; Some (out, status ret code, u) }"

definition sys_read_directory :: "request \<Rightarrow> u32 \<Rightarrow> user \<Rightarrow> (mem \<times> u32 \<times> user) option" where
  "sys_read_directory req ret u = do { (code, out) \<leftarrow> read_directory (fs_of u) (Some req); Some (out, status ret code, u) }"

definition sys_write :: "request \<Rightarrow> u32 \<Rightarrow> user \<Rightarrow> (u32 \<times> user) option" where
  "sys_write req ret u = do { (code, st) \<leftarrow> ext2_write (fs_of u) (Some req); Some (status ret code, set_fs st u) }"

definition sys_delete :: "request \<Rightarrow> u32 \<Rightarrow> user \<Rightarrow> (u32 \<times> user) option" where
  "sys_delete req ret u = do { (code, st) \<leftarrow> ext2_delete (fs_of u) req; Some (status ret code, set_fs st u) }"

text \<open>A call with 0 for the status leaves it at the address 0, where the program itself was loaded.\<close>

definition sys_write_unchecked :: "request \<Rightarrow> user \<Rightarrow> user option" where
  "sys_write_unchecked req u = do {
     (code, st) \<leftarrow> ext2_write (fs_of u) (Some req);
     let u = set_fs st u;
     m \<leftarrow> set_status 0 code (sys u);
     Some (u\<lparr>sys := m\<rparr>)
   }"

definition sys_getchar :: "user \<Rightarrow> u8 \<times> user" where
  "sys_getchar u =
     (let (c, ks) = get_keyboard_buffer (keys (con (sys u)))
      in (c, u\<lparr>sys := (sys u)\<lparr>con := (con (sys u))\<lparr>keys := ks\<rparr>\<rparr>\<rparr>))"

definition sys_putchar :: "u8 \<Rightarrow> u8 \<Rightarrow> user \<Rightarrow> user" where
  "sys_putchar c color u = u\<lparr>sys := (sys u)\<lparr>con := putchar c color (con (sys u))\<rparr>\<rparr>"

definition sys_puts :: "mem \<Rightarrow> u32 \<Rightarrow> u8 \<Rightarrow> user \<Rightarrow> user" where
  "sys_puts s count color u = u\<lparr>sys := print s count color (sys u)\<rparr>"

definition sys_activate_keyboard :: "user \<Rightarrow> user" where
  "sys_activate_keyboard u = u\<lparr>sys := (sys u)\<lparr>con := (con (sys u))\<lparr>keys := keyboard_state_activate (keys (con (sys u)))\<rparr>\<rparr>\<rparr>"

definition sys_clear :: "user \<Rightarrow> user" where
  "sys_clear u = u\<lparr>sys := (sys u)\<lparr>con := clear_screen (con (sys u))\<rparr>\<rparr>"

text \<open>The executable goes to the address space the kernel makes for it; \<open>entry\<close> is the \<open>buf\<close> of the request.\<close>

definition sys_create :: "request \<Rightarrow> u32 \<Rightarrow> u32 \<Rightarrow> user \<Rightarrow> (u32 \<times> user) option" where
  "sys_create req entry ret u = do {
     let m = sys u;
     (pd, _) \<leftarrow> paging_create_new_page_directory (pages (kern m));
     (code, k, image) \<leftarrow> process_create_user_process (kern m) (req\<lparr>buf := (\<lambda>i. user_mem m pd (unat entry + i))\<rparr>) entry;
     m \<leftarrow> set_mem_of pd (put_buffer (user_mem m pd) entry image) (m\<lparr>kern := k\<rparr>);
     Some (status ret code, u\<lparr>sys := m\<rparr>)
   }"

definition sys_kill :: "u32 \<Rightarrow> user \<Rightarrow> (bool \<times> user) option" where
  "sys_kill pid u = do {
     (b, k) \<leftarrow> process_destroy (kern (sys u)) pid;
     Some (b, u\<lparr>sys := (sys u)\<lparr>kern := k, con := (if b then blank_clock (con (sys u)) else con (sys u))\<rparr>\<rparr>)
   }"

definition sys_ps :: "user \<Rightarrow> user option" where
  "sys_ps u = map_option (\<lambda>m. u\<lparr>sys := m\<rparr>) (syscall_ps (sys u))"

subsection \<open>Printing strings\<close>

definition nl :: string where "nl = [CHR 0x0A]"

definition say :: "string \<Rightarrow> u8 \<Rightarrow> user \<Rightarrow> user" where
  "say s color u = sys_puts (lit s) (of_nat (length s)) color u"

definition say_str :: "mem \<Rightarrow> u8 \<Rightarrow> user \<Rightarrow> user option" where
  "say_str s color u = do { n \<leftarrow> strlen s 0; Some (sys_puts s (of_nat n) color u) }"

text \<open>\<open>memcmp(s, w, n) == 0 && strlen(s) == n\<close> for a literal \<open>w\<close> of \<open>n\<close> bytes: the second test is
  made only when the first one holds.\<close>

definition is_word :: "string \<Rightarrow> mem \<Rightarrow> bool option" where
  "is_word w s =
     (if memcmp s 0 (lit w) 0 (length w) = 0 then do { n \<leftarrow> strlen s 0; Some (n = length w) } else Some False)"

lemma lit_nth: "i < length w \<Longrightarrow> lit w i = of_char (w ! i)"
  by (simp add: lit_def)

lemma is_word_cstr:
  assumes "cstr s 0 xs" "0 \<notin> set (map of_char w :: u8 list)"
  shows "is_word w s = Some (xs = map of_char w)"
proof -
  have xs: "s i = xs ! i" if "i < length xs" for i using assms(1) that by (simp add: cstr_def)
  have "s (length xs) = 0" using assms(1) by (simp add: cstr_def)
  have *: "memcmp s 0 (lit w) 0 (length w) = 0 \<longleftrightarrow> (\<forall>i<length w. s i = of_char (w ! i))"
    by (simp add: memcmp_eq_0_iff lit_nth)
  show ?thesis
    using assms strlen_cstr [OF assms(1)] xs
    by (auto simp: is_word_def * list_eq_iff_nth_eq)
qed

subsection \<open>The calls are the kernel's\<close>

text \<open>
  What \<open>syscall\<close> does with a request and an \<open>int\<close> in the caller's memory: the machine is that of the
  call above, the \<open>int\<close> gets the low byte of the status, and the buffer gets what was read, if they lie
  in the user's half.
\<close>

definition set_byte :: "u32 \<Rightarrow> u32 \<Rightarrow> machine \<Rightarrow> machine option" where
  "set_byte p r m = set_mem ((current_mem m)(unat p := ucast r)) m"

definition set_buffer :: "u32 \<Rightarrow> mem \<Rightarrow> machine \<Rightarrow> machine option" where
  "set_buffer p out m = set_mem (put_buffer (current_mem m) p out) m"

lemma low_byte_mask: "(0xFF :: u32) = Bit_Operations.mask 8"
  by (simp add: mask_eq_exp_minus_1)

lemma status_bytes: "status (of4 w x y z) code = of4 (of_int code) x y z"
proof -
  have "(of4 w x y z AND NOT 0xFF) OR ucast c = of4 c x y z" for c :: u8
    unfolding of4_def low_byte_mask by (rule bit_word_eqI) (auto simp: bit_simps dest: bit_imp_le_length)
  then show ?thesis by (simp add: status_def)
qed

lemma status_byte [simp]: "(ucast (status r code) :: u8) = of_int code"
  unfolding status_def low_byte_mask by (rule bit_word_eqI) (auto simp: bit_simps)

lemma status_memory:
  "get32 m (unat p) = ret \<Longrightarrow> get32 (m(unat p := of_int code)) (unat p) = status ret code"
  by (auto simp: get32_def status_bytes)

lemma set_status_byte: "set_status p code m = set_byte p (status r code) m"
  by (simp add: set_status_def set_byte_def)

lemma current_mem_kern [simp]: "cr3 (kern m) = cr3 k \<Longrightarrow> current_mem (m\<lparr>kern := k\<rparr>) = current_mem m"
  by (simp add: current_mem_def)

text \<open>A byte of the user's half can always be stored.\<close>

lemma set_status_user:
  "unat p < 0xC0000000 \<Longrightarrow> set_status p code m =
    Some (m\<lparr>user_mem := (user_mem m)(cr3 (kern m) := (current_mem m)(unat p := of_int code))\<rparr>)"
  by (simp add: set_status_def set_mem_def set_mem_of_def kernel_half_same_def current_mem_def)

lemma calls_are_syscalls:
  assumes "request_at (current_mem (sys u)) (unat ebx) = req" "ebx \<noteq> 0"
  shows "syscall_write ebx ecx (sys u) = sys_write req ret u \<bind> (\<lambda>(r, u'). set_byte ecx r (sys u'))"
    "syscall_delete ebx ecx (sys u) = sys_delete req ret u \<bind> (\<lambda>(r, u'). set_byte ecx r (sys u'))"
    "syscall_read ebx ecx (sys u) = sys_read req ret u \<bind> (\<lambda>(out, r, u').
       set_buffer (get32 (current_mem (sys u)) (unat ebx)) out (sys u') \<bind> set_byte ecx r)"
    "syscall_read_directory ebx ecx (sys u) = sys_read_directory req ret u \<bind> (\<lambda>(out, r, u').
       set_buffer (get32 (current_mem (sys u)) (unat ebx)) out (sys u') \<bind> set_byte ecx r)"
  using assms
  by (auto simp: syscall_write_def sys_write_def syscall_delete_def sys_delete_def syscall_read_def sys_read_def
      syscall_read_directory_def sys_read_directory_def fs_of_def set_fs_def set_buffer_def set_status_byte [of _ _ _ ret] Let_def
      split: Option.bind_splits option.splits prod.splits)

end
