(* ===== verification/Commands.thy ===== *)
theory Commands
  imports User Ext2_Dir
begin

section \<open>The commands of the shell: \<open>commands/\<close>\<close>

text \<open>
  One function per command, over the machine a user program sees. An argument is the memory from the
  pointer in \<open>argv\<close> on, so \<open>argc\<close> is the length of the list; a name in a request is such a pointer and
  the low byte of its length. \<open>None\<close> stands for a fault or a loop that never ends.
\<close>

subsection \<open>Requests and directory blocks\<close>

definition DIR_BUFFER :: nat where "DIR_BUFFER = BLOCK_SIZE * 16"

text \<open>An array with \<open>= {}\<close>.\<close>

definition zeros :: mem where "zeros = (\<lambda>_. 0)"

text \<open>The request to read the directory \<open>ino\<close> itself, through its entry for itself.\<close>

definition dot_request :: "mem \<Rightarrow> u32 \<Rightarrow> nat \<Rightarrow> request" where
  "dot_request data ino n =
     \<lparr>buf = data, req_name = lit ''.'', name_len = 1, parent_inode = ino, buffer_size = of_nat n, is_directory = False\<rparr>"

text \<open>A request for \<open>name\<close> in \<open>parent\<close>.\<close>

definition named_request :: "mem \<Rightarrow> mem \<Rightarrow> nat \<Rightarrow> u32 \<Rightarrow> u32 \<Rightarrow> bool \<Rightarrow> request" where
  "named_request data name n parent size_of dir =
     \<lparr>buf = data, req_name = name, name_len = of_nat n, parent_inode = parent, buffer_size = size_of, is_directory = dir\<rparr>"

text \<open>\<open>NULL\<close> as a buffer is the memory at the address 0.\<close>

definition null_buffer :: "user \<Rightarrow> mem" where
  "null_buffer u = current_mem (sys u)"

definition entry_text :: "mem \<Rightarrow> nat \<Rightarrow> mem" where
  "entry_text m off = (\<lambda>i. m (get_entry_name off + i))"

text \<open>The tests for \<open>.\<close> and \<open>..\<close>.\<close>

definition is_dot :: "mem \<Rightarrow> nat \<Rightarrow> bool" where
  "is_dot m off \<longleftrightarrow> de_name_len (get_directory_entry m off) = 1 \<and> entry_text m off 0 = 0x2E"

definition is_dotdot :: "mem \<Rightarrow> nat \<Rightarrow> bool" where
  "is_dotdot m off \<longleftrightarrow> de_name_len (get_directory_entry m off) = 2 \<and> entry_text m off 0 = 0x2E \<and> entry_text m off 1 = 0x2E"

text \<open>
  The walk over the entries of a directory buffer that \<open>rm\<close>, \<open>cp\<close> and \<open>find\<close> share: the offsets of
  the entries in use, in order, up to the first that does not fit.
\<close>

function walk :: "mem \<Rightarrow> nat \<Rightarrow> nat list" where
  "walk m off =
     (if off < DIR_BUFFER then
        let e = get_directory_entry m off in
        if de_inode e = 0 then
          if rec_len e = 0 then [] else walk m (off + unat (rec_len e))
        else if off + unat (rec_len e) > DIR_BUFFER \<or> unat (rec_len e) < sizeof_dirent + unat (de_name_len e) then []
        else off # walk m (off + unat (rec_len e))
      else [])"
  by pat_completeness auto
termination
  by (relation "measure (\<lambda>(m, off). DIR_BUFFER - off)")
    (auto simp: unat_gt_0 sizeof_dirent_def intro!: diff_less_mono2)

declare walk.simps [simp del]

subsection \<open>\<open>echo\<close>, \<open>touch\<close>, \<open>mkdir\<close>\<close>

definition echo :: "u32 \<Rightarrow> mem list \<Rightarrow> user \<Rightarrow> user option" where
  "echo current argv u =
     (let usage = say (''Usage: echo <text> [> <file_name>]'' @ nl @ nl) 0x7 in
      if length argv = 2 then do {
        u \<leftarrow> say_str (argv ! 1) 0xF u;
        Some (sys_putchar 0x0A 0xF u)
      }
      else if length argv \<ge> 4 then
        if current = 2 then Some (say (''echo: cannot add file in /bin directory'' @ nl @ nl) 0xC u)
        else do {
          go \<leftarrow> (if memcmp (argv ! 2) 0 (lit ''>'') 0 1 = 0 then do { n \<leftarrow> strlen (argv ! 3) 0; Some (n > 0) } else Some False);
          if go then do {
            n \<leftarrow> strlen (argv ! 1) 0;
            k \<leftarrow> strlen (argv ! 3) 0;
            u \<leftarrow> sys_write_unchecked (named_request (argv ! 1) (argv ! 3) k current (of_nat n) False) u;
            Some (sys_putchar 0x0A 0xF u)
          }
          else Some (usage u)
        }
      else Some (usage u))"

definition touch :: "u32 \<Rightarrow> mem list \<Rightarrow> user \<Rightarrow> user option" where
  "touch current argv u =
     (if current = 2 then Some (say (''touch: cannot add new file in /bin directory'' @ nl @ nl) 0xC u)
      else if length argv < 2 then Some (say (''Usage: touch <filename>'' @ nl @ nl) 0xF u)
      else do {
        n \<leftarrow> strlen (argv ! 1) 0;
        let (ret, u) = unset_int u;
        (ret, u) \<leftarrow> sys_write (named_request (null_buffer u) (argv ! 1) n current 0 False) ret u;
        Some (if ret = 1 then say (''File already exists.'' @ nl @ nl) 0xC u
          else if ret = 2 then say (''Parent directory not found.'' @ nl @ nl) 0xC u
          else if ret = 3 then say (''Failed to create file.'' @ nl @ nl) 0xC u
          else u)
      })"

definition mkdir :: "u32 \<Rightarrow> mem list \<Rightarrow> user \<Rightarrow> user option" where
  "mkdir current argv u =
     (if current = 2 then Some (say (''mkdir: cannot add new folder in /bin directory'' @ nl @ nl) 0xC u)
      else if length argv \<ge> 2 then do {
        n \<leftarrow> strlen (argv ! 1) 0;
        (ret, u) \<leftarrow> sys_write (named_request (null_buffer u) (argv ! 1) n current 0 True) 0 u;
        Some (if ret = -1 then say (''mkdir failed'' @ nl @ nl) 0x7 u
          else if ret = 1 then say (''mkdir: directory already exists'' @ nl @ nl) 0x7 u
          else say (''mkdir success'' @ nl @ nl) 0x7 u)
      }
      else Some (say (''Usage: mkdir <dir>'' @ nl @ nl) 0x7 u))"

subsection \<open>\<open>cat\<close> and \<open>ls\<close>\<close>

text \<open>
  The buffer of \<open>cat\<close> is a \<open>struct BlockBuffer\<close>, of 8192 bytes, but the request says 1 MB: the kernel writes
  a longer file over the stack behind it, which is a fault. \<open>read\<close> stores as many bytes as the file has and
  refuses a \<open>buffer_size\<close> that is less, so it writes behind a buffer of \<open>n\<close> bytes if it succeeds but would not
  with \<open>n\<close> for the size.
\<close>

definition overruns :: "nat \<Rightarrow> request \<Rightarrow> user \<Rightarrow> bool option" where
  "overruns n req u = do {
     (code, _) \<leftarrow> ext2_read (fs_of u) req;
     (code', _) \<leftarrow> ext2_read (fs_of u) (req\<lparr>buffer_size := of_nat n\<rparr>);
     Some (code = 0 \<and> code' \<noteq> 0)
   }"

definition cat :: "u32 \<Rightarrow> mem list \<Rightarrow> user \<Rightarrow> user option" where
  "cat current argv u =
     (if current = 2 then Some (say (''cat: cannot access /bin directory'' @ nl @ nl) 0xC u)
      else if length argv \<ge> 2 then do {
        let (bf, u) = unset_array u;
        n \<leftarrow> strlen (argv ! 1) 0;
        let request = named_request bf (argv ! 1) n current 0x100000 False;
        over \<leftarrow> overruns (BLOCK_SIZE * 16) request u;
        guard (\<not> over);
        (bf, ret, u) \<leftarrow> sys_read request 0 u;
        if ret = 0 then do { u \<leftarrow> say_str bf 0xF u; Some (say (nl @ nl) 0 u) }
        else if ret = 1 then Some (say (''cat: read failure'' @ nl @ nl) 0xC u)
        else if ret = 2 then do {
          u \<leftarrow> say_str (argv ! 1) 0xF (say ''cat: file not found: '' 0x4 u);
          Some (say (nl @ nl) 0 u)
        }
        else if ret = -1 then Some (say (''cat: invalid error'' @ nl @ nl) 0xC u)
        else Some u
      }
      else Some (say (''Usage: cat <file>'' @ nl @ nl) 0xF u))"

function ls_entries :: "mem \<Rightarrow> nat \<Rightarrow> user \<Rightarrow> user" where
  "ls_entries m off u =
     (if off < DIR_BUFFER then
        let e = get_directory_entry m off; after = off + unat (rec_len e) in
        if rec_len e = 0 \<or> after > DIR_BUFFER then u
        else if de_inode e = 0 \<or> is_dot m off \<or> is_dotdot m off then ls_entries m after u
        else
          let u = sys_puts (entry_text m off) (ucast (de_name_len e)) 0xF u;
              u = (if file_type e = EXT2_FT_DIR then say ''/ '' 0xA u else say ''  '' 0xF u)
          in ls_entries m after u
      else u)"
  by pat_completeness auto
termination
  by (relation "measure (\<lambda>(m, off, u). DIR_BUFFER - off)") (auto simp: unat_gt_0 intro!: diff_less_mono2)

declare ls_entries.simps [simp del]

definition ls :: "u32 \<Rightarrow> user \<Rightarrow> user option" where
  "ls current u = do {
     let (data, u) = unset_array u;
     (data, ret, u) \<leftarrow> sys_read_directory (dot_request data current DIR_BUFFER) 0 u;
     Some (if ret = 0 then say (nl @ nl) 0xF (ls_entries data 0 u)
       else say (''ls: cannot access directory'' @ nl @ nl) 0x7 u)
   }"

subsection \<open>\<open>kill\<close> and \<open>exec\<close>\<close>

text \<open>A loop that moves a pointer over the bytes of a kind.\<close>

partial_function (option) skip_while :: "(u8 \<Rightarrow> bool) \<Rightarrow> mem \<Rightarrow> nat \<Rightarrow> nat option" where
  "skip_while P m p = (if P (m p) then skip_while P m (p + 1) else Some p)"

text \<open>The digits of \<open>atoi\<close>: \<open>Some None\<close> is its return of -1, and a value over the range of \<open>int\<close> is
  undefined.\<close>

partial_function (option) atoi_digits :: "mem \<Rightarrow> nat \<Rightarrow> int \<Rightarrow> bool \<Rightarrow> int option option" where
  "atoi_digits m p result valid =
     (if m p \<noteq> 0 then
        if 0x30 \<le> m p \<and> m p \<le> 0x39 then
          let r = result * 10 + (uint (m p) - 0x30)
          in if r < 2 ^ 31 then atoi_digits m (p + 1) r True else None
        else Some None
      else Some (if valid then Some result else None))"

definition atoi :: "mem \<Rightarrow> int option" where
  "atoi str = do {
     p \<leftarrow> skip_while (\<lambda>c. c = 0x20 \<or> c = 0x09) str 0;
     let (sign, p) = (if str p = 0x2D then (-1, p + 1) else if str p = 0x2B then (1, p + 1) else (1, p));
     r \<leftarrow> atoi_digits str p 0 False;
     Some (case r of None \<Rightarrow> -1 | Some n \<Rightarrow> sign * n)
   }"

definition kill :: "mem list \<Rightarrow> user \<Rightarrow> user option" where
  "kill argv u =
     (if length argv < 2 then Some (say (''Usage: kill <pid>'' @ nl @ nl) 0xC u)
      else do {
        pid \<leftarrow> atoi (argv ! 1);
        if pid = -1 then Some (say (''Invalid PID'' @ nl @ nl) 0xC u)
        else do {
          (ret, u) \<leftarrow> sys_kill (of_int pid) u;
          Some (if \<not> ret then say (''No such process'' @ nl @ nl) 0xC u else u)
        }
      })"

definition exec :: "mem list \<Rightarrow> user \<Rightarrow> user option" where
  "exec argv u =
     (if length argv < 2 then Some (say (''Usage: exec <program> [args...]'' @ nl @ nl) 0x7 u)
      else do {
        n \<leftarrow> strlen (argv ! 1) 0;
        let (ret, u) = unset_int u;
        (ret, u) \<leftarrow> sys_create (named_request (null_buffer u) (argv ! 1) n 2 0x100000 False) 0 ret u;
        Some (if ret = 1 then say (''exec: max process'' @ nl @ nl) 0xC u
          else if ret = 2 then say (''exec: invalid entrypoint'' @ nl @ nl) 0xC u
          else if ret = 3 then say (''exec: not enough memory'' @ nl @ nl) 0xC u
          else if ret = 4 then say (''exec: read failure'' @ nl @ nl) 0xC u
          else u)
      })"

subsection \<open>\<open>flex\<close>\<close>

definition text_list :: "string list list" where
  "text_list =
     [['''##:::::::'', '':'#######:::'######::'', '':'######::'', ''LOSS''],
      ['' ##:::::::'', '''##.... ##:'##... ##:'', '''##... ##:'', ''----''],
      ['' ##:::::::'', '' ##:::: ##: ##:::..::'', '' ##:::..::'', ''Created with love by:''],
      ['' ##:::::::'', '' ##:::: ##:. ######::'', ''. ######::'', '' - Refki Alfarizi''],
      ['' ##:::::::'', '' ##:::: ##::..... ##:'', '':..... ##:'', '' - Razi Rachman Widyadhana''],
      ['' ##:::::::'', '' ##:::: ##:'##::: ##:'', '''##::: ##:'', '' - Muhammad Aditya Rahmadeni''],
      ['' ########:'', ''. #######::. ######::'', ''. ######::'', '' - Muhammad Luqman Hakim''],
      [''........::'', '':.......::::......:::'', '':......:::'', '''']]"

text \<open>\<open>-h\<close> or \<open>--help\<close>: the second test is made only if the first fails.\<close>

definition wants_help :: "mem \<Rightarrow> bool option" where
  "wants_help arg = do { h \<leftarrow> is_word ''-h'' arg; if h then Some True else is_word ''--help'' arg }"

text \<open>
  The help of \<open>flex\<close> and \<open>find\<close>. The second text is printed with the length of the first, which is
  longer: \<open>puts\<close> stops at its NUL.
\<close>

definition find_help :: "user \<Rightarrow> user" where
  "find_help u =
     (let msg = ''Find any file/folder with name specified.'' @ nl
      in sys_puts (lit (nl @ nl @ ''Usage: find <name>'' @ nl @ nl)) (of_nat (length msg)) 0xB (say msg 0xF u))"

definition flex_char :: "nat \<Rightarrow> char \<Rightarrow> user \<Rightarrow> user" where
  "flex_char j c u =
     say [c] (if c = CHR ''.'' \<or> c = CHR '':'' then 0x7 else if j = 3 then 0xF else if j = 1 then 0xB else 0xD) u"

definition flex_word :: "string list \<Rightarrow> nat \<Rightarrow> user \<Rightarrow> user" where
  "flex_word row j u =
     (let u = fold (flex_char j) (row ! j) u in if j = 2 then say ''    '' 0xF u else u)"

definition flex :: "mem list \<Rightarrow> user \<Rightarrow> user option" where
  "flex argv u = do {
     help \<leftarrow> (if length argv \<ge> 2 then wants_help (argv ! 1) else Some False);
     if help then Some (find_help u)
     else
       let u = say nl 0x7 u;
           u = fold (\<lambda>row u. say nl 0x7 (fold (flex_word row) [0..<4] u)) text_list u
       in Some (say nl 0x7 (say nl 0x7 u))
   }"

subsection \<open>\<open>find\<close>\<close>

text \<open>\<open>append\<close> on two objects; the source is read up to its NUL.\<close>

definition append_to :: "mem \<Rightarrow> mem \<Rightarrow> nat \<Rightarrow> (int \<times> mem) option" where
  "append_to dest src bufsize = do {
     dlen \<leftarrow> strlen dest 0;
     slen \<leftarrow> strlen src 0;
     if dlen + slen + 1 > bufsize then Some (-1, dest)
     else Some (0, memcpy_into dest dlen src 0 (slen + 1))
   }"

text \<open>The path of an entry: \<open>None\<close> inside stands for a buffer that is too small.\<close>

definition find_path :: "mem \<Rightarrow> mem \<Rightarrow> u16 \<Rightarrow> user \<Rightarrow> (mem option \<times> nat \<times> user) option" where
  "find_path path name len u = do {
     n \<leftarrow> strlen path 0;
     let bufsize = n + unat len + 5;
     let (new, u) = unset_array u;
     (r, new) \<leftarrow> append_to (new(0 := 0)) path bufsize;
     if r \<noteq> 0 then Some (None, bufsize, u)
     else do {
       (r, new) \<leftarrow> append_to new name bufsize;
       Some (if r = 0 then Some new else None, bufsize, u)
     }
   }"

definition find_hit :: "mem \<Rightarrow> mem \<Rightarrow> nat \<Rightarrow> mem \<Rightarrow> user \<Rightarrow> user option" where
  "find_hit target name len path u =
     (if memcmp target 0 name 0 len = 0 then do { u \<leftarrow> say_str path 0xF u; Some (say (nl @ nl) 0xF u) } else Some u)"

text \<open>One entry; \<open>deeper\<close> is the search in the directory it names.\<close>

definition find_entry_step :: "(u32 \<Rightarrow> mem \<Rightarrow> user \<Rightarrow> user option) \<Rightarrow> mem \<Rightarrow> mem \<Rightarrow> mem \<Rightarrow> nat \<Rightarrow> user \<Rightarrow> user option" where
  "find_entry_step deeper target path data off u =
     (let e = get_directory_entry data off; name = entry_text data off; len = unat (de_name_len e) in
      if file_type e = EXT2_FT_DIR \<and> memcmp name 0 (lit ''.'') 0 1 \<noteq> 0 \<and> memcmp name 0 (lit ''..'') 0 2 \<noteq> 0 then do {
        (new, bufsize, u) \<leftarrow> find_path path name (de_name_len e) u;
        case new of
          None \<Rightarrow> Some (say (''Error when appending folder name to path'' @ nl @ nl) 0xC u)
        | Some new \<Rightarrow> do {
            (_, new) \<leftarrow> append_to new (lit ''/'') bufsize;
            u \<leftarrow> find_hit target name len new u;
            deeper (de_inode e) new u
          }
      }
      else if file_type e = EXT2_FT_REG_FILE then do {
        (new, _, u) \<leftarrow> find_path path name (de_name_len e) u;
        case new of
          None \<Rightarrow> Some (say (''Error when appending file name to path'' @ nl @ nl) 0xC u)
        | Some new \<Rightarrow> find_hit target name len new u
      }
      else Some u)"

text \<open>\<open>fuel\<close> bounds the depth of the directories; \<open>None\<close> when it runs out.\<close>

fun find_recursive :: "nat \<Rightarrow> mem \<Rightarrow> u32 \<Rightarrow> mem \<Rightarrow> user \<Rightarrow> user option" where
  "find_recursive 0 target parent path u = None"
| "find_recursive (Suc fuel) target parent path u = do {
     let (ret, u) = unset_int u;
     (data, ret, u) \<leftarrow> sys_read_directory (dot_request zeros parent DIR_BUFFER) ret u;
     if ret = 0 then iterate (find_entry_step (find_recursive fuel target) target path data) (walk data 0) u
     else Some (say (''find: cannot access directory'' @ nl @ nl) 0x7 u)
   }"

definition find_command :: "nat \<Rightarrow> mem list \<Rightarrow> user \<Rightarrow> user option" where
  "find_command fuel argv u =
     (if length argv \<ge> 2 then do {
        help \<leftarrow> wants_help (argv ! 1);
        if help then Some (find_help u) else find_recursive fuel (argv ! 1) 1 (lit ''/'') u
      }
      else Some (say (''Usage: find <name>'' @ nl @ nl) 0x7 u))"

end
