(* ===== verification/File_Commands.thy ===== *)
theory File_Commands
  imports Commands
begin

section \<open>Commands that change directories and trees: \<open>rm.c\<close>, \<open>cp.c\<close>, \<open>mv.c\<close>, \<open>cd.c\<close>\<close>

text \<open>
  Removing and copying a tree recurse into its directories; \<open>fuel\<close> bounds the depth, and \<open>None\<close> is
  also the result when it runs out. A name copied out of a directory entry is \<open>text_of\<close> its bytes.
\<close>

definition text_of :: "u8 list \<Rightarrow> mem" where
  "text_of bs = blit zeros 0 bs"

definition entry_bytes :: "mem \<Rightarrow> nat \<Rightarrow> u8 list" where
  "entry_bytes m off = map (entry_text m off) [0..<unat (de_name_len (get_directory_entry m off))]"

text \<open>The messages end with the name and two line ends.\<close>

definition complain :: "string \<Rightarrow> mem \<Rightarrow> user \<Rightarrow> user option" where
  "complain msg name u = do { u \<leftarrow> say_str name 0xF (say msg 0x4 u); Some (say (nl @ nl) 0xF u) }"

subsection \<open>\<open>rm\<close>\<close>

definition is_dir_empty :: "u32 \<Rightarrow> mem \<Rightarrow> user \<Rightarrow> (bool \<times> user) option" where
  "is_dir_empty parent name u = do {
     n \<leftarrow> strlen name 0;
     let (ret, u) = unset_int u;
     (data, ret, u) \<leftarrow> sys_read_directory (named_request zeros name n parent (of_nat DIR_BUFFER) False) ret u;
     Some (ret = 0 \<and> filter (\<lambda>off. \<not> is_dot data off \<and> \<not> is_dotdot data off) (walk data 0) = [], u)
   }"

definition get_inode_by_name :: "u32 \<Rightarrow> mem \<Rightarrow> user \<Rightarrow> (u32 \<times> user) option" where
  "get_inode_by_name parent name u = do {
     let (ret, u) = unset_int u;
     (data, ret, u) \<leftarrow> sys_read_directory (dot_request zeros parent DIR_BUFFER) ret u;
     if ret \<noteq> 0 then Some (0, u)
     else if walk data 0 = [] then Some (0, u)
     else do {
       n \<leftarrow> strlen name 0;
       Some (case List.find (\<lambda>off. unat (de_name_len (get_directory_entry data off)) = n \<and>
               memcmp (entry_text data off) 0 name 0 n = 0) (walk data 0) of
           None \<Rightarrow> 0
         | Some off \<Rightarrow> de_inode (get_directory_entry data off), u)
     }
   }"

text \<open>The names \<open>rm -r\<close> collects from a directory: 64 at most, none of 255 bytes or more.\<close>

definition collected :: "mem \<Rightarrow> u8 list list" where
  "collected data =
     take 64 (map (entry_bytes data) (filter (\<lambda>off. \<not> is_dot data off \<and> \<not> is_dotdot data off \<and>
       de_name_len (get_directory_entry data off) < 255) (walk data 0)))"

fun remove_recursive :: "nat \<Rightarrow> u32 \<Rightarrow> mem \<Rightarrow> user \<Rightarrow> user option" where
  "remove_recursive 0 parent name u = None"
| "remove_recursive (Suc fuel) parent name u = do {
     n \<leftarrow> strlen name 0;
     let (delete_ret, u) = unset_int u;
     (delete_ret, u) \<leftarrow> sys_delete (named_request (null_buffer u) name n parent 0 False) delete_ret u;
     if delete_ret = 0 then Some u
     else do {
       (target, u) \<leftarrow> get_inode_by_name parent name u;
       if target = 0 then complain ''rm: cannot find '' name u
       else do {
         let (ret, u) = unset_int u;
         (data, ret, u) \<leftarrow> sys_read_directory (dot_request zeros target DIR_BUFFER) ret u;
         if ret \<noteq> 0 then complain ''rm: cannot access '' name u
         else do {
           u \<leftarrow> iterate (\<lambda>entry. remove_recursive fuel target (text_of entry)) (collected data) u;
           (delete_ret, u) \<leftarrow> sys_delete (named_request (null_buffer u) name n parent 0 True) delete_ret u;
           if delete_ret \<noteq> 0 then do {
             u \<leftarrow> say_str name 0xF (say ''rm: failed to remove directory '' 0x4 u);
             let u = (if delete_ret = 1 then say '' (not found)'' 0x4 u
               else if delete_ret = 2 then say '' (not empty)'' 0x4 u
               else say '' (unknown error)'' 0x4 u);
             Some (say (nl @ nl) 0xF u)
           }
           else Some u
         }
       }
     }
   }"

text \<open>One argument of \<open>rm\<close> without \<open>-r\<close>: first as a file, then as an empty directory.\<close>

definition rm_one :: "u32 \<Rightarrow> mem \<Rightarrow> user \<Rightarrow> user option" where
  "rm_one current target u = do {
     n \<leftarrow> strlen target 0;
     let (ret, u) = unset_int u;
     (ret, u) \<leftarrow> sys_delete (named_request (null_buffer u) target n current 0 False) ret u;
     if ret \<noteq> 0 then do {
       (ret, u) \<leftarrow> sys_delete (named_request (null_buffer u) target n current 0 True) ret u;
       if ret = 2 then complain ''rm: directory not empty (use -r for recursive removal): '' target u
       else if ret = 1 then do {
         u \<leftarrow> say_str target 0xF (say (''rm: cannot remove '' @ [CHR 0x27]) 0x4 u);
         Some (say ([CHR 0x27] @ '': No such file or directory'' @ nl @ nl) 0x4 u)
       }
       else if ret = -1 then complain ''rm: failed to remove '' target u
       else if ret = 0 then do {
         u \<leftarrow> say_str target 0xF (say ''Removed directory: '' 0x7 u);
         Some (say (nl @ nl) 0xF u)
       }
       else Some u
     }
     else do {
       u \<leftarrow> say_str target 0xF (say ''Removed: '' 0x7 u);
       Some (say (nl @ nl) 0xF u)
     }
   }"

definition rm :: "nat \<Rightarrow> u32 \<Rightarrow> mem list \<Rightarrow> user \<Rightarrow> user option" where
  "rm fuel current argv u =
     (let usage = say (''Usage: rm [-r] <file|directory>'' @ nl @ nl) 0x7 in
      if current = 2 then Some (say (''rm: cannot remove file from /bin directory'' @ nl @ nl) 0xC u)
      else if length argv < 2 then Some (usage u)
      else do {
        recursive \<leftarrow> is_word ''-r'' (argv ! 1);
        if recursive then
          if length argv < 3 then Some (usage u)
          else iterate (remove_recursive fuel current) (drop 2 argv) u
        else iterate (rm_one current) (drop 1 argv) u
      })"

subsection \<open>\<open>cp\<close>\<close>

text \<open>The buffer has 16 blocks, and all of it is written to the copy.\<close>

definition copy_file :: "u32 \<Rightarrow> mem \<Rightarrow> u32 \<Rightarrow> mem \<Rightarrow> user \<Rightarrow> (int \<times> user) option" where
  "copy_file src src_name dest dest_name u = do {
     let (buffer, u) = unset_array u;
     n \<leftarrow> strlen src_name 0;
     let (ret, u) = unset_int u;
     (buffer, ret, u) \<leftarrow> sys_read (named_request buffer src_name n src (of_nat DIR_BUFFER) False) ret u;
     if ret \<noteq> 0 then do { u \<leftarrow> complain ''cp: cannot read source file '' src_name u; Some (-1, u) }
     else do {
       k \<leftarrow> strlen dest_name 0;
       let (ret, u) = unset_int u;
       (ret, u) \<leftarrow> sys_write (named_request buffer dest_name k dest (of_nat DIR_BUFFER) False) ret u;
       if ret \<noteq> 0 then do { u \<leftarrow> complain ''cp: cannot write to destination '' dest_name u; Some (-1, u) }
       else Some (0, u)
     }
   }"

text \<open>One entry of a directory that is copied; \<open>deeper\<close> copies a directory. Their results are ignored.\<close>

definition copy_entry :: "(mem \<Rightarrow> user \<Rightarrow> (int \<times> user) option) \<Rightarrow> u32 \<Rightarrow> u32 \<Rightarrow> mem \<Rightarrow> nat \<Rightarrow> user \<Rightarrow> user option" where
  "copy_entry deeper src dest data off u =
     (let e = get_directory_entry data off; child = text_of (entry_bytes data off) in
      if \<not> is_dot data off \<and> \<not> is_dotdot data off \<and> de_name_len e < 255 then
        if file_type e = EXT2_FT_DIR then map_option snd (deeper child u)
        else if file_type e = EXT2_FT_REG_FILE then map_option snd (copy_file src child dest child u)
        else Some u
      else Some u)"

fun copy_dir_recursive :: "nat \<Rightarrow> u32 \<Rightarrow> mem \<Rightarrow> u32 \<Rightarrow> mem \<Rightarrow> user \<Rightarrow> (int \<times> user) option" where
  "copy_dir_recursive 0 src src_name dest dest_name u = None"
| "copy_dir_recursive (Suc fuel) src src_name dest dest_name u = do {
     k \<leftarrow> strlen dest_name 0;
     let (ret, u) = unset_int u;
     (ret, u) \<leftarrow> sys_write (named_request (null_buffer u) dest_name k dest 0 True) ret u;
     if ret \<noteq> 0 then do { u \<leftarrow> complain ''cp: cannot create destination directory '' dest_name u; Some (-1, u) }
     else do {
       (src_dir, u) \<leftarrow> get_inode_by_name src src_name u;
       if src_dir = 0 then do { u \<leftarrow> complain ''cp: source directory not found '' src_name u; Some (-1, u) }
       else do {
         (dest_dir, u) \<leftarrow> get_inode_by_name dest dest_name u;
         if dest_dir = 0 then do { u \<leftarrow> complain ''cp: destination directory creation failed '' dest_name u; Some (-1, u) }
         else do {
           let (ret, u) = unset_int u;
           (data, ret, u) \<leftarrow> sys_read_directory (dot_request zeros src_dir DIR_BUFFER) ret u;
           if ret \<noteq> 0 then do { u \<leftarrow> complain ''cp: cannot read source directory '' src_name u; Some (-1, u) }
           else do {
             u \<leftarrow> iterate (copy_entry (\<lambda>child. copy_dir_recursive fuel src_dir child dest_dir child) src_dir dest_dir data)
               (walk data 0) u;
             Some (0, u)
           }
         }
       }
     }
   }"

text \<open>Whether an inode is a directory is tested by reading it as one into a buffer of one block.\<close>

definition test_directory :: "u32 \<Rightarrow> user \<Rightarrow> (bool \<times> user) option" where
  "test_directory ino u = do {
     let (data, u) = unset_array u;
     let (ret, u) = unset_int u;
     (_, ret, u) \<leftarrow> sys_read_directory (dot_request data ino BLOCK_SIZE) ret u;
     Some (ret = 0, u)
   }"

definition cp :: "nat \<Rightarrow> u32 \<Rightarrow> mem list \<Rightarrow> user \<Rightarrow> user option" where
  "cp fuel current argv u =
     (let usage = say (''Usage: cp [-r] <source> <destination>'' @ nl @ nl) 0x7 in
      if length argv < 3 then Some (usage u)
      else do {
        recursive \<leftarrow> is_word ''-r'' (argv ! 1);
        if recursive \<and> length argv < 4 then Some (usage u)
        else do {
          let start_index = (if recursive then 2 else 1);
          let source = argv ! start_index;
          let destination = argv ! (start_index + 1);
          (src, u) \<leftarrow> get_inode_by_name current source u;
          if src = 0 then complain ''cp: source not found: '' source u
          else if src = 2 then Some (say (''cp: cannot copy from /bin directory'' @ nl @ nl) 0xC u)
          else do {
            (is_dir, u) \<leftarrow> test_directory src u;
            if is_dir \<and> \<not> recursive then do {
              u \<leftarrow> say_str source 0xF (say ''cp: '' 0x4 u);
              Some (say ('' is a directory (use -r for recursive copy)'' @ nl @ nl) 0x4 u)
            }
            else if is_dir then do {
              (r, u) \<leftarrow> copy_dir_recursive fuel current source current destination u;
              Some (if r = 0 then say (''Directory copied successfully'' @ nl @ nl) 0x7 u else u)
            }
            else do {
              (r, u) \<leftarrow> copy_file current source current destination u;
              Some (if r = 0 then say (''File copied successfully'' @ nl @ nl) 0x7 u else u)
            }
          }
        }
      })"

subsection \<open>\<open>mv\<close>\<close>

text \<open>A copy, then a removal of the source. The last of the messages ends with one line end.\<close>

definition mv :: "nat \<Rightarrow> u32 \<Rightarrow> mem list \<Rightarrow> user \<Rightarrow> user option" where
  "mv fuel current argv u =
     (if length argv < 3 then Some (say (''Usage: mv <source> <destination>'' @ nl @ nl) 0x7 u)
      else do {
        let source = argv ! 1;
        let destination = argv ! 2;
        (src, u) \<leftarrow> get_inode_by_name current source u;
        if src = 0 then complain ''mv: source not found: '' source u
        else do {
          (dst, u) \<leftarrow> get_inode_by_name current destination u;
          if dst \<noteq> 0 then complain ''mv: destination already exists: '' destination u
          else if src = 2 then Some (say (''mv: cannot access /bin directory'' @ nl @ nl) 0xC u)
          else do {
            (is_dir, u) \<leftarrow> test_directory src u;
            (r, u) \<leftarrow> (if is_dir then copy_dir_recursive fuel current source current destination u
              else copy_file current source current destination u);
            if r = 0 then
              if is_dir then do {
                u \<leftarrow> remove_recursive fuel current source u;
                Some (say (''Move completed successfully'' @ nl @ nl) 0x7 u)
              }
              else do {
                n \<leftarrow> strlen source 0;
                let (ret, u) = unset_int u;
                (ret, u) \<leftarrow> sys_delete (named_request (null_buffer u) source n current 0 False) ret u;
                if ret \<noteq> 0 then do {
                  u \<leftarrow> say_str source 0xF (say ''mv: failed to remove source after copy: '' 0x4 u);
                  Some (say nl 0xF u)
                }
                else Some (say (''Move completed successfully'' @ nl @ nl) 0x7 u)
              }
            else Some (say (''mv: failed to copy source to destination'' @ nl @ nl) 0x4 u)
          }
        }
      })"

subsection \<open>\<open>cd\<close>\<close>

partial_function (option) strcmp_from :: "mem \<Rightarrow> mem \<Rightarrow> nat \<Rightarrow> int option" where
  "strcmp_from s t i =
     (if s i \<noteq> 0 \<and> s i = t i then strcmp_from s t (i + 1) else Some (uint (s i) - uint (t i)))"

definition strcmp :: "mem \<Rightarrow> mem \<Rightarrow> int option" where
  "strcmp s t = strcmp_from s t 0"

definition get_parent_inode :: "u32 \<Rightarrow> user \<Rightarrow> (u32 \<times> user) option" where
  "get_parent_inode ino u =
     (if ino = 1 then Some (1, u)
      else do {
        let (data, u) = unset_array u;
        (data, ret, u) \<leftarrow> sys_read_directory (dot_request data ino DIR_BUFFER) 0 u;
        if ret \<noteq> 0 then Some (1, u)
        else
          let off = unat (rec_len (get_directory_entry data 0)) in
          Some (if off = 0 then 1
            else if off < DIR_BUFFER \<and> is_dotdot data off then de_inode (get_directory_entry data off)
            else 1, u)
      })"

function find_child :: "mem \<Rightarrow> mem \<Rightarrow> nat \<Rightarrow> nat \<Rightarrow> u32" where
  "find_child data name len off =
     (if off < DIR_BUFFER then
        let e = get_directory_entry data off in
        if rec_len e = 0 \<or> off + unat (rec_len e) > DIR_BUFFER then 0
        else if de_inode e \<noteq> 0 \<and> file_type e = EXT2_FT_DIR \<and> unat (de_name_len e) = len \<and>
            (\<forall>i<len. entry_text data off i = name i) then de_inode e
        else find_child data name len (off + unat (rec_len e))
      else 0)"
  by pat_completeness auto
termination
  by (relation "measure (\<lambda>(data, name, len, off). DIR_BUFFER - off)") (auto simp: unat_gt_0 intro!: diff_less_mono2)

declare find_child.simps [simp del]

definition find_child_inode :: "u32 \<Rightarrow> mem \<Rightarrow> u8 \<Rightarrow> user \<Rightarrow> (u32 \<times> user) option" where
  "find_child_inode parent name len u =
     (if parent = 0 then Some (0, u)
      else do {
        let (data, u) = unset_array u;
        (data, ret, u) \<leftarrow> sys_read_directory (dot_request data parent DIR_BUFFER) 0 u;
        Some (if ret \<noteq> 0 then 0 else find_child data name (unat len) 0, u)
      })"

text \<open>
  The components of a path: a component has 64 bytes with its NUL, and one of 63 bytes or more is
  left out. \<open>i\<close>, \<open>start\<close> and \<open>len\<close> are the loop's \<open>i\<close>, \<open>comp_start\<close> and \<open>comp_len\<close>.
\<close>

definition add_component :: "mem \<Rightarrow> nat \<Rightarrow> nat \<Rightarrow> u8 list list \<Rightarrow> u8 list list" where
  "add_component path start len components =
     (if 0 < len \<and> len < 63 then components @ [map (\<lambda>j. path (start + j)) [0..<len]] else components)"

partial_function (option) split_path_from :: "mem \<Rightarrow> nat \<Rightarrow> nat \<Rightarrow> nat \<Rightarrow> nat \<Rightarrow> u8 list list \<Rightarrow> u8 list list option" where
  "split_path_from path max_components i start len components =
     (if path i \<noteq> 0 \<and> length components < max_components then
        if path i = 0x2F then
          skip_while (\<lambda>c. c = 0x2F) path i \<bind> (\<lambda>k.
            split_path_from path max_components k k 0 (add_component path start len components))
        else split_path_from path max_components (i + 1) start (len + 1) components
      else Some (if length components < max_components then add_component path start len components else components))"

definition split_path :: "mem \<Rightarrow> nat \<Rightarrow> u8 list list option" where
  "split_path path max_components = do {
     i \<leftarrow> skip_while (\<lambda>c. c = 0x2F) path 0;
     split_path_from path max_components i i 0 []
   }"

text \<open>The steps of \<open>cd\<close> from \<open>target\<close>: \<open>None\<close> inside is its failure.\<close>

fun cd_steps :: "u8 list list \<Rightarrow> u32 \<Rightarrow> user \<Rightarrow> (u32 option \<times> user) option" where
  "cd_steps [] target u = Some (Some target, u)"
| "cd_steps (part # rest) target u = do {
     n \<leftarrow> strlen (text_of part) 0;
     if n = 0 then cd_steps rest target u
     else do {
       here \<leftarrow> strcmp (text_of part) (lit ''.'');
       if here = 0 then cd_steps rest target u
       else do {
         up \<leftarrow> strcmp (text_of part) (lit ''..'');
         if up = 0 then do {
           (parent, u) \<leftarrow> get_parent_inode target u;
           cd_steps rest (if parent \<noteq> 0 then parent else target) u
         }
         else do {
           (child, u) \<leftarrow> find_child_inode target (text_of part) (of_nat n) u;
           if child = 0 then do {
             u \<leftarrow> say_str (text_of part) 0xF (say ''cd: '' 0x4 u);
             Some (None, say ('': No such directory'' @ nl @ nl) 0x4 u)
           }
           else cd_steps rest child u
         }
       }
     }
   }"

definition cd :: "u32 \<Rightarrow> mem list \<Rightarrow> user \<Rightarrow> (u32 \<times> user) option" where
  "cd current argv u =
     (if length argv \<ge> 2 then do {
        let path = argv ! 1;
        components \<leftarrow> split_path path 16;
        (target, u) \<leftarrow> cd_steps components (if path 0 = 0x2F then 1 else current) u;
        Some (case target of None \<Rightarrow> current | Some t \<Rightarrow> t, u)
      }
      else Some (current, say (''Usage: cd <path>'' @ nl @ nl) 0x7 u))"


end
