(* ===== verification/Shell.thy ===== *)
theory Shell
  imports File_Commands
begin

section \<open>The shell: \<open>user-shell.c\<close>\<close>

text \<open>
  The shell's globals are the command buffer (ten rows of 100 bytes, of which the first is used, but
  without a bound), the inode of the current directory and its path. A command line is cut in place:
  the arguments are pointers into the buffer.
\<close>

record shell =
  prog :: user
  command :: mem
  current_inode :: u32
  current_path :: mem

subsection \<open>The path of the prompt\<close>

definition PATH_SIZE :: nat where "PATH_SIZE = 256"

text \<open>\<open>strcat\<close> on the array \<open>current_path\<close>: a write behind its end is a fault.\<close>

definition path_cat :: "mem \<Rightarrow> mem \<Rightarrow> mem option" where
  "path_cat dest src = do {
     d \<leftarrow> strlen dest 0;
     n \<leftarrow> strlen src 0;
     if d + n + 1 > PATH_SIZE then None else Some (memcpy_into dest d src 0 (n + 1))
   }"

text \<open>The entry of a directory that names an inode.\<close>

function entry_of_inode :: "mem \<Rightarrow> u32 \<Rightarrow> nat \<Rightarrow> nat option" where
  "entry_of_inode data ino off =
     (if off < DIR_BUFFER then
        let e = get_directory_entry data off in
        if rec_len e = 0 then None
        else if de_inode e = ino \<and> 0 < de_name_len e \<and> de_name_len e < 63 \<and> \<not> is_dot data off \<and> \<not> is_dotdot data off
        then Some off
        else entry_of_inode data ino (off + unat (rec_len e))
      else None)"
  by pat_completeness auto
termination
  by (relation "measure (\<lambda>(data, ino, off). DIR_BUFFER - off)") (auto simp: unat_gt_0 intro!: diff_less_mono2)

declare entry_of_inode.simps [simp del]

text \<open>The names from a directory up to the root, at most \<open>n\<close> of them.\<close>

fun path_parts :: "nat \<Rightarrow> u32 \<Rightarrow> user \<Rightarrow> (u8 list list \<times> user) option" where
  "path_parts 0 ino u = Some ([], u)"
| "path_parts (Suc n) ino u =
     (if ino = 1 then Some ([], u)
      else do {
        (parent, u) \<leftarrow> get_parent_inode ino u;
        if parent = ino then Some ([], u)
        else do {
          let (data, u) = unset_array u;
          (data, ret, u) \<leftarrow> sys_read_directory (dot_request data parent DIR_BUFFER) 0 u;
          if ret \<noteq> 0 then Some ([], u)
          else case entry_of_inode data ino 0 of
              None \<Rightarrow> Some ([], u)
            | Some off \<Rightarrow> do { (rest, u) \<leftarrow> path_parts n parent u; Some (entry_bytes data off # rest, u) }
        }
      })"

definition path_add :: "u8 list \<Rightarrow> mem \<Rightarrow> mem option" where
  "path_add part path = do {
     n \<leftarrow> strlen path 0;
     path \<leftarrow> (if n > 1 then path_cat path (lit ''/'') else Some path);
     path_cat path (text_of part)
   }"

text \<open>\<open>strcpy(current_path, "/")\<close> writes two bytes.\<close>

definition update_path_display :: "shell \<Rightarrow> shell option" where
  "update_path_display s =
     (let root = memcpy_into (current_path s) 0 (lit ''/'') 0 2 in
      if current_inode s = 1 then Some (s\<lparr>current_path := root\<rparr>)
      else do {
        (parts, u) \<leftarrow> path_parts 31 (current_inode s) (prog s);
        path \<leftarrow> iterate path_add (rev parts) root;
        Some (s\<lparr>prog := u, current_path := path\<rparr>)
      })"

subsection \<open>Cutting a command line\<close>

text \<open>The loop of \<open>process_command\<close>, for at most \<open>n\<close> more arguments from \<open>p\<close>.\<close>

fun split_args :: "nat \<Rightarrow> mem \<Rightarrow> nat \<Rightarrow> (nat list \<times> mem) option" where
  "split_args 0 m p = Some ([], m)"
| "split_args (Suc n) m p =
     (if m p = 0 then Some ([], m)
      else do {
        p \<leftarrow> skip_while (\<lambda>c. c = 0x20) m p;
        if m p = 0 then Some ([], m)
        else if m p = 0x22 then do {
          q \<leftarrow> skip_while (\<lambda>c. c \<noteq> 0 \<and> c \<noteq> 0x22) m (p + 1);
          let (m, q) = (if m q = 0x22 then (m(q := 0), q + 1) else (m, q));
          q \<leftarrow> skip_while (\<lambda>c. c = 0x20) m q;
          (args, m) \<leftarrow> split_args n m q;
          Some ((p + 1) # args, m)
        }
        else do {
          q \<leftarrow> skip_while (\<lambda>c. c \<noteq> 0 \<and> c \<noteq> 0x20 \<and> c \<noteq> 0x0A) m p;
          let (m, q) = (if m q \<noteq> 0 then (m(q := 0), q + 1) else (m, q));
          (args, m) \<leftarrow> split_args n m q;
          Some (p # args, m)
        }
      })"

definition split_command :: "mem \<Rightarrow> (nat list \<times> mem) option" where
  "split_command m = do {
     p \<leftarrow> skip_while (\<lambda>c. c = 0x20 \<or> c = 0x0A) m 0;
     split_args 10 m p
   }"

subsection \<open>Commands\<close>

datatype command_name =
  Cd | Ls | Mkdir | Cat | Cp | Rm | Mv | Find | Echo | Flex | Clear | Touch | Kill | Ps | Exec | Unknown

definition command_words :: "(string \<times> command_name) list" where
  "command_words =
     [(''cd'', Cd), (''ls'', Ls), (''mkdir'', Mkdir), (''cat'', Cat), (''cp'', Cp), (''rm'', Rm), (''mv'', Mv),
      (''find'', Find), (''echo'', Echo), (''flex'', Flex), (''clear'', Clear), (''touch'', Touch), (''kill'', Kill),
      (''ps'', Ps), (''exec'', Exec)]"

text \<open>The chain of comparisons.\<close>

fun command_of :: "(string \<times> command_name) list \<Rightarrow> mem \<Rightarrow> command_name option" where
  "command_of [] cmd = Some Unknown"
| "command_of ((w, c) # ws) cmd = do { b \<leftarrow> is_word w cmd; if b then Some c else command_of ws cmd }"

definition run_in :: "user option \<Rightarrow> shell \<Rightarrow> shell option" where
  "run_in r s = map_option (\<lambda>u. s\<lparr>prog := u\<rparr>) r"

definition run_command :: "nat \<Rightarrow> command_name \<Rightarrow> mem list \<Rightarrow> shell \<Rightarrow> shell option" where
  "run_command fuel c argv s =
     (let u = prog s; ino = current_inode s in
      case c of
        Cd \<Rightarrow> do {
          (new, u) \<leftarrow> cd ino argv u;
          let s = s\<lparr>prog := u, current_inode := new\<rparr>;
          if new \<noteq> ino then update_path_display s else Some s
        }
      | Ls \<Rightarrow> run_in (ls ino u) s
      | Mkdir \<Rightarrow> run_in (mkdir ino argv u) s
      | Cat \<Rightarrow> run_in (cat ino argv u) s
      | Cp \<Rightarrow> run_in (cp fuel ino argv u) s
      | Rm \<Rightarrow> run_in (rm fuel ino argv u) s
      | Mv \<Rightarrow> run_in (mv fuel ino argv u) s
      | Find \<Rightarrow> run_in (find_command fuel argv u) s
      | Echo \<Rightarrow> run_in (echo ino argv u) s
      | Flex \<Rightarrow> run_in (flex argv u) s
      | Clear \<Rightarrow> run_in (Some (sys_clear u)) s
      | Touch \<Rightarrow> run_in (touch ino argv u) s
      | Kill \<Rightarrow> run_in (kill argv u) s
      | Ps \<Rightarrow> run_in (map_option (\<lambda>u. sys_putchar 0x0A 0xF (sys_putchar 0x0A 0xF u)) (sys_ps u)) s
      | Exec \<Rightarrow> run_in (exec argv u) s
      | Unknown \<Rightarrow> run_in (do {
          u \<leftarrow> say_str (argv ! 0) 0xF (say ''Error: Command '' 0x4 u);
          Some (say ('' is not available !!'' @ nl @ nl) 0x4 u)
        }) s)"

definition process_command :: "nat \<Rightarrow> shell \<Rightarrow> shell option" where
  "process_command fuel s = do {
     (ptrs, m) \<leftarrow> split_command (command s);
     let s = s\<lparr>command := m\<rparr>;
     let argv = map (\<lambda>p i. m (p + i)) ptrs;
     if argv = [] then Some s
     else do {
       c \<leftarrow> command_of command_words (argv ! 0);
       run_command fuel c argv s
     }
   }"

subsection \<open>The line editor\<close>

definition COMMAND_SIZE :: nat where "COMMAND_SIZE = 10 * 100"

text \<open>One character from the keyboard, 0 when there is none. A write behind the array is a fault.\<close>

definition edit_key :: "u8 \<Rightarrow> mem \<times> nat \<times> user \<Rightarrow> (mem \<times> nat \<times> user) option" where
  "edit_key c = (\<lambda>(cmd, idx, u).
     if c = 0x08 then
       if idx > 0 then
         if idx < COMMAND_SIZE then Some (cmd(idx := 0), idx - 1, sys_putchar c 0xF u) else None
       else Some (cmd, idx, u)
     else if c \<noteq> 0 then
       if idx < COMMAND_SIZE then Some (cmd(idx := c), idx + 1, sys_putchar c 0xF u) else None
     else Some (cmd, idx, u))"

text \<open>
  The loop that polls the keyboard. \<open>polls\<close> are the scancodes whose interrupts come before each
  poll; \<open>None\<close> when the line never ends. The polls that are left are returned.
\<close>

definition press :: "u8 list \<Rightarrow> user \<Rightarrow> user" where
  "press codes u = u\<lparr>sys := (sys u)\<lparr>con := (con (sys u))\<lparr>keys := fold keyboard_isr codes (keys (con (sys u)))\<rparr>\<rparr>\<rparr>"

fun read_line :: "u8 list list \<Rightarrow> mem \<times> nat \<times> user \<Rightarrow> (u8 list list \<times> mem \<times> nat \<times> user) option" where
  "read_line [] st = None"
| "read_line (codes # polls) (cmd, idx, u) =
     (let (c, u) = sys_getchar (press codes u) in do {
        st \<leftarrow> edit_key c (cmd, idx, u);
        if c = 0x0A then Some (polls, st) else read_line polls st
      })"

definition prompt :: "shell \<Rightarrow> shell option" where
  "prompt s = do {
     u \<leftarrow> say_str (current_path s) 0xB (say '':'' 0xF (say ''@LOSS-2025'' 0xF (say ''Atmint'' 0xA (prog s))));
     Some (s\<lparr>prog := say '' $ '' 0xF u\<rparr>)
   }"

definition terminal :: "nat \<Rightarrow> u8 list list \<Rightarrow> shell \<Rightarrow> (u8 list list \<times> shell) option" where
  "terminal fuel polls s = do {
     s \<leftarrow> prompt s;
     (polls, cmd, _, u) \<leftarrow> read_line polls (command s, 0, prog s);
     s \<leftarrow> process_command fuel (s\<lparr>prog := sys_putchar 0x0A 0xF u, command := cmd\<rparr>);
     Some (polls, s\<lparr>command := memset (command s) 0 0 100\<rparr>)
   }"

text \<open>\<open>main\<close> with \<open>n\<close> rounds of its endless loop.\<close>

fun rounds :: "nat \<Rightarrow> nat \<Rightarrow> u8 list list \<Rightarrow> shell \<Rightarrow> (u8 list list \<times> shell) option" where
  "rounds 0 fuel polls s = Some (polls, s)"
| "rounds (Suc n) fuel polls s = do { (polls, s) \<leftarrow> terminal fuel polls s; rounds n fuel polls s }"

definition shell_start :: "shell \<Rightarrow> shell option" where
  "shell_start s = update_path_display (s\<lparr>prog := sys_activate_keyboard (prog s)\<rparr>)"

end
