(* ===== verification/Shell_Theorems.thy ===== *)
theory Shell_Theorems
  imports Shell Volume_Theorems Device_Theorems
begin

section \<open>Properties of the shell: lines, words, commands and paths\<close>

text \<open>
  What the line editor leaves in the buffer, how a line is cut into arguments, which command a word
  starts, and how a path is cut into components, each against a definition on lists of bytes.
\<close>

declare dropWhile_eq_Nil_conv [simp del]

subsection \<open>Strings in memory\<close>

lemma cstr_nz: "cstr m p xs \<Longrightarrow> 0 \<notin> set xs"
  by (auto simp: cstr_def in_set_conv_nth)

lemma cstr_at: "cstr m p xs \<Longrightarrow> k < length xs \<Longrightarrow> m (p + k) = xs ! k"
  by (simp add: cstr_def)

lemma cstr_end: "cstr m p xs \<Longrightarrow> m (p + length xs) = 0"
  by (simp add: cstr_def)

lemma cstr_drop: "cstr m p xs \<Longrightarrow> k \<le> length xs \<Longrightarrow> cstr m (p + k) (drop k xs)"
  by (auto simp: cstr_def add.assoc)

lemma cstr_dropWhile: "cstr m p xs \<Longrightarrow> cstr m (p + length (takeWhile P xs)) (dropWhile P xs)"
  using cstr_drop [of m p xs "length (takeWhile P xs)"] by (simp add: dropWhile_eq_drop length_takeWhile_le)

lemma takeWhile_nz: "0 \<notin> set xs \<Longrightarrow> takeWhile (\<lambda>c. c \<noteq> 0 \<and> Q c) xs = takeWhile Q xs"
  by (rule takeWhile_cong) auto

lemma skip_while_cstr:
  assumes "cstr m p xs" "\<not> P 0"
  shows "skip_while P m p = Some (p + length (takeWhile P xs))"
  using assms
proof (induction xs arbitrary: p)
  case Nil
  then show ?case by (subst skip_while.simps) simp
next
  case (Cons x xs)
  then have "skip_while P m (p + 1) = Some (p + 1 + length (takeWhile P xs))" by simp
  with Cons.prems show ?case by (subst skip_while.simps) simp
qed

lemma cstr_frame: "cstr m p xs \<Longrightarrow> (\<And>a. p \<le> a \<Longrightarrow> a \<le> p + length xs \<Longrightarrow> m' a = m a) \<Longrightarrow> cstr m' p xs"
  by (auto simp: cstr_def)

subsection \<open>Cutting a line\<close>

text \<open>The words of a line: separated by blanks or line ends, or in double quotes; \<open>n\<close> at most.\<close>

fun words :: "nat \<Rightarrow> u8 list \<Rightarrow> u8 list list" where
  "words 0 xs = []"
| "words (Suc n) xs =
     (case dropWhile (\<lambda>c. c = 0x20) xs of
        [] \<Rightarrow> []
      | c # cs \<Rightarrow>
          if c = 0x22 then takeWhile (\<lambda>c. c \<noteq> 0x22) cs # words n (dropWhile (\<lambda>c. c = 0x20) (tl (dropWhile (\<lambda>c. c \<noteq> 0x22) cs)))
          else takeWhile (\<lambda>c. c \<noteq> 0x20 \<and> c \<noteq> 0x0A) (c # cs) # words n (tl (dropWhile (\<lambda>c. c \<noteq> 0x20 \<and> c \<noteq> 0x0A) (c # cs))))"

lemma cut:
  assumes s: "cstr m p xs" and q: "q = p + length (takeWhile Q xs)"
    and m2: "m2 = (if m q \<noteq> 0 then m(q := 0) else m)" and q2: "q2 = (if m q \<noteq> 0 then q + 1 else q)"
  shows "skip_while (\<lambda>c. c \<noteq> 0 \<and> Q c) m p = Some q" "m q = 0 \<or> \<not> Q (m q)"
    "cstr m2 p (takeWhile Q xs)" "cstr m2 q2 (tl (dropWhile Q xs))" "q2 + length (tl (dropWhile Q xs)) = p + length xs"
    "a < p \<or> p + length xs \<le> a \<Longrightarrow> m2 a = m a" "a \<le> q \<Longrightarrow> a < q2 \<or> q2 + length (tl (dropWhile Q xs)) \<le> a" "p \<le> q2"
proof -
  show "skip_while (\<lambda>c. c \<noteq> 0 \<and> Q c) m p = Some q"
    using skip_while_cstr [OF s, of "\<lambda>c. c \<noteq> 0 \<and> Q c"] takeWhile_nz [OF cstr_nz [OF s]] by (simp add: q)
  have len: "length xs = length (takeWhile Q xs) + length (dropWhile Q xs)"
    by (metis length_append takeWhile_dropWhile_id)
  note rest = cstr_dropWhile [OF s, of Q, folded q]
  have w: "cstr (m(q := 0)) p (takeWhile Q xs)"
    using s q len by (auto simp: cstr_def nth_append takeWhile_nth)
  show "p \<le> q2" using q q2 by simp
  show "m q = 0 \<or> \<not> Q (m q)"
  proof (cases "dropWhile Q xs")
    case (Cons c cs)
    then show ?thesis using rest hd_dropWhile [of Q xs] by simp
  qed (use rest in simp)
  have "cstr m2 p (takeWhile Q xs) \<and> cstr m2 q2 (tl (dropWhile Q xs)) \<and> q2 + length (tl (dropWhile Q xs)) = p + length xs \<and>
      (\<forall>a. a < p \<or> p + length xs \<le> a \<longrightarrow> m2 a = m a) \<and> (\<forall>a\<le>q. a < q2 \<or> q2 + length (tl (dropWhile Q xs)) \<le> a)"
  proof (cases "dropWhile Q xs")
    case Nil
    with rest have "m q = 0" by simp
    moreover from this have "m(q := 0) = m" by auto
    ultimately show ?thesis using w q len Nil by (auto simp: m2 q2)
  next
    case (Cons c cs)
    with rest have "m q \<noteq> 0" "cstr m (Suc q) cs" by auto
    moreover have "cstr (m(q := 0)) (Suc q) cs" using calculation(2) by (rule cstr_frame) auto
    ultimately show ?thesis using w q len Cons by (auto simp: m2 q2)
  qed
  then show "cstr m2 p (takeWhile Q xs)" "cstr m2 q2 (tl (dropWhile Q xs))" "q2 + length (tl (dropWhile Q xs)) = p + length xs"
    "a < p \<or> p + length xs \<le> a \<Longrightarrow> m2 a = m a" "a \<le> q \<Longrightarrow> a < q2 \<or> q2 + length (tl (dropWhile Q xs)) \<le> a"
    by blast+
qed

definition cut_into :: "mem \<Rightarrow> nat \<Rightarrow> nat \<Rightarrow> nat list \<Rightarrow> mem \<Rightarrow> u8 list list \<Rightarrow> bool" where
  "cut_into m p n args m' ws \<longleftrightarrow> list_all2 (cstr m') args ws \<and> (\<forall>a. a < p \<or> p + n \<le> a \<longrightarrow> m' a = m a)"

lemma split_args_words: "cstr m p xs \<Longrightarrow> ok (split_args n m p) (\<lambda>(args, m'). cut_into m p (length xs) args m' (words n xs))"
proof (induction n arbitrary: m p xs)
  case 0
  then show ?case by (simp add: cut_into_def)
next
  case (Suc n)
  let ?blank = "\<lambda>c :: u8. c = 0x20"
  let ?p = "p + length (takeWhile ?blank xs)" let ?xs = "dropWhile ?blank xs"
  have skip: "skip_while ?blank m p = Some ?p" using skip_while_cstr [OF Suc.prems] by simp
  note rest = cstr_dropWhile [OF Suc.prems, of ?blank]
  have len: "length xs = length (takeWhile ?blank xs) + length ?xs" by (metis length_append takeWhile_dropWhile_id)
  show ?case
  proof (cases ?xs)
    case Nil
    then show ?thesis using rest skip by (auto simp: cut_into_def)
  next
    case (Cons c cs)
    then have x: "xs \<noteq> []" and c: "m ?p = c" "c \<noteq> 0" "cstr m (?p + 1) cs" using rest by auto
    have nz: "m p \<noteq> 0" using Suc.prems x by (cases xs) auto
    have step: "ok (split_args n m2 q3) (\<lambda>(args, m'). cut_into m p (length xs) (s # args) m' (w # words n ys))"
      if w: "cstr m2 s w" "\<And>a. s \<le> a \<Longrightarrow> a \<le> s + length w \<Longrightarrow> a < q3 \<or> q3 + length ys \<le> a" and ys: "cstr m2 q3 ys" "p \<le> q3" "q3 + length ys \<le> p + length xs"
        and fr: "\<And>a. a < p \<or> p + length xs \<le> a \<Longrightarrow> m2 a = m a" for m2 s w q3 ys
    proof (rule ok_pair_mono [OF Suc.IH [OF ys(1)]])
      fix args m'
      assume *: "cut_into m2 q3 (length ys) args m' (words n ys)"
      then have "cstr m' s w" using w by (intro cstr_frame [OF w(1)]) (auto simp: cut_into_def)
      with * fr ys show "cut_into m p (length xs) (s # args) m' (w # words n ys)" by (auto simp: cut_into_def)
    qed
    show ?thesis
    proof (cases "c = 0x22")
      case True
      let ?Q = "\<lambda>c :: u8. c \<noteq> 0x22"
      define q where "q = ?p + 1 + length (takeWhile ?Q cs)"
      define m2 where "m2 = (if m q \<noteq> 0 then m(q := 0) else m)"
      define q2 where "q2 = (if m q \<noteq> 0 then q + 1 else q)"
      note k = cut [OF c(3) q_def m2_def q2_def]
      let ?r = "tl (dropWhile ?Q cs)" let ?q3 = "q2 + length (takeWhile ?blank ?r)"
      have s3: "skip_while ?blank m2 q2 = Some ?q3" using skip_while_cstr [OF k(4)] by simp
      have l3: "length ?r = length (takeWhile ?blank ?r) + length (dropWhile ?blank ?r)" by (metis length_append takeWhile_dropWhile_id)
      have "ok (split_args n m2 ?q3) (\<lambda>(args, m'). cut_into m p (length xs) ((?p + 1) # args) m' (takeWhile ?Q cs # words n (dropWhile ?blank ?r)))"
      proof (rule step [OF k(3) _ cstr_dropWhile [OF k(4)]])
        show "p \<le> ?q3" "?q3 + length (dropWhile ?blank ?r) \<le> p + length xs" using k(5,8) l3 len Cons by simp_all
        show "m2 a = m a" if "a < p \<or> p + length xs \<le> a" for a using k(6) [of a] that len Cons by auto
        show "a < ?q3 \<or> ?q3 + length (dropWhile ?blank ?r) \<le> a" if "a \<le> ?p + 1 + length (takeWhile ?Q cs)" for a
          using k(7) [of a] that l3 by (auto simp: q_def)
      qed
      moreover have "(if m q = 0x22 then (m(q := 0), q + 1) else (m, q)) = (m2, q2)" using k(2) by (auto simp: m2_def q2_def)
      ultimately show ?thesis using skip nz c k(1) s3 True Cons by (simp add: ok_do)
    next
      case False
      let ?Q = "\<lambda>c :: u8. c \<noteq> 0x20 \<and> c \<noteq> 0x0A"
      define q where "q = ?p + length (takeWhile ?Q ?xs)"
      define m2 where "m2 = (if m q \<noteq> 0 then m(q := 0) else m)"
      define q2 where "q2 = (if m q \<noteq> 0 then q + 1 else q)"
      note k = cut [OF rest q_def m2_def q2_def]
      have "ok (split_args n m2 q2) (\<lambda>(args, m'). cut_into m p (length xs) (?p # args) m' (takeWhile ?Q ?xs # words n (tl (dropWhile ?Q ?xs))))"
      proof (rule step [OF k(3) _ k(4)])
        show "p \<le> q2" "q2 + length (tl (dropWhile ?Q ?xs)) \<le> p + length xs" using k(5,8) len by simp_all
        show "m2 a = m a" if "a < p \<or> p + length xs \<le> a" for a using k(6) [of a] that len by auto
        show "a < q2 \<or> q2 + length (tl (dropWhile ?Q ?xs)) \<le> a" if "a \<le> ?p + length (takeWhile ?Q ?xs)" for a
          using k(7) [of a] that by (simp add: q_def)
      qed
      moreover have "(if m q \<noteq> 0 then (m(q := 0), q + 1) else (m, q)) = (m2, q2)" by (simp add: m2_def q2_def)
      ultimately show ?thesis using skip nz c k(1) False Cons by (simp add: ok_do)
    qed
  qed
qed

lemma words_bound: "length (words n xs) \<le> n"
  by (induction n xs rule: words.induct) (auto split: list.splits)

lemma command_split:
  assumes "cstr m 0 xs"
  shows "ok (split_command m) (\<lambda>(args, m'). list_all2 (cstr m') args (words 10 (dropWhile (\<lambda>c. c = 0x20 \<or> c = 0x0A) xs)) \<and>
    length args \<le> 10 \<and> (\<forall>a\<ge>length xs. m' a = m a))"
proof -
  let ?B = "\<lambda>c :: u8. c = 0x20 \<or> c = 0x0A"
  have skip: "skip_while ?B m 0 = Some (length (takeWhile ?B xs))" using skip_while_cstr [OF assms, of ?B] by simp
  have len: "length xs = length (takeWhile ?B xs) + length (dropWhile ?B xs)" by (metis length_append takeWhile_dropWhile_id)
  have "ok (split_args 10 m (length (takeWhile ?B xs))) (\<lambda>(args, m'). list_all2 (cstr m') args (words 10 (dropWhile ?B xs)) \<and>
      length args \<le> 10 \<and> (\<forall>a\<ge>length xs. m' a = m a))"
    using words_bound [of 10 "dropWhile ?B xs"] len cstr_dropWhile [OF assms, of ?B]
    by (intro ok_pair_mono [OF split_args_words]) (auto simp: cut_into_def dest: list_all2_lengthD)
  then show ?thesis by (simp add: split_command_def skip)
qed

text \<open>C16: A command line is cut into at most ten arguments, the words of the line in order; each argument
  is NUL-terminated in the buffer, and nothing behind the line is written. The quotes of a word are
  not part of it.\<close>

theorem command_line_split:
  assumes "cstr m 0 xs"
  shows "ok (split_command m) (\<lambda>(args, m'). list_all2 (cstr m') args (words 10 (dropWhile (\<lambda>c. c = 0x20 \<or> c = 0x0A) xs)) \<and>
    length args \<le> 10 \<and> (\<forall>a\<ge>length xs. m' a = m a))"
  by (rule command_split [OF assms])

definition sample_line :: mem where
  "sample_line = blit (\<lambda>_. 0) 0 [0x63, 0x61, 0x74, 0x20, 0x22, 0x61, 0x20, 0x62, 0x22, 0x0A]"

lemma cstr_blit: "0 \<notin> set xs \<Longrightarrow> cstr (blit (\<lambda>_. 0) 0 xs) 0 xs"
  by (auto simp: cstr_def blit_def in_set_conv_nth)

lemma command_line_split_witness:
  "ok (split_command sample_line) (\<lambda>(args, m'). list_all2 (cstr m') args [[0x63, 0x61, 0x74], [0x61, 0x20, 0x62], []] \<and>
    length args \<le> 10 \<and> (\<forall>a\<ge>10. m' a = sample_line a))"
proof -
  have line: "cstr sample_line 0 [0x63, 0x61, 0x74, 0x20, 0x22, 0x61, 0x20, 0x62, 0x22, 0x0A]"
    unfolding sample_line_def by (rule cstr_blit) simp
  have cut: "words 10 (dropWhile (\<lambda>c. c = 0x20 \<or> c = 0x0A) [0x63, 0x61, 0x74, 0x20, 0x22, 0x61, 0x20, 0x62, 0x22, 0x0A]) =
      [[0x63, 0x61, 0x74], [0x61, 0x20, 0x62], []]" by code_simp
  from command_line_split [OF line, unfolded cut] show ?thesis by (simp add: eval_nat_numeral One_nat_def)
qed

subsection \<open>The command a word starts\<close>

lemma command_of_cstr:
  assumes "cstr cmd 0 xs" "\<forall>(w, c)\<in>set ws. 0 \<notin> set (map of_char w :: u8 list)"
  shows "command_of ws cmd = Some (case map_of (map (\<lambda>(w, c). (map of_char w, c)) ws) xs of None \<Rightarrow> Unknown | Some c \<Rightarrow> c)"
  using assms(2)
proof (induction ws)
  case (Cons wc ws)
  obtain w c where wc: "wc = (w, c)" by (cases wc)
  with Cons.prems is_word_cstr [OF assms(1), of w] have "is_word w cmd = Some (xs = map of_char w)" by simp
  with Cons wc show ?case by simp
qed simp

lemma dispatch:
  assumes "cstr cmd 0 xs"
  shows "command_of command_words cmd =
    Some (case map_of (map (\<lambda>(w, c). (map of_char w, c)) command_words) xs of None \<Rightarrow> Unknown | Some c \<Rightarrow> c)"
  by (rule command_of_cstr [OF assms]) (simp add: command_words_def)

subsection \<open>Typing a line\<close>

text \<open>What the polls give when the keyboard interrupts come between them, up to the end of the line.\<close>

fun characters :: "u8 list list \<Rightarrow> keyboard \<Rightarrow> u8 list" where
  "characters [] k = []"
| "characters (codes # polls) k =
     (let (c, k) = get_keyboard_buffer (fold keyboard_isr codes k)
      in if c = 0x0A then [c] else c # characters polls k)"

text \<open>The line a typist means: a backspace takes the character before it away.\<close>

definition edit :: "u8 list \<Rightarrow> u8 \<Rightarrow> u8 list" where
  "edit line c = (if c = 0x08 then butlast line else if c = 0 then line else line @ [c])"

definition edited :: "u8 list \<Rightarrow> u8 list" where
  "edited cs = foldl edit [] cs"

lemma edited_length: "length (edited cs) \<le> length cs"
proof -
  have "length (foldl edit acc cs) \<le> length acc + length cs" for acc
  proof (induction cs arbitrary: acc)
    case (Cons c cs)
    have "length (edit acc c) \<le> Suc (length acc)" by (auto simp: edit_def)
    with Cons [of "edit acc c"] show ?case by simp
  qed simp
  from this [of "[]"] show ?thesis by (simp add: edited_def)
qed

text \<open>Echoing a character takes the pressed arrow key, which no later character depends on.\<close>

definition same_keys :: "keyboard \<Rightarrow> keyboard \<Rightarrow> bool" where
  "same_keys k k' \<longleftrightarrow> keyboard_buffer k = keyboard_buffer k' \<and> shift_pressed k = shift_pressed k' \<and>
     caps_lock_on k = caps_lock_on k' \<and> keyboard_input_on k = keyboard_input_on k' \<and> read_extended_mode k = read_extended_mode k'"

lemma same_keys_make: "same_keys k k' \<Longrightarrow> same_keys (key_make c k) (key_make c k')"
  by (simp add: same_keys_def key_make_def Let_def)

lemma same_keys_extended: "same_keys k k' \<Longrightarrow> same_keys (key_extended c k) (key_extended c k')"
  by (simp add: same_keys_def key_extended_def)

lemma same_keys_isr: "same_keys k k' \<Longrightarrow> same_keys (keyboard_isr c k) (keyboard_isr c k')"
  using same_keys_make [of k k' c] same_keys_extended [of k k' "c AND 0x7F"]
  by (simp add: same_keys_def keyboard_isr_def Let_def)

lemma same_keys_fold: "same_keys k k' \<Longrightarrow> same_keys (fold keyboard_isr cs k) (fold keyboard_isr cs k')"
  by (induction cs arbitrary: k k') (simp_all add: same_keys_isr)

lemma same_keys_poll: "same_keys k k' \<Longrightarrow> fst (get_keyboard_buffer k) = fst (get_keyboard_buffer k') \<and>
    same_keys (snd (get_keyboard_buffer k)) (snd (get_keyboard_buffer k'))"
  by (simp add: get_keyboard_buffer_def same_keys_def)

lemma same_keys_putchar: "same_keys (keys s) (keys (putchar c x s))"
  by (auto simp: putchar_def get_special_key_def Let_def same_keys_def)

lemma same_keys_trans: "same_keys k k' \<Longrightarrow> same_keys k' k'' \<Longrightarrow> same_keys k k''"
  by (simp add: same_keys_def)

definition line_ok :: "mem \<Rightarrow> u8 list \<Rightarrow> bool" where
  "line_ok cmd acc \<longleftrightarrow> (\<forall>i<length acc. cmd i = acc ! i \<and> acc ! i \<noteq> 0) \<and> (\<forall>i. length acc < i \<and> i < 100 \<longrightarrow> cmd i = 0)"

lemma line_ok_edit:
  assumes "line_ok cmd acc" "length acc < 99"
  shows "\<exists>cmd' u'. edit_key c (cmd, length acc, u) = Some (cmd', length (edit acc c), u') \<and> line_ok cmd' (edit acc c) \<and>
    same_keys (keys (con (sys u))) (keys (con (sys u')))"
proof -
  have refl: "same_keys k k" for k by (simp add: same_keys_def)
  note echo = same_keys_putchar [where s = "con (sys u)" and c = c and x = "0xF"]
  consider "c = 0x08" "acc = []" | "c = 0x08" "acc \<noteq> []" | "c = 0" | "c \<noteq> 0x08" "c \<noteq> 0" by blast
  then show ?thesis
  proof cases
    case 2
    have "line_ok (cmd(length acc := 0)) (butlast acc)" using assms 2 by (auto simp: line_ok_def nth_butlast)
    then show ?thesis using assms 2 echo by (simp add: edit_key_def edit_def COMMAND_SIZE_def sys_putchar_def)
  next
    case 4
    have "line_ok (cmd(length acc := c)) (acc @ [c])" using assms 4 by (auto simp: line_ok_def nth_append less_Suc_eq)
    then show ?thesis using assms 4 echo by (simp add: edit_key_def edit_def COMMAND_SIZE_def sys_putchar_def)
  qed (use assms refl in \<open>simp_all add: edit_key_def edit_def\<close>)
qed

lemma read_line_edits:
  assumes "line_ok cmd acc" "same_keys k (keys (con (sys u)))" "characters polls k = cs @ [0x0A]" "0x0A \<notin> set cs"
    "\<And>n. n \<le> length cs \<Longrightarrow> length (foldl edit acc (take n cs)) < 99"
  shows "ok (read_line polls (cmd, length acc, u)) (\<lambda>(rest, cmd', idx, u'). cstr cmd' 0 (foldl edit acc cs @ [0x0A]))"
  using assms
proof (induction polls arbitrary: cmd acc u k cs)
  case Nil
  then show ?case by simp
next
  case (Cons codes polls)
  let ?k = "fold keyboard_isr codes k"
  define c where "c = fst (get_keyboard_buffer ?k)"
  have keys: "same_keys ?k (keys (con (sys (press codes u))))" using same_keys_fold [OF Cons.prems(2)] by (simp add: press_def)
  note poll = same_keys_poll [OF keys]
  then obtain u1 where get: "sys_getchar (press codes u) = (c, u1)" "same_keys (snd (get_keyboard_buffer ?k)) (keys (con (sys u1)))"
    by (auto simp: c_def sys_getchar_def case_prod_beta Let_def)
  have "length acc < 99" using Cons.prems(5) [of 0] by simp
  from line_ok_edit [OF Cons.prems(1) this, of c u1] obtain cmd' u' where
    e: "edit_key c (cmd, length acc, u1) = Some (cmd', length (edit acc c), u')" "line_ok cmd' (edit acc c)"
      "same_keys (keys (con (sys u1))) (keys (con (sys u')))" by blast
  show ?case
  proof (cases "c = 0x0A")
    case True
    then have "cs = []" using Cons.prems(3) by (simp add: c_def case_prod_beta)
    moreover have "edit acc c = acc @ [0x0A]" by (simp add: edit_def True)
    moreover have "cmd' = cmd(length acc := 0x0A)"
      using e(1) True \<open>length acc < 99\<close> by (simp add: edit_key_def COMMAND_SIZE_def)
    then have "cmd' (Suc (length acc)) = 0" using Cons.prems(1) \<open>length acc < 99\<close> by (simp add: line_ok_def)
    then have "cstr cmd' 0 (acc @ [0x0A])"
      using e(2) unfolding calculation by (simp add: line_ok_def cstr_def)
    ultimately show ?thesis using get(1) e(1) True by simp
  next
    case False
    then obtain cs' where cs: "cs = c # cs'" "characters polls (snd (get_keyboard_buffer ?k)) = cs' @ [0x0A]"
      using Cons.prems(3) by (cases cs) (auto simp: c_def case_prod_beta)
    have "ok (read_line polls (cmd', length (edit acc c), u')) (\<lambda>(rest, cmd', idx, u'). cstr cmd' 0 (foldl edit (edit acc c) cs' @ [0x0A]))"
    proof (rule Cons.IH [OF e(2) same_keys_trans [OF get(2) e(3)] cs(2)])
      show "0x0A \<notin> set cs'" using Cons.prems(4) cs(1) by simp
      show "length (foldl edit (edit acc c) (take n cs')) < 99" if "n \<le> length cs'" for n
        using Cons.prems(5) [of "Suc n"] that cs(1) by simp
    qed
    moreover have "read_line (codes # polls) (cmd, length acc, u) = read_line polls (cmd', length (edit acc c), u')"
      using get(1) e(1) False by simp
    ultimately show ?thesis by (simp only: cs(1) foldl.simps)
  qed
qed

text \<open>C17: The line editor leaves in the buffer, NUL-terminated, the line the typist means and its line end,
  whatever was typed and taken back, as long as the line never reaches 99 characters; it returns with
  the first line end.\<close>

theorem line_editing:
  assumes "\<forall>i<100. cmd i = 0" "characters polls (keys (con (sys u))) = cs @ [0x0A]" "0x0A \<notin> set cs"
    "\<forall>n\<le>length cs. length (edited (take n cs)) < 99"
  shows "ok (read_line polls (cmd, 0, u)) (\<lambda>(rest, cmd', idx, u'). cstr cmd' 0 (edited cs @ [0x0A]))"
proof -
  have "line_ok cmd []" using assms(1) by (simp add: line_ok_def)
  moreover have "same_keys (keys (con (sys u))) (keys (con (sys u)))" by (simp add: same_keys_def)
  ultimately show ?thesis
    using read_line_edits [of cmd "[]" "keys (con (sys u))" u polls cs] assms(2-4) by (simp add: edited_def)
qed


text \<open>The small machine with the fresh file system, its keyboard switched on.\<close>

definition sample_user :: user where
  "sample_user = sys_activate_keyboard
     \<lparr>sys = small_machine\<lparr>kern := (kern small_machine)\<lparr>kernel_fs := fresh_fs\<rparr>\<rparr>, junk = (\<lambda>_ _. 0), used = 0\<rparr>"

text \<open>An \<open>l\<close>, a release with an \<open>a\<close>, a backspace, an \<open>s\<close> and the line end.\<close>

definition sample_polls :: "u8 list list" where
  "sample_polls = [[0x26], [], [0xA6, 0x1E], [0x0E], [0x1F], [0x1C]]"

lemma sample_keys: "characters sample_polls (keyboard_state_activate k) = [0x6C, 0, 0x61, 0x08, 0x73] @ [0x0A]"
  by (simp add: sample_polls_def keyboard_state_activate_def get_keyboard_buffer_def keyboard_isr_def key_make_def scancodes
      keyboard_scancode_1_to_ascii_map_def break_bit clean_bits)

lemma line_editing_witness:
  "ok (read_line sample_polls ((\<lambda>_. 0), 0, sample_user)) (\<lambda>(rest, cmd', idx, u'). cstr cmd' 0 [0x6C, 0x73, 0x0A])"
proof -
  have keys: "characters sample_polls (keys (con (sys sample_user))) = [0x6C, 0, 0x61, 0x08, 0x73] @ [0x0A]"
    by (simp add: sample_user_def sys_activate_keyboard_def sample_keys)
  have "\<forall>n\<le>length [0x6C, 0, 0x61, 0x08, 0x73]. length (edited (take n [0x6C, 0, 0x61, 0x08, 0x73])) < 99"
  proof (intro allI impI)
    fix n :: nat
    show "length (edited (take n [0x6C, 0, 0x61, 0x08, 0x73])) < 99"
      using edited_length [of "take n [0x6C, 0, 0x61, 0x08, 0x73]"] by simp
  qed
  moreover have "edited [0x6C, 0, 0x61, 0x08, 0x73] = [0x6C, 0x73]" by (simp add: edited_def edit_def)
  ultimately show ?thesis using line_editing [OF _ keys, of "\<lambda>_. 0"] by simp
qed

subsection \<open>The components of a path\<close>

fun split_slash :: "u8 list \<Rightarrow> u8 list list" where
  "split_slash [] = [[]]"
| "split_slash (c # cs) =
     (if c = 0x2F then [] # split_slash cs
      else case split_slash cs of [] \<Rightarrow> [[c]] | w # ws \<Rightarrow> (c # w) # ws)"

definition fits :: "u8 list \<Rightarrow> bool" where
  "fits w \<longleftrightarrow> w \<noteq> [] \<and> length w < 63"

definition components :: "u8 list \<Rightarrow> u8 list list" where
  "components xs = filter fits (split_slash xs)"

text \<open>The components of what is left when \<open>w\<close> has been read of the current one.\<close>

definition after :: "u8 list \<Rightarrow> u8 list \<Rightarrow> u8 list list" where
  "after w ys = filter fits ((w @ hd (split_slash ys)) # tl (split_slash ys))"

lemma split_slash_ne: "split_slash xs \<noteq> []"
  by (cases xs) (auto split: list.splits)

lemma after_Nil: "after [] ys = components ys"
  using split_slash_ne [of ys] by (cases "split_slash ys") (simp_all add: after_def components_def)

lemma after_end: "after w [] = filter fits [w]"
  by (simp add: after_def)

lemma after_char: "c \<noteq> 0x2F \<Longrightarrow> after w (c # ys) = after (w @ [c]) ys"
  using split_slash_ne [of ys] by (cases "split_slash ys") (simp_all add: after_def)

lemma after_slash: "after w (0x2F # ys) = filter fits [w] @ components ys"
  by (simp add: after_def components_def)

lemma components_slashes: "components (dropWhile (\<lambda>c. c = 0x2F) xs) = components xs"
  by (induction xs) (auto simp: components_def fits_def)

lemma add_component_eq:
  assumes "\<And>j. j < length w \<Longrightarrow> path (start + j) = w ! j"
  shows "add_component path start (length w) comps = comps @ filter fits [w]"
proof -
  have "map (\<lambda>j. path (start + j)) [0..<length w] = w" using assms by (intro nth_equalityI) simp_all
  then show ?thesis by (simp add: add_component_def fits_def)
qed

lemma split_path_from_eq:
  assumes "cstr path i ys" "i = start + length w" "\<And>j. j < length w \<Longrightarrow> path (start + j) = w ! j" "length comps \<le> n"
  shows "split_path_from path n i start (length w) comps = Some (take n (comps @ after w ys))"
  using assms
proof (induction "length ys" arbitrary: i start w comps ys rule: less_induct)
  case less
  note step = split_path_from.simps [of path n i start "length w" comps]
  have add: "add_component path start (length w) comps = comps @ filter fits [w]"
    by (rule add_component_eq [OF less.prems(3)])
  show ?case
  proof (cases "length comps < n")
    case False
    then show ?thesis using less.prems(4) by (simp add: step)
  next
    case room: True
    show ?thesis
    proof (cases ys)
      case Nil
      then show ?thesis using less.prems(1) room add by (simp add: step after_end)
    next
      case (Cons c cs)
      then have c: "path i = c" "c \<noteq> 0" "cstr path (Suc i) cs" using less.prems(1) by simp_all
      show ?thesis
      proof (cases "c = 0x2F")
        case True
        let ?S = "\<lambda>c :: u8. c = 0x2F"
        define k where "k = i + length (takeWhile ?S ys)"
        have skip: "skip_while ?S path i = Some k" using skip_while_cstr [OF less.prems(1), of ?S] by (simp add: k_def)
        have "length (dropWhile ?S ys) < length ys" using Cons True length_dropWhile_le [of ?S cs] by (simp add: less_Suc_eq_le)
        moreover have "length (comps @ filter fits [w]) \<le> n" using room by simp
        ultimately have "split_path_from path n k k (length ([] :: u8 list)) (comps @ filter fits [w]) =
            Some (take n ((comps @ filter fits [w]) @ after [] (dropWhile ?S ys)))"
          using cstr_dropWhile [OF less.prems(1), of ?S, folded k_def] by (intro less.hyps) simp_all
        moreover have "after [] (dropWhile ?S ys) = components cs"
          using Cons True components_slashes [of cs] by (simp add: after_Nil)
        ultimately show ?thesis using c room True skip add Cons by (simp add: step after_slash)
      next
        case False
        have "split_path_from path n (Suc i) start (length (w @ [c])) comps = Some (take n (comps @ after (w @ [c]) cs))"
          using c less.prems(2-4) Cons by (intro less.hyps) (auto simp: nth_append less_Suc_eq)
        then show ?thesis using c room False Cons by (simp add: step after_char)
      qed
    qed
  qed
qed

text \<open>\<open>split_path\<close> returns on every path and gives its first components between slashes in order,
  leaving out the empty ones and, silently, every one of 63 bytes or more.\<close>

theorem path_splits:
  assumes "cstr path 0 xs"
  shows "split_path path n = Some (take n (components xs))"
proof -
  let ?S = "\<lambda>c :: u8. c = 0x2F"
  define k where "k = length (takeWhile ?S xs)"
  have skip: "skip_while ?S path 0 = Some k" using skip_while_cstr [OF assms, of ?S] by (simp add: k_def)
  have "cstr path k (dropWhile ?S xs)" using cstr_dropWhile [OF assms, of ?S] by (simp add: k_def)
  from split_path_from_eq [OF this, of k "[]" "[]" n] show ?thesis
    by (simp add: split_path_def skip after_Nil components_slashes)
qed

lemma path_splits_witness: "split_path (blit (\<lambda>_. 0) 0 [0x2F, 0x61, 0x2F, 0x2F, 0x62]) 16 = Some [[0x61], [0x62]]"
proof -
  have "cstr (blit (\<lambda>_. 0) 0 [0x2F, 0x61, 0x2F, 0x2F, 0x62]) 0 [0x2F, 0x61, 0x2F, 0x2F, 0x62]" by (rule cstr_blit) simp
  from path_splits [OF this, of 16] show ?thesis by (simp add: components_def fits_def)
qed

subsection \<open>From the line to the command\<close>

lemma map_cstr: "list_all2 (cstr m) ptrs ws \<Longrightarrow> list_all2 (\<lambda>a w. cstr a 0 w) (map (\<lambda>p i. m (p + i)) ptrs) ws"
  by (simp add: list_all2_map1) (elim list_all2_mono, simp add: cstr_def)

definition named_command :: "u8 list \<Rightarrow> command_name" where
  "named_command w = (case map_of (map (\<lambda>(w, c). (map of_char w, c)) command_words) w of None \<Rightarrow> Unknown | Some c \<Rightarrow> c)"

text \<open>The words of the line, then the chain of comparisons.\<close>

lemma run_named:
  assumes "cstr (command s) 0 xs" "words 10 (dropWhile (\<lambda>c. c = 0x20 \<or> c = 0x0A) xs) = ws"
  shows "\<exists>argv m'. list_all2 (\<lambda>a w. cstr a 0 w) argv ws \<and>
    process_command fuel s =
      (case ws of [] \<Rightarrow> Some (s\<lparr>command := m'\<rparr>)
       | w # _ \<Rightarrow> run_command fuel (named_command w) argv (s\<lparr>command := m'\<rparr>))"
proof -
  from command_split [OF assms(1)] obtain ptrs m' where
    cut: "split_command (command s) = Some (ptrs, m')" "list_all2 (cstr m') ptrs ws"
    by (auto simp: ok_def assms(2))
  let ?argv = "map (\<lambda>p i. m' (p + i)) ptrs"
  have argv: "list_all2 (\<lambda>a w. cstr a 0 w) ?argv ws" using map_cstr [OF cut(2)] .
  have "process_command fuel s = (case ws of [] \<Rightarrow> Some (s\<lparr>command := m'\<rparr>)
       | w # _ \<Rightarrow> run_command fuel (named_command w) ?argv (s\<lparr>command := m'\<rparr>))"
  proof (cases ws)
    case Nil
    then show ?thesis using cut by (simp add: process_command_def)
  next
    case (Cons w ws')
    then obtain p ps where "ptrs = p # ps" using cut(2) by (cases ptrs) auto
    then show ?thesis using cut(1) argv Cons
      by (simp add: process_command_def named_command_def dispatch [of "\<lambda>i. m' (p + i)" w])
  qed
  with argv show ?thesis by blast
qed

text \<open>The words of the commands, as bytes.\<close>

definition ascii :: "string \<Rightarrow> u8 list" where
  "ascii w = map of_char w"

lemma named_cases:
  "named_command w =
    (if w = ascii ''cd'' then Cd
     else if w = ascii ''ls'' then Ls
     else if w = ascii ''mkdir'' then Mkdir
     else if w = ascii ''cat'' then Cat
     else if w = ascii ''cp'' then Cp
     else if w = ascii ''rm'' then Rm
     else if w = ascii ''mv'' then Mv
     else if w = ascii ''find'' then Find
     else if w = ascii ''echo'' then Echo
     else if w = ascii ''flex'' then Flex
     else if w = ascii ''clear'' then Clear
     else if w = ascii ''touch'' then Touch
     else if w = ascii ''kill'' then Kill
     else if w = ascii ''ps'' then Ps
     else if w = ascii ''exec'' then Exec
     else Unknown)"
  by (simp add: named_command_def command_words_def ascii_def)

lemma map_bind_Some: "map_option f (x \<bind> (\<lambda>y. Some (g y))) = x \<bind> (\<lambda>y. Some (f (g y)))"
  by (cases x) simp_all

lemma run_if: "run_command fuel (if b then c else d) argv s = (if b then run_command fuel c argv s else run_command fuel d argv s)"
  by simp

text \<open>C18: \<open>process_command\<close> runs the command that the first word of the line names, with the words as its
  arguments: each of the fifteen words exactly its own command, \<open>cd\<close> with a new path for the prompt when the
  directory has changed, and any other word a message with the word in it. An empty line does nothing.\<close>

theorem command_runs:
  assumes "cstr (command s) 0 xs" "words 10 (dropWhile (\<lambda>c. c = 0x20 \<or> c = 0x0A) xs) = ws"
  shows "\<exists>argv m'. list_all2 (\<lambda>a w. cstr a 0 w) argv ws \<and>
    (let s' = s\<lparr>command := m'\<rparr>; u = prog s; ino = current_inode s in
     process_command fuel s =
      (case ws of [] \<Rightarrow> Some s' | w # _ \<Rightarrow>
       if w = ascii ''cd'' then do {
         (new, u) \<leftarrow> cd ino argv u;
         if new \<noteq> ino then update_path_display (s'\<lparr>prog := u, current_inode := new\<rparr>)
         else Some (s'\<lparr>prog := u, current_inode := new\<rparr>)
       }
       else if w = ascii ''ls'' then map_option (\<lambda>u. s'\<lparr>prog := u\<rparr>) (ls ino u)
       else if w = ascii ''mkdir'' then map_option (\<lambda>u. s'\<lparr>prog := u\<rparr>) (mkdir ino argv u)
       else if w = ascii ''cat'' then map_option (\<lambda>u. s'\<lparr>prog := u\<rparr>) (cat ino argv u)
       else if w = ascii ''cp'' then map_option (\<lambda>u. s'\<lparr>prog := u\<rparr>) (cp fuel ino argv u)
       else if w = ascii ''rm'' then map_option (\<lambda>u. s'\<lparr>prog := u\<rparr>) (rm fuel ino argv u)
       else if w = ascii ''mv'' then map_option (\<lambda>u. s'\<lparr>prog := u\<rparr>) (mv fuel ino argv u)
       else if w = ascii ''find'' then map_option (\<lambda>u. s'\<lparr>prog := u\<rparr>) (find_command fuel argv u)
       else if w = ascii ''echo'' then map_option (\<lambda>u. s'\<lparr>prog := u\<rparr>) (echo ino argv u)
       else if w = ascii ''flex'' then map_option (\<lambda>u. s'\<lparr>prog := u\<rparr>) (flex argv u)
       else if w = ascii ''clear'' then map_option (\<lambda>u. s'\<lparr>prog := u\<rparr>) (Some (sys_clear u))
       else if w = ascii ''touch'' then map_option (\<lambda>u. s'\<lparr>prog := u\<rparr>) (touch ino argv u)
       else if w = ascii ''kill'' then map_option (\<lambda>u. s'\<lparr>prog := u\<rparr>) (kill argv u)
       else if w = ascii ''ps'' then map_option (\<lambda>u. s'\<lparr>prog := u\<rparr>) (map_option (\<lambda>u. sys_putchar 0x0A 0xF (sys_putchar 0x0A 0xF u)) (sys_ps u))
       else if w = ascii ''exec'' then map_option (\<lambda>u. s'\<lparr>prog := u\<rparr>) (exec argv u)
       else do {
         u \<leftarrow> say_str (argv ! 0) 0xF (say ''Error: Command '' 0x4 u);
         Some (s'\<lparr>prog := say ('' is not available !!'' @ nl @ nl) 0x4 u\<rparr>)
       }))" (is "\<exists>argv m'. _ \<and> ?run argv m'")
proof -
  from run_named [OF assms] obtain argv m' where
    argv: "list_all2 (\<lambda>a w. cstr a 0 w) argv ws" and
    run: "process_command fuel s =
      (case ws of [] \<Rightarrow> Some (s\<lparr>command := m'\<rparr>)
       | w # _ \<Rightarrow> run_command fuel (named_command w) argv (s\<lparr>command := m'\<rparr>))" by blast
  show ?thesis
  proof (intro exI [of _ argv] exI [of _ m'] conjI argv, cases ws)
    case Nil
    then show "?run argv m'" using run by simp
  next
    case (Cons w ws')
    show "?run argv m'"
      unfolding run Cons list.case named_cases run_if by (simp add: run_command_def run_in_def Let_def map_bind_Some)
  qed
qed


definition sample_shell :: "u8 list \<Rightarrow> shell" where
  "sample_shell line = \<lparr>prog = sample_user, command = blit (\<lambda>_. 0) 0 line, current_inode = 1, current_path = lit ''/''\<rparr>"

lemma command_runs_witness:
  "\<exists>m'. process_command 0 (sample_shell [0x20, 0x6C, 0x73, 0x0A]) =
     map_option (\<lambda>u. (sample_shell [0x20, 0x6C, 0x73, 0x0A])\<lparr>command := m', prog := u\<rparr>) (ls 1 sample_user)"
proof -
  have line: "cstr (command (sample_shell [0x20, 0x6C, 0x73, 0x0A])) 0 [0x20, 0x6C, 0x73, 0x0A]"
    by (simp only: sample_shell_def shell.simps) (rule cstr_blit, simp)
  have cut: "words 10 (dropWhile (\<lambda>c. c = 0x20 \<or> c = 0x0A) [0x20, 0x6C, 0x73, 0x0A]) = [[0x6C, 0x73]]" by code_simp
  have "ascii ''ls'' = [0x6C, 0x73]" "ascii ''cd'' \<noteq> [0x6C, 0x73]" by (simp_all add: ascii_def)
  moreover have "prog (sample_shell l) = sample_user" "current_inode (sample_shell l) = 1" for l by (simp_all add: sample_shell_def)
  ultimately show ?thesis using command_runs [OF line cut, of 0] by (auto simp: Let_def)
qed


end
