(* ===== verification/Demos.thy ===== *)
theory Demos
  imports Shell
begin

section \<open>The clock and the video player: \<open>external/clock/clock.c\<close>, \<open>external/bad-apple/bad-apple.c\<close>\<close>

text \<open>
  Two programs of their own. The clock draws the time in the last row of the screen, again and again;
  the busy wait between two drawings has no effect. The player decodes frames of 35 blocks of 16
  bytes, two bits for every block of 8 by 8 pixels; its data is generated when it is built and is a
  parameter.
\<close>

subsection \<open>The clock\<close>

record draw_info =
  di_x :: u32
  di_y :: u32
  di_color :: u8
  di_character :: u8

definition sys_draw :: "draw_info \<Rightarrow> user \<Rightarrow> user" where
  "sys_draw d u = u\<lparr>sys := (sys u)\<lparr>con := (con (sys u))\<lparr>screen :=
     vga_draw_char (sint (di_x d)) (sint (di_y d)) (di_character d) (di_color d) (screen (con (sys u)))\<rparr>\<rparr>\<rparr>"

text \<open>The fields the clock uses of the structure the kernel fills.\<close>

definition sys_time :: "rtc_dev \<Rightarrow> user \<Rightarrow> (rtc \<times> user) option" where
  "sys_time dev u = do {
     c \<leftarrow> read_rtc dev (clock (sys u));
     Some (c, u\<lparr>sys := (sys u)\<lparr>clock := c\<rparr>\<rparr>)
   }"

definition draw_next :: "u8 \<Rightarrow> draw_info \<times> user \<Rightarrow> draw_info \<times> user" where
  "draw_next c = (\<lambda>(d, u). let d = d\<lparr>di_character := c\<rparr> in (d\<lparr>di_x := di_x d + 1\<rparr>, sys_draw d u))"

definition print_number :: "u8 \<Rightarrow> draw_info \<times> user \<Rightarrow> draw_info \<times> user" where
  "print_number num = (\<lambda>(d, u).
     let d = d\<lparr>di_color := 0xF\<rparr>;
         tens = (if num < 10 then 0x30 else 0x30 + num div 10)
     in draw_next (0x30 + num mod 10) (draw_next tens (d, u)))"

definition clock_frame :: "rtc_dev \<Rightarrow> draw_info \<times> user \<Rightarrow> (draw_info \<times> user) option" where
  "clock_frame dev = (\<lambda>(d, u). do {
     let d = d\<lparr>di_x := 70, di_y := 59\<rparr>;
     (c, u) \<leftarrow> sys_time dev u;
     let hours = of_int ((uint (hour c) + 7) mod 24);
     let s = draw_next 0x3A (print_number hours (d, u));
     let s = draw_next 0x3A (print_number (minute c) s);
     Some (print_number (second c) s)
   })"

subsection \<open>The player\<close>

definition BLOCK_ROWS :: nat where "BLOCK_ROWS = 45 div 8"
definition BLOCK_COLS :: nat where "BLOCK_COLS = 60 div 8"
definition BLOCK_COUNT :: nat where "BLOCK_COUNT = BLOCK_ROWS * BLOCK_COLS"

lemma player_consts [simp]: "BLOCK_ROWS = 5" "BLOCK_COLS = 7" "BLOCK_COUNT = 35"
  by (simp_all add: BLOCK_ROWS_def BLOCK_COLS_def BLOCK_COUNT_def)

text \<open>Sixteen bytes of the data; reading behind it is a fault.\<close>

definition video_block :: "u8 list \<Rightarrow> nat \<Rightarrow> (u8 list \<times> nat) option" where
  "video_block data idx = (if idx + 16 \<le> length data then Some (take 16 (drop idx data), idx + 16) else None)"

fun full_frame :: "u8 list \<Rightarrow> nat \<Rightarrow> nat \<Rightarrow> (u8 list list \<times> nat) option" where
  "full_frame data idx 0 = Some ([], idx)"
| "full_frame data idx (Suc n) = do {
     (b, idx) \<leftarrow> video_block data idx;
     (bs, idx) \<leftarrow> full_frame data idx n;
     Some (b # bs, idx)
   }"

text \<open>The block number comes from the data: a number of 35 or more is a write outside the array.\<close>

fun apply_deltas :: "u8 list \<Rightarrow> nat \<Rightarrow> nat \<Rightarrow> u8 list list \<Rightarrow> (u8 list list \<times> nat) option" where
  "apply_deltas data idx 0 cur = Some (cur, idx)"
| "apply_deltas data idx (Suc n) cur = do {
     bidx \<leftarrow> arr_get data idx;
     (b, idx) \<leftarrow> video_block data (idx + 1);
     cur \<leftarrow> arr_put cur (unat bidx) b;
     apply_deltas data idx n cur
   }"

definition decode_frame :: "u8 list \<Rightarrow> nat \<Rightarrow> u8 list list \<Rightarrow> (u8 list list \<times> nat) option" where
  "decode_frame data idx prev = do {
     count \<leftarrow> arr_get data idx;
     if count = 255 then full_frame data (idx + 1) BLOCK_COUNT
     else apply_deltas data (idx + 1) (unat count) prev
   }"

definition pixel_color :: "u8 \<Rightarrow> u8" where
  "pixel_color v = (if v = 0 then 0x0 else if v = 1 then 0x8 else if v = 2 then 0x7 else 0xF)"

definition sys_fill :: "int \<Rightarrow> int \<Rightarrow> u8 \<Rightarrow> user \<Rightarrow> user" where
  "sys_fill x y color u = u\<lparr>sys := (sys u)\<lparr>con := (con (sys u))\<lparr>screen := vga_fill8x8 x y color (screen (con (sys u)))\<rparr>\<rparr>\<rparr>"

text \<open>The eight blocks of pixels of one row of a block, four from each byte.\<close>

definition render_row :: "u8 list list \<Rightarrow> nat \<Rightarrow> nat \<Rightarrow> nat \<Rightarrow> user \<Rightarrow> user" where
  "render_row cur row dy bx u =
     (let b = cur ! (row * BLOCK_COLS + bx); byte1 = b ! (dy * 2); byte2 = b ! (dy * 2 + 1);
          base_x = int bx * 8 * 8; base_y = int row * 8 * 8 + int dy * 8;
          four = (\<lambda>byte first. fold (\<lambda>px. sys_fill (base_x + (int px + first) * 8) base_y
            (pixel_color (drop_bit (6 - px * 2) byte AND 3))) [0..<4])
      in four byte2 4 (four byte1 0 u))"

definition render :: "u8 list list \<Rightarrow> user \<Rightarrow> user" where
  "render cur = fold (\<lambda>row. fold (\<lambda>dy. fold (\<lambda>bx. render_row cur row dy bx) [0..<BLOCK_COLS]) [0..<8]) [0..<BLOCK_ROWS]"

text \<open>Every frame takes at least one byte of the data, so its length bounds the frames.\<close>

fun play :: "nat \<Rightarrow> u8 list \<Rightarrow> nat \<Rightarrow> u8 list list \<Rightarrow> user \<Rightarrow> user option" where
  "play 0 data idx prev u = (if idx < length data then None else Some u)"
| "play (Suc n) data idx prev u =
     (if idx < length data then do {
        (cur, idx) \<leftarrow> decode_frame data idx prev;
        play n data idx cur (render cur u)
      }
      else Some u)"

definition blank_frame :: "u8 list list" where
  "blank_frame = replicate BLOCK_COUNT (replicate 16 0)"

text \<open>The player ends with the system call that ends its process, which is not part of its own state.\<close>

definition bad_apple :: "u8 list \<Rightarrow> user \<Rightarrow> user option" where
  "bad_apple data u = play (length data) data 0 blank_frame (sys_clear u)"

end
