(* ===== verification/Command_Theorems.thy ===== *)
theory Command_Theorems
  imports Shell_Theorems Demos
begin

section \<open>Properties of the commands\<close>

text \<open>
  What the commands do to the view of a well-formed volume: each is a call of the file system between
  prompts and messages, and the lookups in directory buffers are lookups in the map of names. The
  kernel writes one byte of a status, and some commands have not set the variable: \<open>small_junk\<close> says that
  the other three bytes of the next such variable are 0, \<open>clean\<close> that this is so for all of them.
\<close>

declare One_nat_def [simp del]

subsection \<open>Directory buffers\<close>

lemma chain_next:
  assumes "chain_ok d off" "off < 512"
  shows "next_off d off \<le> 512" "sizeof_dirent + unat (de_name_len (get_directory_entry d off)) \<le> unat (rec_len (get_directory_entry d off))"
  using chain_ok_bound [OF chain_okD(2) [OF assms]] own_len_room [OF assms] chain_okD(1) [OF assms] by (simp_all add: sizeof_dirent_def)

lemma DIR_BUFFER [simp]: "DIR_BUFFER = 8192"
  by (simp add: DIR_BUFFER_def)

text \<open>The walk visits the entries of the chain and stops behind it, where the buffer was zero.\<close>

lemma walk_entries:
  assumes "chain_ok d off" "\<And>a. 512 \<le> a \<Longrightarrow> d a = 0"
  shows "map (\<lambda>off. (entry_name d off, entry_val d off)) (walk d off) = dir_entries d off"
  using assms
proof (induction d off rule: chain_ok.induct)
  case (1 d off)
  show ?case
  proof (cases "off < 512")
    case False
    with 1(2) have "off = 512" by (simp add: chain_ok.simps [of d off])
    then show ?thesis using 1(3)
      by (subst walk.simps) (simp add: dir_entries_end get_directory_entry_def get32_def get16_def of4_def of2_def)
  next
    case True
    note ok = chain_okD [OF 1(2) True]
    have "map (\<lambda>off. (entry_name d off, entry_val d off)) (walk d (next_off d off)) = dir_entries d (next_off d off)"
      by (rule 1(1) [OF True ok(3,2) 1(3)])
    then show ?thesis
      using True ok chain_next [OF 1(2) True]
      by (subst walk.simps) (auto simp: dir_entries_step Let_def next_off_def)
  qed
qed

lemma entry_bytes_name: "entry_bytes d off = entry_name d off"
  by (simp add: entry_bytes_def entry_name_def entry_text_def get_entry_name_def add.assoc)

lemma entry_matches:
  assumes "\<And>i. i < length w \<Longrightarrow> name i = w ! i"
  shows "unat (de_name_len (get_directory_entry d off)) = length w \<and> memcmp (entry_text d off) 0 name 0 (length w) = 0 \<longleftrightarrow> entry_name d off = w"
  using assms unfolding memcmp_eq_0_iff entry_bytes_name [symmetric] entry_bytes_def list_eq_iff_nth_eq by auto

lemma find_map_of: "map_of (map (\<lambda>x. (f x, g x)) xs) w = map_option g (List.find (\<lambda>x. f x = w) xs)"
  by (induction xs) auto

lemma find_child_bound:
  assumes "chain_ok d off" "map_of (dir_entries d off) w = Some (ino, EXT2_FT_DIR)" "\<And>i. i < length w \<Longrightarrow> name i = w ! i"
  shows "find_child d name (length w) off = ino"
  using assms
proof (induction d off rule: chain_ok.induct)
  case (1 d off)
  show ?case
  proof (cases "off < 512")
    case False
    then show ?thesis using 1(3) by (simp add: dir_entries_end)
  next
    case True
    note ok = chain_okD [OF 1(2) True]
    have hit: "unat (de_name_len (get_directory_entry d off)) = length w \<and> (\<forall>i<length w. entry_text d off i = name i) \<longleftrightarrow> entry_name d off = w"
      using entry_matches [OF 1(4), of d off] by (simp add: memcmp_eq_0_iff)
    have IH: "map_of (dir_entries d (next_off d off)) w = Some (ino, EXT2_FT_DIR) \<Longrightarrow> find_child d name (length w) (next_off d off) = ino"
      by (rule 1(1) [OF True ok(3,2) _ 1(4)])
    show ?thesis
      using True ok chain_next [OF 1(2) True] 1(3) IH hit
      by (subst find_child.simps) (auto simp: dir_entries_step Let_def next_off_def entry_val_def split: if_splits)
  qed
qed

subsection \<open>Directories of the volume\<close>

text \<open>The directory \<open>p\<close> of a well-formed volume, with its entry for itself.\<close>

definition folder :: "fs \<Rightarrow> u32 \<Rightarrow> bool" where
  "folder st p \<longleftrightarrow> unat p \<in> live st \<and> is_dir_mode (node_of st (unat p)) \<and> names st (unat p) [0x2E] = Some (p, EXT2_FT_DIR)"

definition clean :: "user \<Rightarrow> bool" where
  "clean u \<longleftrightarrow> (\<forall>k. junk u k 1 = 0 \<and> junk u k 2 = 0 \<and> junk u k 3 = 0)"

definition small_junk :: "user \<Rightarrow> bool" where
  "small_junk u \<longleftrightarrow> get32 (junk u (used u)) 0 < 256"

lemma status_0 [simp]: "status 0 code = ucast (of_int code :: u8)"
  by (simp add: status_def)

lemma status_high: "status r code AND NOT 0xFF = r AND NOT 0xFF"
  unfolding status_def low_byte_mask by (rule bit_word_eqI) (auto simp: bit_simps)

lemma small_mask: "(r :: u32) < 256 \<longleftrightarrow> r AND NOT 0xFF = 0"
proof -
  have "r < 256 \<longleftrightarrow> take_bit 8 r = r" 
    by (simp add: word_unat_eq_iff unsigned_take_bit_eq take_bit_nat_eq_self_iff word_less_nat_alt)
  also have "\<dots> \<longleftrightarrow> r AND NOT 0xFF = 0" unfolding low_byte_mask by (auto simp: bit_eq_iff bit_simps)
  finally show ?thesis .
qed

lemma status_small: "status r code < 256 \<longleftrightarrow> r < 256"
  unfolding small_mask status_high ..

text \<open>What the status variable holds after the call, by what it held before.\<close>

lemma status_of_small: "r < 256 \<Longrightarrow> status r code = ucast (of_int code :: u8)"
  by (simp add: status_def small_mask)

lemma status_zero: "status r 0 = 0 \<longleftrightarrow> r < 256"
  by (simp add: status_def small_mask)

lemma clean_small: "clean u \<Longrightarrow> small_junk u"
proof -
  assume "clean u"
  then have "get32 (junk u (used u)) 0 = ucast (junk u (used u) 0)"
    by (simp add: clean_def get32_def numeral_2_eq_2 [symmetric] One_nat_def) (simp add: of4_def)
  moreover have "unat (ucast (x :: u8) :: u32) < 256" for x using unat_u8_less [of x] by simp
  ultimately show ?thesis by (simp add: small_junk_def word_less_nat_alt)
qed

lemma clean_status:
  "clean u \<Longrightarrow> status (fst (unset_int u)) code = ucast (of_int code :: u8)"
  by (simp add: clean_def unset_int_def get32_def status_bytes numeral_2_eq_2 [symmetric] One_nat_def) (simp add: of4_def)

lemma dot_bytes: "bytes_of (lit ''.'') (unat (1 :: u8)) = [0x2E]"
  by (simp add: bytes_of_def lit_def One_nat_def)

lemma read_dot:
  assumes "volume_ok (fs_of u)" "folder (fs_of u) p" "512 \<le> n" "n < 2 ^ 32"
  shows "ok (sys_read_directory (dot_request data p n) ret u) (\<lambda>(out, r, u'). u' = u \<and> r = status ret 0 \<and> chain_ok out 0 \<and>
    dir_map out = names (fs_of u) (unat p) \<and> (\<forall>a\<ge>512. out a = data a))"
proof -
  have v: "view (fs_of u) (unat p) = Some (Folder (names (fs_of u) (unat p)))" "unat (parent_inode (dot_request data p n)) \<in> live (fs_of u)"
    using assms(2) by (simp_all add: folder_def view_live contents_names dot_request_def)
  have f: "parent_inode (dot_request data p n) = p" "buf (dot_request data p n) = data" "\<not> buffer_size (dot_request data p n) < 512"
    "bytes_of (req_name (dot_request data p n)) (unat (name_len (dot_request data p n))) = [0x2E]"
    using assms(3,4) dot_bytes by (simp_all add: dot_request_def word_less_nat_alt unat_of_nat_u32)
  from read_directory_view [OF assms(1) v(2)]
  have "ok (read_directory (fs_of u) (Some (dot_request data p n))) (\<lambda>(code, out). code = 0 \<and> dir_good out \<and>
      dir_map out = names (fs_of u) (unat p) \<and> (\<forall>a\<ge>512. out a = data a))"
    using v(1) f assms(2) by (simp add: folder_def)
  then show ?thesis by (auto simp: sys_read_directory_def ok_def dir_good_def)
qed

lemma unset_int_simps [simp]: "fs_of (snd (unset_int u)) = fs_of u" "sys (snd (unset_int u)) = sys u" "junk (snd (unset_int u)) = junk u"
  "fs_of (snd (unset_array u)) = fs_of u" "sys (snd (unset_array u)) = sys u" "junk (snd (unset_array u)) = junk u"
  by (simp_all add: unset_int_def unset_array_def fs_of_def)

lemma lookup_cases:
  assumes v: "volume_ok (fs_of u)" and p: "folder (fs_of u) p" and name: "cstr name 0 w"
  shows "get_inode_by_name p name u =
    Some (if small_junk u then case names (fs_of u) (unat p) w of None \<Rightarrow> 0 | Some (ino, ft) \<Rightarrow> ino else 0, snd (unset_int u))"
proof -
  obtain ret u1 where u1: "unset_int u = (ret, u1)" by (cases "unset_int u")
  then have same: "fs_of u1 = fs_of u" "ret = get32 (junk u (used u)) 0" "u1 = snd (unset_int u)"
    using unset_int_simps(1) [of u] by (simp_all add: unset_int_def)
  have big: "512 \<le> DIR_BUFFER" "DIR_BUFFER < 2 ^ 32" by simp_all
  from read_dot [OF v [folded same(1)] p [folded same(1)] big, of zeros ret] obtain out where
    rd: "sys_read_directory (dot_request zeros p DIR_BUFFER) ret u1 = Some (out, status ret 0, u1)" and
    out: "chain_ok out 0" "dir_map out = names (fs_of u) (unat p)" "\<And>a. 512 \<le> a \<Longrightarrow> out a = 0"
    by (auto simp: ok_def same(1) zeros_def)
  have st: "status ret 0 = 0 \<longleftrightarrow> small_junk u" by (simp add: status_zero same(2) small_junk_def)
  note walk = walk_entries [OF out(1,3)]
  have "dir_map out [0x2E] \<noteq> None" using out(2) p by (simp add: folder_def)
  then have nn: "walk out 0 \<noteq> []" using walk by (auto simp: dir_map_def)
  have "(unat (de_name_len (get_directory_entry out off)) = length w \<and> memcmp (entry_text out off) 0 name 0 (length w) = 0) = (entry_name out off = w)" for off
    using entry_matches [of w name out off] cstr_at [OF name] by simp
  then have find: "List.find (\<lambda>off. unat (de_name_len (get_directory_entry out off)) = length w \<and> memcmp (entry_text out off) 0 name 0 (length w) = 0) (walk out 0)
      = List.find (\<lambda>off. entry_name out off = w) (walk out 0)" by simp
  have "names (fs_of u) (unat p) w = map_option (entry_val out) (List.find (\<lambda>off. entry_name out off = w) (walk out 0))"
    using find_map_of [of "entry_name out" "entry_val out" "walk out 0" w] walk out(2) by (simp add: dir_map_def)
  then have "get_inode_by_name p name u =
      Some (if small_junk u then case names (fs_of u) (unat p) w of None \<Rightarrow> 0 | Some (ino, ft) \<Rightarrow> ino else 0, u1)"
    using u1 rd st nn strlen_cstr [OF name] find
    by (simp add: get_inode_by_name_def entry_val_def split: option.splits)
  then show ?thesis by (simp only: same(3))
qed

text \<open>C36: \<open>get_inode_by_name\<close>, on which \<open>cp\<close>, \<open>mv\<close> and \<open>rm\<close> rest, is the lookup in the names of the
  directory, whatever its entries are and in whatever order, with 0 for a name that is not bound, in
  the runs in which the status variable it has not set holds less than 256. In every other run the byte
  the kernel writes leaves it other than 0, and the answer is 0 for every name.\<close>

theorem name_lookup:
  assumes "volume_ok (fs_of u)" "folder (fs_of u) p" "cstr name 0 w"
  shows "\<exists>u'. get_inode_by_name p name u = Some
      (if get32 (junk u (used u)) 0 < 256 then case names (fs_of u) (unat p) w of None \<Rightarrow> 0 | Some (ino, ft) \<Rightarrow> ino else 0, u') \<and>
    sys u' = sys u"
  using lookup_cases [OF assms] by (simp add: small_junk_def)

lemma fs_sample [simp]: "fs_of sample_user = fresh_fs"
  by (simp add: fs_of_def sample_user_def sys_activate_keyboard_def)

lemma clean_sample [simp]: "clean sample_user"
  by (simp add: clean_def sample_user_def sys_activate_keyboard_def)

lemma fresh_folder: "folder fresh_fs 1"
  using fresh_names(1) fresh_root_live by (simp add: folder_def)

text \<open>The same program on a stack full of ones.\<close>

definition dirty_user :: user where
  "dirty_user = sample_user\<lparr>junk := \<lambda>_ _. 0xFF\<rparr>"

lemma dirty_user [simp]: "fs_of dirty_user = fresh_fs" "sys dirty_user = sys sample_user" "get32 (junk dirty_user k) 0 = 0xFFFFFFFF"
  by (simp_all add: dirty_user_def fs_of_def sample_user_def sys_activate_keyboard_def get32_def of4_def) code_simp

lemma name_lookup_witness:
  "(\<exists>u'. get_inode_by_name 1 (blit (\<lambda>_. 0) 0 [0x2E, 0x2E]) sample_user = Some (1, u') \<and> sys u' = sys sample_user) \<and>
   (\<exists>u'. get_inode_by_name 1 (blit (\<lambda>_. 0) 0 [0x2E, 0x2E]) dirty_user = Some (0, u') \<and> sys u' = sys dirty_user)"
proof
  have c: "cstr (blit (\<lambda>_. 0) 0 [0x2E, 0x2E]) 0 [0x2E, 0x2E]" by (rule cstr_blit) simp
  have small: "get32 (junk sample_user (used sample_user)) 0 < 256" using clean_small [OF clean_sample] by (simp add: small_junk_def)
  show "\<exists>u'. get_inode_by_name 1 (blit (\<lambda>_. 0) 0 [0x2E, 0x2E]) sample_user = Some (1, u') \<and> sys u' = sys sample_user"
    using name_lookup [where u = sample_user and p = 1, OF _ _ c] small by (simp add: fresh_volume fresh_folder fresh_names)
  show "\<exists>u'. get_inode_by_name 1 (blit (\<lambda>_. 0) 0 [0x2E, 0x2E]) dirty_user = Some (0, u') \<and> sys u' = sys dirty_user"
    using name_lookup [where u = dirty_user and p = 1, OF _ _ c] by (simp add: fresh_volume fresh_folder)
qed


subsection \<open>Calls that change the volume\<close>

lemma fs_simps [simp]: "fs_of (set_fs st u) = st" "con (sys (set_fs st u)) = con (sys u)" "junk (set_fs st u) = junk u"
  "current_mem (sys (set_fs st u)) = current_mem (sys u)" "null_buffer (set_fs st u) = null_buffer u"
  by (simp_all add: fs_of_def set_fs_def current_mem_def null_buffer_def)

lemma null_buffer_unset [simp]: "null_buffer (snd (unset_int u)) = null_buffer u"
  by (simp add: null_buffer_def)

lemma say_simps [simp]: "fs_of (say s c u) = fs_of u" "junk (say s c u) = junk u" "fs_of (sys_puts m k c u) = fs_of u" "junk (sys_puts m k c u) = junk u"
  "con (sys (sys_puts m k c u)) = puts (Some m) k c (con (sys u))"
  "con (sys (say s c u)) = puts (Some (lit s)) (of_nat (length s)) c (con (sys u))"
  "fs_of (sys_putchar ch c u) = fs_of u" "con (sys (sys_putchar ch c u)) = putchar ch c (con (sys u))"
  by (simp_all add: say_def sys_puts_def print_def fs_of_def sys_putchar_def)

lemma clean_simps [simp]: "clean (snd (unset_int u)) = clean u" "clean (snd (unset_array u)) = clean u" "clean (set_fs st u) = clean u"
  "clean (say s c u) = clean u"
  by (simp_all add: clean_def)

lemma status_not [simp]: "status r 0 \<noteq> 1" "status r 0 \<noteq> 2" "status r 0 \<noteq> 3"
proof -
  have "ucast (ucast k :: u32) = k" for k :: u8 by (rule bit_word_eqI) (auto simp: bit_simps dest: bit_imp_le_length)
  then have "k = 0" if "status r 0 = ucast k" for k :: u8 using status_byte [of r 0] that by (simp del: status_byte)
  from this [of 1] this [of 2] this [of 3] show "status r 0 \<noteq> 1" "status r 0 \<noteq> 2" "status r 0 \<noteq> 3" by auto
qed

lemma byte_minus_1 [simp]: "(ucast (- 1 :: u8) :: u32) = 0xFF"
  by code_simp

lemma named_fields [simp]:
  "buf (named_request b nm k p n dir) = b" "req_name (named_request b nm k p n dir) = nm" "name_len (named_request b nm k p n dir) = of_nat k"
  "parent_inode (named_request b nm k p n dir) = p" "buffer_size (named_request b nm k p n dir) = n" "is_directory (named_request b nm k p n dir) = dir"
  by (simp_all add: named_request_def)

lemma named_bytes: "cstr nm 0 w \<Longrightarrow> length w < 256 \<Longrightarrow> bytes_of nm (unat (of_nat (length w) :: u8)) = w"
  using cstr_at [of nm 0 w] by (intro nth_equalityI) (simp_all add: bytes_of_def unat_of_nat)

lemma can_write_buf: "can_write st (named_request b nm k p n dir) i = can_write st (named_request b' nm k p n dir) i"
  by (simp add: can_write_def blocks_needed_def Let_def)

text \<open>A successful \<open>write\<close> of a program.\<close>

lemma write_call:
  assumes "volume_ok (fs_of u)" "can_write (fs_of u) (named_request b nm (length w) p size_of dir) n" "cstr nm 0 w" "length w < 256"
  shows "\<exists>st. (\<forall>ret. sys_write (named_request b nm (length w) p size_of dir) ret u = Some (status ret 0, set_fs st u)) \<and>
    ext2_write (fs_of u) (Some (named_request b nm (length w) p size_of dir)) = Some (0, st) \<and> volume_ok st \<and> n \<notin> live (fs_of u) \<and>
    view st = (view (fs_of u))(n \<mapsto> new_contents (named_request b nm (length w) p size_of dir) (of_nat n), unat p \<mapsto>
      Folder ((names (fs_of u) (unat p))(w \<mapsto> (of_nat n, new_type (named_request b nm (length w) p size_of dir)))))"
  using write_adds [OF assms(1,2)] named_bytes [OF assms(3,4)] by (auto simp: ok_def sys_write_def)

text \<open>\<open>touch\<close> adds an empty file under the name and prints nothing, whatever the stack holds.\<close>

theorem touch_creates:
  assumes "volume_ok (fs_of u)" "current \<noteq> 2" "cstr name 0 w" "length w < 256"
    "can_write (fs_of u) (named_request (null_buffer u) name (length w) current 0 False) n"
  shows "ok (touch current [cmd, name] u) (\<lambda>u'. volume_ok (fs_of u') \<and> con (sys u') = con (sys u) \<and>
    view (fs_of u') = (view (fs_of u))(n \<mapsto> File [], unat current \<mapsto> Folder ((names (fs_of u) (unat current))(w \<mapsto> (of_nat n, EXT2_FT_REG_FILE)))))"
proof -
  obtain ret u1 where u1: "unset_int u = (ret, u1)" by (cases "unset_int u")
  then have same: "u1 = snd (unset_int u)" by simp
  then have fs: "fs_of u1 = fs_of u" "null_buffer u1 = null_buffer u" "con (sys u1) = con (sys u)" by simp_all
  from write_call [OF assms(1)[folded fs(1)] assms(5)[folded fs(1)] assms(3,4)] fs(1)
  show ?thesis
    using strlen_cstr [OF assms(3)] assms(2) fs
    by (auto simp: touch_def u1 new_contents_def new_type_def numeral_2_eq_2 One_nat_def)
qed

text \<open>\<open>mkdir\<close> makes a directory with its entries for itself and its parent, and says so.\<close>

theorem mkdir_creates:
  assumes "volume_ok (fs_of u)" "current \<noteq> 2" "cstr name 0 w" "length w < 256"
    "can_write (fs_of u) (named_request (null_buffer u) name (length w) current 0 True) n"
  shows "ok (mkdir current [cmd, name] u) (\<lambda>u'. volume_ok (fs_of u') \<and> con (sys u') = con (sys (say (''mkdir success'' @ nl @ nl) 0x7 u)) \<and>
    view (fs_of u') = (view (fs_of u))(n \<mapsto> Folder [[0x2E] \<mapsto> (of_nat n, EXT2_FT_DIR), [0x2E, 0x2E] \<mapsto> (current, EXT2_FT_DIR)],
      unat current \<mapsto> Folder ((names (fs_of u) (unat current))(w \<mapsto> (of_nat n, EXT2_FT_DIR)))))"
  using write_call [OF assms(1,5,3,4)] strlen_cstr [OF assms(3)] assms(2)
  by (auto simp: mkdir_def new_contents_def new_type_def numeral_2_eq_2 One_nat_def)

text \<open>But \<open>mkdir\<close> also reports success when the kernel refused with -1 or 2: the status byte -1 arrives
  as 255, which is compared with -1, and 2 is not looked at.\<close>

theorem mkdir_hides_failures:
  assumes "current \<noteq> 2" "cstr name 0 w" "code = -1 \<or> code = 2"
    "ext2_write (fs_of u) (Some (named_request (null_buffer u) name (length w) current 0 True)) = Some (code, st)"
  shows "mkdir current [cmd, name] u = Some (say (''mkdir success'' @ nl @ nl) 0x7 (set_fs st u))"
  using assms strlen_cstr [OF assms(2)]
  by (auto simp: mkdir_def sys_write_def numeral_2_eq_2 [symmetric])


lemma request_sample:
  "length nm < 256 \<Longrightarrow> length data \<le> 4096 \<Longrightarrow>
    can_write st (named_request b (name_mem nm) (length nm) 1 (of_nat (length data)) False) n = can_write st (sample_request nm data) n"
  by (simp add: can_write_def blocks_needed_def sample_request_def Let_def)

lemma cstr_name_mem: "0 \<notin> set nm \<Longrightarrow> cstr (name_mem nm) 0 nm"
  unfolding name_mem_def by (rule cstr_blit)

text \<open>An empty file or a directory can be made in the fresh volume.\<close>

lemma can_write_empty:
  assumes "nm \<notin> {[0x2E], [0x2E, 0x2E]}" "length nm < 256"
  shows "can_write fresh_fs (named_request b (name_mem nm) (length nm) 1 0 dir) 2"
proof -
  have "can_write fresh_fs (sample_request nm [0]) 2" by (rule can_write_fresh [OF assms]) simp_all
  moreover have "0 < card (room (inode_to_bgd 2) fresh_fs)" using fresh_room0 by simp
  ultimately show ?thesis by (simp add: can_write_def sample_request_def blocks_needed_def blocks_of_def Let_def)
qed

lemma touch_creates_witness:
  "ok (touch 1 [\<lambda>_. 0, name_mem [0x61]] sample_user) (\<lambda>u'. volume_ok (fs_of u') \<and> con (sys u') = con (sys sample_user) \<and>
    view (fs_of u') = (view fresh_fs)(2 \<mapsto> File [], 1 \<mapsto> Folder ((names fresh_fs 1)([0x61] \<mapsto> (2, EXT2_FT_REG_FILE)))))"
proof -
  have "cstr (name_mem [0x61]) 0 [0x61]" by (rule cstr_name_mem) simp
  then show ?thesis
    using touch_creates [of sample_user 1 "name_mem [0x61]" "[0x61]" 2 "\<lambda>_. 0"] fresh_volume can_write_empty [of "[0x61]"] by simp
qed

lemma mkdir_creates_witness:
  "ok (mkdir 1 [\<lambda>_. 0, name_mem [0x61]] sample_user) (\<lambda>u'. volume_ok (fs_of u') \<and>
    con (sys u') = con (sys (say (''mkdir success'' @ nl @ nl) 0x7 sample_user)) \<and>
    view (fs_of u') = (view fresh_fs)(2 \<mapsto> Folder [[0x2E] \<mapsto> (2, EXT2_FT_DIR), [0x2E, 0x2E] \<mapsto> (1, EXT2_FT_DIR)],
      1 \<mapsto> Folder ((names fresh_fs 1)([0x61] \<mapsto> (2, EXT2_FT_DIR)))))"
proof -
  have "cstr (name_mem [0x61]) 0 [0x61]" by (rule cstr_name_mem) simp
  then show ?thesis
    using mkdir_creates [of sample_user 1 "name_mem [0x61]" "[0x61]" 2 "\<lambda>_. 0"] fresh_volume can_write_empty [of "[0x61]"]
    by (simp del: say_simps)
qed

lemma mkdir_hides_failures_witness:
  "ext2_write fresh_fs (Some (named_request (null_buffer sample_user) (name_mem [0x61]) 1 0 0 True)) = Some (2, fresh_fs) \<and>
   mkdir 0 [\<lambda>_. 0, name_mem [0x61]] sample_user = Some (say (''mkdir success'' @ nl @ nl) 0x7 (set_fs fresh_fs sample_user))"
proof -
  have name: "cstr (name_mem [0x61]) 0 [0x61]" by (rule cstr_name_mem) simp
  have refused: "ext2_write fresh_fs (Some (named_request (null_buffer sample_user) (name_mem [0x61]) (length [0x61 :: u8]) 0 0 True)) = Some (2, fresh_fs)"
    by (simp add: ext2_write_def)
  from mkdir_hides_failures [OF _ name _ refused [folded fs_sample], of "\<lambda>_. 0"] refused show ?thesis
    by (simp add: One_nat_def del: say_simps)
qed

subsection \<open>Reading and copying\<close>

text \<open>A file that is bound to a name in a directory, and its bytes.\<close>

definition has_file :: "fs \<Rightarrow> u32 \<Rightarrow> u8 list \<Rightarrow> u32 \<Rightarrow> u8 list \<Rightarrow> bool" where
  "has_file st p w ino data \<longleftrightarrow> unat p \<in> live st \<and> is_dir_mode (node_of st (unat p)) \<and>
     names st (unat p) w = Some (ino, EXT2_FT_REG_FILE) \<and> view st (unat ino) = Some (File data)"

lemma read_file:
  assumes "volume_ok (fs_of u)" "has_file (fs_of u) p w ino data" "cstr nm 0 w" "length w < 256" "length data \<le> unat size_of"
  shows "ext2_read (fs_of u) (named_request b nm (length w) p size_of dir) = Some (0, blit b 0 data)"
proof -
  have "view (fs_of u) (unat p) = Some (Folder (names (fs_of u) (unat p)))"
    using assms(2) by (simp add: has_file_def view_live contents_names)
  then show ?thesis
    using read_view [OF assms(1), of "named_request b nm (length w) p size_of dir"] assms(2,5) named_bytes [OF assms(3,4)]
    by (simp add: has_file_def)
qed

lemma read_call:
  assumes "volume_ok (fs_of u)" "has_file (fs_of u) p w ino data" "cstr nm 0 w" "length w < 256" "length data \<le> unat size_of"
  shows "sys_read (named_request b nm (length w) p size_of dir) ret u = Some (blit b 0 data, status ret 0, u)"
  using read_file [OF assms] by (simp add: sys_read_def)

text \<open>\<open>copy_file\<close>, and with it \<open>cp\<close> and \<open>mv\<close>, writes its whole buffer.\<close>

lemma copy_call:
  assumes v: "volume_ok (fs_of u)" and src: "has_file (fs_of u) p ws ino data" "cstr src 0 ws" "length ws < 256" "length data \<le> 8192" and c: "clean u"
    and dst: "cstr dst 0 wd" "length wd < 256" "can_write (fs_of u) (named_request zeros dst (length wd) q 8192 False) n"
  shows "ok (copy_file p src q dst u) (\<lambda>(r, u'). r = 0 \<and> volume_ok (fs_of u') \<and> con (sys u') = con (sys u) \<and> junk u' = junk u \<and> n \<notin> live (fs_of u) \<and>
    (\<exists>rest. length data + length rest = 8192 \<and> view (fs_of u') = (view (fs_of u))(n \<mapsto> File (data @ rest), unat q \<mapsto>
      Folder ((names (fs_of u) (unat q))(wd \<mapsto> (of_nat n, EXT2_FT_REG_FILE))))))"
proof -
  obtain b u1 where u1: "unset_array u = (b, u1)" by (cases "unset_array u")
  obtain ret u2 where u2: "unset_int u1 = (ret, u2)" by (cases "unset_int u1")
  obtain ret' u3 where u3: "unset_int u2 = (ret', u3)" by (cases "unset_int u2")
  have fs: "fs_of u2 = fs_of u" "fs_of u3 = fs_of u" "con (sys u3) = con (sys u)" "junk u1 = junk u" "junk u2 = junk u" "junk u3 = junk u"
    using unset_int_simps [of u1] unset_int_simps [of u2] unset_int_simps [of u] u1 u2 u3 by simp_all
  have st: "status ret 0 = 0" "status ret' 0 = 0"
    using clean_status [of u1 0] clean_status [of u2 0] c fs u2 u3 by (simp_all add: clean_def)
  let ?b = "blit b 0 data"
  have rd: "sys_read (named_request b src (length ws) p 8192 False) ret u2 = Some (?b, 0, u2)"
    using read_call [of u2 p ws ino data src 8192 b False ret] v src fs(1) st(1) by simp
  have "can_write (fs_of u3) (named_request ?b dst (length wd) q 8192 False) n" 
    using dst(3) can_write_buf [of "fs_of u" zeros dst "length wd" q 8192 False n ?b] fs(2) by simp
  from write_call [OF v[folded fs(2)] this dst(1,2)] obtain st where
    wr: "sys_write (named_request ?b dst (length wd) q 8192 False) ret' u3 = Some (0, set_fs st u3)" "volume_ok st" "n \<notin> live (fs_of u)"
    "view st = (view (fs_of u))(n \<mapsto> File (map ?b [0..<8192]), unat q \<mapsto> Folder ((names (fs_of u) (unat q))(wd \<mapsto> (of_nat n, EXT2_FT_REG_FILE))))"
    using st(2) fs(2) by (auto simp: new_contents_def new_type_def)
  have "map ?b [0..<8192] = data @ map ?b [length data..<8192]"
    using src(4) by (intro nth_equalityI) (auto simp: blit_def nth_append)
  then have "\<exists>rest. length data + length rest = 8192 \<and> map ?b [0..<8192] = data @ rest" using src(4) by (intro exI conjI) simp_all
  then show ?thesis
    using u1 u2 u3 rd wr fs strlen_cstr [OF src(2)] strlen_cstr [OF dst(1)] by (auto simp: copy_file_def)
qed

text \<open>C37: A file that is copied has 8192 bytes afterwards: its own bytes and then whatever the array on the
  stack of the program held, although the source may be much shorter.\<close>

theorem copy_is_padded:
  assumes "volume_ok (fs_of u)" "has_file (fs_of u) p ws ino data" "cstr src 0 ws" "length ws < 256" "length data \<le> 8192" "clean u"
    "cstr dst 0 wd" "length wd < 256" "can_write (fs_of u) (named_request zeros dst (length wd) q 8192 False) n"
  shows "ok (copy_file p src q dst u) (\<lambda>(r, u'). r = 0 \<and> volume_ok (fs_of u') \<and>
    (\<exists>rest. length data + length rest = 8192 \<and> view (fs_of u') = (view (fs_of u))(n \<mapsto> File (data @ rest), unat q \<mapsto>
      Folder ((names (fs_of u) (unat q))(wd \<mapsto> (of_nat n, EXT2_FT_REG_FILE))))))"
  by (rule ok_pair_mono [OF copy_call [OF assms]]) (elim conjE, intro conjI)


text \<open>The volume with the file \<open>a\<close> of three bytes.\<close>

definition file_user :: user where
  "file_user = set_fs written_fs sample_user"

lemma file_user [simp]: "fs_of file_user = written_fs" "clean file_user"
  by (simp_all add: file_user_def)

lemma written_view:
  "view written_fs = (view fresh_fs)(2 \<mapsto> File [1, 2, 3], 1 \<mapsto> Folder ((names fresh_fs 1)([0x61] \<mapsto> (2, EXT2_FT_REG_FILE))))"
  "names written_fs 1 = (names fresh_fs 1)([0x61] \<mapsto> (2, EXT2_FT_REG_FILE))" "1 \<in> live written_fs" "is_dir_mode (node_of written_fs 1)"
proof -
  from write_adds [OF fresh_volume can_write_sample] written(1)
  show v: "view written_fs = (view fresh_fs)(2 \<mapsto> File [1, 2, 3], 1 \<mapsto> Folder ((names fresh_fs 1)([0x61] \<mapsto> (2, EXT2_FT_REG_FILE))))"
    by (simp add: sample_fields new_contents_def new_type_def del: split_paired_Ex)
      (simp add: sample_request_def blit_def)
  from written(3,4) show p: "1 \<in> live written_fs" "is_dir_mode (node_of written_fs 1)" by (simp_all add: sample_fields)
  have "view written_fs 1 = Some (Folder (names written_fs 1))" using p by (simp add: view_live contents_names)
  then show "names written_fs 1 = (names fresh_fs 1)([0x61] \<mapsto> (2, EXT2_FT_REG_FILE))" using v by simp
qed

lemma written_file: "has_file written_fs 1 [0x61] 2 [1, 2, 3]"
  using written_view by (simp add: has_file_def)


text \<open>There is room for a second file beside the first.\<close>

lemma second_slot:
  assumes "bytes_of nm (unat len) \<notin> {[0x2E], [0x2E, 0x2E], [0x61]}"
  shows "scan_slot (insert_entry (new_dir_block (\<lambda>_. 0) 1 1) 12 2 EXT2_FT_REG_FILE (name_mem [0x61]) 1) nm len (get_entry_record_len len) 0 = Hole 24"
proof -
  let ?b = "new_dir_block (\<lambda>_. 0) 1 1" let ?d = "insert_entry ?b 12 2 EXT2_FT_REG_FILE (name_mem [0x61]) 1"
  have two: "[0..<2] = [0, 1 :: nat]" by (simp add: numeral_2_eq_2 One_nat_def)
  have len2: "get_entry_record_len 2 = 12" by (simp add: word_unat_eq_iff unat_get_entry_record_len)
  have chain: "chain_ok ?b 12"
    using chain_okD(2) [of ?b 0] new_dir_good(2) [of 1 1 "\<lambda>_. 0"] by (simp add: dir_good_def next_off_def new_dir_entry)
  have own: "own_len ?b 12 = 12" by (simp add: own_len_def new_dir_entry len2)
  have name12: "entry_name ?b 12 = [0x2E, 0x2E]" by (simp add: entry_name_def new_dir_entry two One_nat_def)
  have name_a: "bytes_of (name_mem [0x61]) (unat (1 :: u8)) = [0x61]" using bytes_name_mem [of "[0x61]"] by (simp add: One_nat_def)
  have e0: "get_directory_entry ?d 0 = get_directory_entry ?b 0" "entry_name ?d 0 = [0x2E]"
  proof -
    show e: "get_directory_entry ?d 0 = get_directory_entry ?b 0"
      by (rule get_directory_entry_cong) (simp add: insert_entry_apply own)
    show "entry_name ?d 0 = [0x2E]"
      by (simp add: entry_name_def e new_dir_entry insert_entry_apply own One_nat_def) 
  qed
  note old = inserted_old [OF chain, of 2 EXT2_FT_REG_FILE "name_mem [0x61]" 1, simplified, unfolded name12]
  note new = inserted_new [of ?b 12 2 EXT2_FT_REG_FILE "name_mem [0x61]" 1, unfolded own name_a, simplified]
  have need: "get_entry_record_len len \<le> 476"
    using unat_u8_less [of len] by (simp add: word_le_nat_alt unat_get_entry_record_len)
  have no: "\<not> entry_is ?d 0 nm len" "\<not> entry_is ?d 12 nm len" "\<not> entry_is ?d 24 nm len"
    using assms e0(2) old(2) new(2) by (auto simp: entry_is_iff)
  have "scan_slot ?d nm len (get_entry_record_len len) 24 = Hole 24"
    using no(3) need by (subst scan_slot.simps) (simp add: new(1) new_dir_entry record_len_1 len2)
  then have "scan_slot ?d nm len (get_entry_record_len len) 12 = Hole 24"
    using no(2) by (subst scan_slot.simps) (simp add: old(1) new_dir_entry len2)
  then show ?thesis
    using no(1) by (subst scan_slot.simps) (simp add: e0(1) new_dir_entry record_len_1)
qed


lemma written_added:
  "\<exists>S. added fresh_fs written_fs 2 S 21 (insert_entry (new_dir_block (\<lambda>_. 0) 1 1) 12 2 EXT2_FT_REG_FILE (name_mem [0x61]) 1) (File [1, 2, 3])"
proof -
  let ?r = "sample_request [0x61] [1, 2, 3]"
  have slot: "find_slot fresh_fs (node_of fresh_fs (unat (parent_inode ?r))) (req_name ?r) (name_len ?r) (get_entry_record_len (name_len ?r)) 0 1 =
      Some (21, new_dir_block (\<lambda>_. 0) 1 1, Hole 12)"
  proof -
    have f: "unat (parent_inode ?r) = 1" "req_name ?r = name_mem [0x61]" "name_len ?r = 1" by (simp_all add: sample_request_def)
    have "bytes_of (name_mem [0x61]) (unat (1 :: u8)) = [0x61]" using bytes_name_mem [of "[0x61]"] by (simp add: One_nat_def)
    then have "bytes_of (name_mem [0x61]) (unat (1 :: u8)) \<notin> {[0x2E], [0x2E, 0x2E]}" by simp
    from fresh_slot [OF this] show ?thesis by (simp only: f fresh_root1)
  qed
  from write_run [OF fresh_volume can_write_sample slot] written(1) show ?thesis
    by (simp add: new_type_def new_contents_def sample_fields) (simp add: sample_request_def blit_def One_nat_def)
qed

lemma written_used: "inode_used written_fs m \<longleftrightarrow> m = 1 \<or> m = 2" if "0 < m" "m \<le> 896"
proof -
  have "m \<in> live written_fs \<longleftrightarrow> view written_fs m \<noteq> None" by (simp add: view_def)
  also have "\<dots> \<longleftrightarrow> m = 1 \<or> m = 2" using written_view(1) fresh_live by (auto simp: view_def)
  finally show ?thesis using that by (simp add: live_def)
qed

lemma written_slot:
  assumes "bytes_of nm (unat len) \<notin> {[0x2E], [0x2E, 0x2E], [0x61]}"
  shows "\<exists>dbuf. find_slot written_fs (node_of written_fs 1) nm len (get_entry_record_len len) 0 1 = Some (21, dbuf, Hole 24)"
proof -
  obtain S where a: "added fresh_fs written_fs 2 S 21 (insert_entry (new_dir_block (\<lambda>_. 0) 1 1) 12 2 EXT2_FT_REG_FILE (name_mem [0x61]) 1) (File [1, 2, 3])"
    using written_added by blast
  let ?d = "insert_entry (new_dir_block (\<lambda>_. 0) 1 1) 12 2 EXT2_FT_REG_FILE (name_mem [0x61]) 1"
  have lv: "leaves fresh_fs written_fs {2} (insert 21 S)" using a by (simp add: added_def)
  then have un: "uninit written_fs = (\<lambda>_. 0)" using leaves_ok(2) fresh_caches(3) by fastforce
  have node: "node_of written_fs 1 = root_inode" using lv fresh_root1 by (simp add: leaves_def)
  have own: "own_len (new_dir_block (\<lambda>_. 0) 1 1) 12 = 12"
    by (simp add: own_len_def new_dir_entry word_unat_eq_iff unat_get_entry_record_len)
  have "overlay (fs_disk written_fs 21) (uninit written_fs) = ?d"
  proof (rule ext)
    fix x
    show "overlay (fs_disk written_fs 21) (uninit written_fs) x = ?d x"
      using a un by (cases "x < 512") (simp_all add: added_def insert_entry_apply own new_dir_block_end)
  qed
  then have "find_slot written_fs root_inode nm len (get_entry_record_len len) 0 1 = Some (21, ?d, Hole 24)"
    using second_slot [OF assms] by (simp add: root_inode_def read_block_eq One_nat_def)
  then show ?thesis by (simp only: node) blast
qed

lemma written_room: "90 \<le> card (room (inode_to_bgd 3) written_fs)"
proof -
  obtain S d where a: "added fresh_fs written_fs 2 S 21 d (File [1, 2, 3])" using written_added by blast
  then have S: "unat ` set (used_ids written_fs (node_of written_fs 2)) = S" "\<forall>b<2048. block_used written_fs b \<longleftrightarrow> block_used fresh_fs b \<or> b \<in> S"
    "unat (i_blocks (node_of written_fs 2)) \<le> 140"
    by (simp_all add: added_def node_good_def)
  have "length (used_ids written_fs (node_of written_fs 2)) \<le> length (file_ids written_fs (node_of written_fs 2))"
    by (simp add: used_ids_def)
  also have "\<dots> \<le> 141" using S(3) by (simp add: file_ids_def pointers_def Let_def)
  finally have "card S \<le> 141" using S(1) card_length [of "used_ids written_fs (node_of written_fs 2)"] card_image_le [of "set (used_ids written_fs (node_of written_fs 2))" unat]
    by simp
  moreover have "{22..<256} - S \<subseteq> room (inode_to_bgd 3) written_fs"
    using S(2) fresh_used(1) by (auto simp: room_def unat_inode_to_bgd)
  then have "card ({22..<256} - S) \<le> card (room (inode_to_bgd 3) written_fs)" by (intro card_mono) (simp_all add: room_def)
  moreover have "card {22..<256 :: nat} - card S \<le> card ({22..<256} - S)"
    by (intro diff_card_le_card_Diff) (simp add: S(1) [symmetric])
  ultimately show ?thesis by simp
qed

lemma can_write_second:
  assumes "w \<notin> {[0x2E], [0x2E, 0x2E], [0x61]}" "length w < 256" "blocks_of n \<le> 80"
  shows "can_write written_fs (named_request b (name_mem w) (length w) 1 n False) 3"
proof -
  have find: "List.find (\<lambda>n. \<not> inode_used written_fs n) [1..<897] = Some 3"
    by (rule find_upt_eq) (auto simp: written_used)
  have bytes: "bytes_of (name_mem w) (unat (of_nat (length w) :: u8)) = w" using bytes_name_mem [OF assms(2)] .
  have need: "blocks_needed (named_request b (name_mem w) (length w) 1 n False) \<le> 81" using assms(3) by (simp add: blocks_needed_def)
  obtain dbuf where "find_slot written_fs (node_of written_fs 1) (name_mem w) (of_nat (length w)) (get_entry_record_len (of_nat (length w))) 0 1 =
      Some (21, dbuf, Hole 24)"
    using written_slot [of "name_mem w" "of_nat (length w)"] bytes assms(1) by auto
  then show ?thesis
    using assms find written_room need written_view(2-4)
    by (simp add: can_write_def bytes fresh_names)
qed

lemma copy_is_padded_witness:
  "ok (copy_file 1 (name_mem [0x61]) 1 (name_mem [0x62]) file_user) (\<lambda>(r, u'). r = 0 \<and> volume_ok (fs_of u') \<and>
    (\<exists>rest. 3 + length rest = 8192 \<and> view (fs_of u') = (view written_fs)(3 \<mapsto> File ([1, 2, 3] @ rest), 1 \<mapsto>
      Folder ((names written_fs 1)([0x62] \<mapsto> (3, EXT2_FT_REG_FILE))))))"
proof -
  have c: "cstr (name_mem [0x61]) 0 [0x61]" "cstr (name_mem [0x62]) 0 [0x62]" by (rule cstr_name_mem, simp)+
  have w: "can_write written_fs (named_request zeros (name_mem [0x62]) (length [0x62 :: u8]) 1 8192 False) 3"
    by (rule can_write_second) (simp_all add: blocks_of_def)
  have d: "length [1, 2, 3 :: u8] \<le> 8192" "length [0x61 :: u8] < 256" "length [0x62 :: u8] < 256" by simp_all
  note copy = copy_is_padded [where u = file_user and p = 1 and ws = "[0x61]" and ino = 2 and data = "[1, 2, 3]" and q = 1 and wd = "[0x62]" and n = 3,
      unfolded file_user(1)]
  from copy [OF written(2) written_file c(1) d(2,1) file_user(2) c(2) d(3) w]
  have "ok (copy_file 1 (name_mem [0x61]) 1 (name_mem [0x62]) file_user) (\<lambda>(r, u'). r = 0 \<and> volume_ok (fs_of u') \<and>
    (\<exists>rest. length [1, 2, 3 :: u8] + length rest = 8192 \<and> view (fs_of u') = (view written_fs)(3 \<mapsto> File ([1, 2, 3] @ rest), unat (1 :: u32) \<mapsto>
      Folder ((names written_fs (unat (1 :: u32)))([0x62] \<mapsto> (of_nat 3, EXT2_FT_REG_FILE))))))" .
  moreover have "length [1, 2, 3 :: u8] = 3" by simp
  moreover have "unat (1 :: u32) = 1" "(of_nat 3 :: u32) = 3" by simp_all
  ultimately show ?thesis by (simp only:)
qed


subsection \<open>The fuel\<close>

text \<open>More fuel gives the same result: where a search, a removal or a copy returns, it returns the same
  for every larger bound on the depth.\<close>

definition extends :: "'a option \<Rightarrow> 'a option \<Rightarrow> bool" where
  "extends a b \<longleftrightarrow> (\<forall>x. a = Some x \<longrightarrow> b = Some x)"

lemma extends_refl: "extends a a"
  by (simp add: extends_def)

lemma extends_bind: "extends a b \<Longrightarrow> (\<And>x. extends (f x) (g x)) \<Longrightarrow> extends (a \<bind> f) (b \<bind> g)"
  by (auto simp: extends_def bind_eq_Some_conv)

lemma extends_if: "extends a b \<Longrightarrow> extends c d \<Longrightarrow> extends (if P then a else c) (if P then b else d)"
  by simp

lemma extends_prod: "(\<And>a b. extends (f a b) (g a b)) \<Longrightarrow> extends (case p of (a, b) \<Rightarrow> f a b) (case p of (a, b) \<Rightarrow> g a b)"
  by (cases p) simp

lemma extends_option: "extends a b \<Longrightarrow> (\<And>x. extends (f x) (g x)) \<Longrightarrow> extends (case y of None \<Rightarrow> a | Some x \<Rightarrow> f x) (case y of None \<Rightarrow> b | Some x \<Rightarrow> g x)"
  by (cases y) simp_all

lemma extends_map: "extends a b \<Longrightarrow> extends (map_option f a) (map_option f b)"
  by (auto simp: extends_def)

lemma extends_iterate: "(\<And>x s. extends (f x s) (g x s)) \<Longrightarrow> extends (iterate f xs s) (iterate g xs s)"
  by (induction xs arbitrary: s) (simp_all add: extends_refl extends_bind)

lemmas extends_intros = extends_bind extends_if extends_prod extends_option extends_map extends_iterate

lemma find_fuel: "n \<le> m \<Longrightarrow> extends (find_recursive n t p path u) (find_recursive m t p path u)"
proof (induction n arbitrary: m p path u)
  case (Suc n)
  then obtain k where k: "m = Suc k" "n \<le> k" by (cases m) auto
  show ?case
    unfolding k(1) find_recursive.simps(2) [of n] find_recursive.simps(2) [of k] find_entry_step_def Let_def
    by (intro extends_intros extends_refl Suc.IH k(2))
qed (simp add: extends_def)

lemma remove_fuel: "n \<le> m \<Longrightarrow> extends (remove_recursive n p name u) (remove_recursive m p name u)"
proof (induction n arbitrary: m p name u)
  case (Suc n)
  then obtain k where k: "m = Suc k" "n \<le> k" by (cases m) auto
  show ?case
    unfolding k(1) remove_recursive.simps(2) [of n] remove_recursive.simps(2) [of k] Let_def
    by (intro extends_intros extends_refl Suc.IH k(2))
qed (simp add: extends_def)

lemma copy_fuel: "n \<le> m \<Longrightarrow> extends (copy_dir_recursive n p name q name' u) (copy_dir_recursive m p name q name' u)"
proof (induction n arbitrary: m p name q name' u)
  case (Suc n)
  then obtain k where k: "m = Suc k" "n \<le> k" by (cases m) auto
  show ?case
    unfolding k(1) copy_dir_recursive.simps(2) [of n] copy_dir_recursive.simps(2) [of k] copy_entry_def Let_def
    by (intro extends_intros extends_refl Suc.IH k(2))
qed (simp add: extends_def)

text \<open>So a command that returns has one result, whatever the fuel.\<close>

lemma command_fuel:
  assumes "n \<le> m"
  shows "extends (rm n current argv u) (rm m current argv u)" "extends (cp n current argv u) (cp m current argv u)"
    "extends (mv n current argv u) (mv m current argv u)" "extends (find_command n argv u) (find_command m argv u)"
  unfolding rm_def cp_def mv_def find_command_def Let_def
  by (intro extends_intros extends_refl remove_fuel copy_fuel find_fuel assms)+

end
