(* ===== verification/Session_Theorems.thy ===== *)
theory Session_Theorems
  imports Command_Theorems
begin

section \<open>From the key to the disk\<close>

text \<open>
  The layers together: removing a file takes its name, its inode and its blocks away, what one program wrote
  another one shows, and a command typed at the prompt goes through the keyboard, the line
  editor, the cutting of the line, the dispatch and the file system to the view of the volume.
\<close>

declare One_nat_def [simp del]

subsection \<open>Removing a file\<close>

text \<open>A successful \<open>delete\<close> of a program.\<close>

lemma delete_call:
  assumes "volume_ok (fs_of u)" "has_file (fs_of u) p w ino data" "cstr nm 0 w" "length w < 256"
  shows "\<exists>st. (\<forall>ret. sys_delete (named_request b nm (length w) p size_of False) ret u = Some (status ret 0, set_fs st u)) \<and> volume_ok st \<and>
    view st = (view (fs_of u))(unat ino := None, unat p \<mapsto> Folder ((names (fs_of u) (unat p))(w := None)))"
proof -
  have "ok (ext2_delete (fs_of u) (named_request b nm (length w) p size_of False)) (\<lambda>(code, st). code = 0 \<and>
      (\<exists>blk d. removed (fs_of u) st (unat ino) blk d) \<and> volume_ok st \<and>
      view st = (view (fs_of u))(unat ino := None, unat p \<mapsto> Folder ((names (fs_of u) (unat p))(w := None))))"
    using delete_removes [OF assms(1), of "named_request b nm (length w) p size_of False" ino] assms(2) named_bytes [OF assms(3,4)]
    by (simp add: has_file_def)
  then show ?thesis by (auto simp: ok_def sys_delete_def)
qed

lemma view_folder:
  assumes "view st n = Some (Folder d)"
  shows "n \<in> live st" "is_dir_mode (node_of st n)" "names st n = d"
proof -
  show n: "n \<in> live st" by (rule view_someD [OF assms])
  with assms show "is_dir_mode (node_of st n)" "names st n = d" by (simp_all add: view_live contents_names split: if_splits)
qed

text \<open>A second \<open>delete\<close>, of the name that is gone, is refused.\<close>

lemma delete_gone:
  assumes "volume_ok (fs_of u)" "view (fs_of u) (unat p) = Some (Folder d)" "d w = None" "cstr nm 0 w" "length w < 256"
  shows "sys_delete (named_request b nm (length w) p size_of dir) ret u = Some (status ret 1, u)"
proof -
  have "set_fs (fs_of u) u = u" by (simp add: set_fs_def fs_of_def)
  then show ?thesis
    using delete_refused(2) [OF assms(1), of "named_request b nm (length w) p size_of dir"] view_folder [OF assms(2)] assms(3) named_bytes [OF assms(4,5)]
    by (simp add: sys_delete_def)
qed

text \<open>C11: \<open>rm\<close> of a file takes it and its name away. It says so in the runs in which the status variable,
  which it has not set, holds less than 256; in every other run the kernel's byte leaves the variable other than
  0, a second delete of the name, now as a directory, is refused without a change, and nothing is printed.\<close>

theorem rm_removes:
  assumes "volume_ok (fs_of u)" "has_file (fs_of u) current w ino data" "cstr target 0 w" "length w < 256" "w \<noteq> [0x2D, 0x72]"
    "current \<noteq> 2"
  shows "ok (rm fuel current [cmd, target] u) (\<lambda>u'. volume_ok (fs_of u') \<and>
    view (fs_of u') = (view (fs_of u))(unat ino := None, unat current \<mapsto> Folder ((names (fs_of u) (unat current))(w := None))) \<and>
    con (sys u') = con (sys (if get32 (junk u (used u)) 0 < 256
      then say (nl @ nl) 0xF (sys_puts target (of_nat (length w)) 0xF (say ''Removed: '' 0x7 u)) else u)))"
proof -
  obtain ret u1 where u1: "unset_int u = (ret, u1)" by (cases "unset_int u")
  then have "u1 = snd (unset_int u)" by simp
  then have fs: "fs_of u1 = fs_of u" "con (sys u1) = con (sys u)" "ret = get32 (junk u (used u)) 0"
    using u1 by (simp_all add: unset_int_def fs_of_def)
  from delete_call [of u1, unfolded fs(1), OF assms(1-4)] obtain st where
    del: "\<And>ret. sys_delete (named_request (null_buffer u1) target (length w) current 0 False) ret u1 = Some (status ret 0, set_fs st u1)"
      "volume_ok st" "view st = (view (fs_of u))(unat ino := None, unat current \<mapsto> Folder ((names (fs_of u) (unat current))(w := None)))"
    by blast
  have flag: "is_word ''-r'' target = Some False"
    using is_word_cstr [OF assms(3), of "''-r''"] assms(5) by simp
  have gone: "sys_delete (named_request (null_buffer u1) target (length w) current 0 True) r (set_fs st u1) = Some (status r 1, set_fs st u1)" for r
    by (rule delete_gone [where d = "(names (fs_of u) (unat current))(w := None)", OF _ _ _ assms(3,4)]) (use del(2,3) in simp_all)
  let ?r = "status (status ret 0) 1"
  have silent: "?r \<noteq> 2" "?r \<noteq> 1" "?r \<noteq> 0" "?r \<noteq> - 1" if "\<not> ret < 256"
  proof -
    have "\<not> ?r < 256" unfolding status_small by (rule that)
    then show "?r \<noteq> 2" "?r \<noteq> 1" "?r \<noteq> 0" by auto
    show "?r \<noteq> - 1"
    proof
      assume "?r = - 1"
      then have "(ucast ?r :: u8) = ucast (- 1 :: u32)" by (rule arg_cong)
      moreover have "(ucast (- 1 :: u32) :: u8) \<noteq> of_int 1" by code_simp
      ultimately show False by (simp only: status_byte)
    qed
  qed
  show ?thesis
  proof (cases "ret < 256")
    case True
    then show ?thesis
      using assms(6) flag strlen_cstr [OF assms(3)] u1 del fs(2,3)
      by (simp add: rm_def rm_one_def say_str_def status_zero numeral_2_eq_2 One_nat_def)
  next
    case False
    then show ?thesis
      using assms(6) flag strlen_cstr [OF assms(3)] u1 del fs(2,3) gone silent [OF False]
      by (simp add: rm_def rm_one_def status_zero numeral_2_eq_2 One_nat_def)
  qed
qed

lemma rm_removes_witness:
  "ok (rm 0 1 [\<lambda>_. 0, name_mem [0x61]] file_user) (\<lambda>u'. volume_ok (fs_of u') \<and>
    view (fs_of u') = (view written_fs)(2 := None, 1 \<mapsto> Folder ((names written_fs 1)([0x61] := None))) \<and>
    con (sys u') = con (sys (say (nl @ nl) 0xF (sys_puts (name_mem [0x61]) 1 0xF (say ''Removed: '' 0x7 file_user)))))"
proof -
  have c: "cstr (name_mem [0x61]) 0 [0x61]" by (rule cstr_name_mem) simp
  have "volume_ok (fs_of file_user)" "has_file (fs_of file_user) 1 [0x61] 2 [1, 2, 3]" using written(2) written_file by simp_all
  moreover have "get32 (junk file_user (used file_user)) 0 < 256"
    using clean_small [OF file_user(2)] by (simp add: small_junk_def)
  ultimately show ?thesis using rm_removes [OF _ _ c, of file_user 1 2 "[1, 2, 3]" 0 "\<lambda>_. 0"] by (simp add: One_nat_def del: say_simps)
qed

subsection \<open>A typed command\<close>

text \<open>Prompt and line editor touch the console only.\<close>

definition console_only :: "user \<Rightarrow> user \<Rightarrow> bool" where
  "console_only u u' \<longleftrightarrow> (\<exists>c. u' = u\<lparr>sys := (sys u)\<lparr>con := c\<rparr>\<rparr>)"

lemma console_only_refl [simp]: "console_only u u"
  unfolding console_only_def by (intro exI [of _ "con (sys u)"]) simp

lemma console_only_trans: "console_only u u' \<Longrightarrow> console_only u' u'' \<Longrightarrow> console_only u u''"
  by (auto simp: console_only_def)

lemma console_only_kernel:
  assumes "console_only u u'"
  shows "fs_of u' = fs_of u" "junk u' = junk u" "current_mem (sys u') = current_mem (sys u)" "null_buffer u' = null_buffer u"
  using assms by (auto simp: console_only_def fs_of_def current_mem_def null_buffer_def)

lemma console_only_calls:
  "console_only u (sys_putchar c x u)" "console_only u (sys_puts m n x u)" "console_only u (say t x u)" "console_only u (press codes u)"
  "sys_getchar u = (c, u') \<Longrightarrow> console_only u u'"
  by (auto simp: console_only_def sys_putchar_def sys_puts_def say_def print_def press_def sys_getchar_def case_prod_beta Let_def)

lemma edit_key_only: "edit_key c (cmd, idx, u) = Some (cmd', idx', u') \<Longrightarrow> console_only u u'"
  using console_only_calls(1) by (auto simp: edit_key_def split: if_splits)

lemma read_line_only: "read_line polls (cmd, idx, u) = Some (rest, cmd', idx', u') \<Longrightarrow> console_only u u'"
proof (induction polls arbitrary: cmd idx u)
  case (Cons codes polls)
  obtain c u1 where get: "sys_getchar (press codes u) = (c, u1)" by (cases "sys_getchar (press codes u)")
  then have u1: "console_only u u1" using console_only_trans [OF console_only_calls(4) console_only_calls(5)] by blast
  from Cons.prems get obtain cmd2 idx2 u2 where e: "edit_key c (cmd, idx, u1) = Some (cmd2, idx2, u2)"
    and rest: "(if c = 0x0A then Some (polls, cmd2, idx2, u2) else read_line polls (cmd2, idx2, u2)) = Some (rest, cmd', idx', u')"
    by (auto split: Option.bind_splits)
  have "console_only u u2" by (rule console_only_trans [OF u1 edit_key_only [OF e]])
  then show ?case using rest Cons.IH [of cmd2 idx2 u2] console_only_trans by (auto split: if_splits)
qed simp

lemma same_keys_puts: "same_keys (keys s) (keys (puts_from m i n x s))"
proof (induction n arbitrary: i s)
  case (Suc n)
  then show ?case using same_keys_trans [OF same_keys_putchar [where s = s and c = "m i" and x = x] Suc.IH [of "putchar (m i) x s" "i + 1"]] by (simp add: same_keys_def)
qed (simp add: same_keys_def)

lemma same_keys_say: "same_keys (keys (con (sys u))) (keys (con (sys (say t x u))))"
    "same_keys (keys (con (sys u))) (keys (con (sys (sys_puts m k x u))))"
  using same_keys_puts by (simp_all add: puts_def)

text \<open>The prompt keeps what was typed.\<close>

lemma prompt_only:
  assumes "cstr (current_path s) 0 path"
  shows "\<exists>u. prompt s = Some (s\<lparr>prog := u\<rparr>) \<and> console_only (prog s) u \<and> same_keys (keys (con (sys (prog s)))) (keys (con (sys u)))"
proof -
  let ?u1 = "say ''Atmint'' 0xA (prog s)" let ?u2 = "say ''@LOSS-2025'' 0xF ?u1" let ?u3 = "say '':'' 0xF ?u2"
  let ?u4 = "sys_puts (current_path s) (of_nat (length path)) 0xB ?u3" let ?u5 = "say '' $ '' 0xF ?u4"
  have "prompt s = Some (s\<lparr>prog := ?u5\<rparr>)" using strlen_cstr [OF assms] by (simp add: prompt_def say_str_def)
  moreover have "console_only (prog s) ?u5"
    by (rule console_only_trans [OF console_only_trans [OF console_only_trans [OF console_only_trans [OF
        console_only_calls(3) console_only_calls(3)] console_only_calls(3)] console_only_calls(2)] console_only_calls(3)])
  moreover have "same_keys (keys (con (sys (prog s)))) (keys (con (sys ?u5)))"
    by (rule same_keys_trans [OF same_keys_trans [OF same_keys_trans [OF same_keys_trans [OF
        same_keys_say(1) same_keys_say(1)] same_keys_say(1)] same_keys_say(2)] same_keys_say(1)])
  ultimately show ?thesis by blast
qed

text \<open>Whether \<open>write\<close> can go on depends on the bytes of the name, not on what lies behind it.\<close>

lemma scan_slot_name: "bytes_of nm (unat len) = bytes_of nm' (unat len) \<Longrightarrow> scan_slot d nm len need off = scan_slot d nm' len need off"
proof (induction d nm len need off rule: scan_slot.induct)
  case (1 d nm len need off)
  have same: "entry_is d off nm len = entry_is d off nm' len" by (simp add: entry_is_iff 1(2))
  show ?case
    using 1 by (subst scan_slot.simps, subst (2) scan_slot.simps) (simp add: same Let_def)
qed

lemma find_slot_name: "bytes_of nm (unat len) = bytes_of nm' (unat len) \<Longrightarrow> find_slot st p nm len need bi n = find_slot st p nm' len need bi n"
proof (induction n arbitrary: bi)
  case (Suc n)
  show ?case unfolding find_slot.simps scan_slot_name [OF Suc.prems] Suc.IH [OF Suc.prems] ..
qed simp

lemma can_write_name:
  assumes "cstr nm 0 w" "cstr nm' 0 w" "length w < 256"
  shows "can_write st (named_request b nm (length w) p k dir) n = can_write st (named_request b' nm' (length w) p k dir) n"
proof -
  have same: "bytes_of nm (unat (of_nat (length w) :: u8)) = bytes_of nm' (unat (of_nat (length w) :: u8))"
    using named_bytes [OF assms(1,3)] named_bytes [OF assms(2,3)] by simp
  show ?thesis by (simp add: can_write_def blocks_needed_def same find_slot_name [OF same] Let_def)
qed

text \<open>The words of a line that is a command and one argument.\<close>

definition plain :: "u8 list \<Rightarrow> bool" where
  "plain w \<longleftrightarrow> w \<noteq> [] \<and> set w \<inter> {0x20, 0x22, 0x0A} = {}"

lemma take_plain:
  assumes "plain w" "c = 0x20 \<or> c = 0x0A"
  shows "takeWhile (\<lambda>c. c \<noteq> 0x20 \<and> c \<noteq> 0x0A) (w @ c # xs) = w" "dropWhile (\<lambda>c. c \<noteq> 0x20 \<and> c \<noteq> 0x0A) (w @ c # xs) = c # xs"
proof -
  have "\<forall>d\<in>set w. d \<noteq> 0x20 \<and> d \<noteq> 0x0A" using assms(1) by (auto simp: plain_def)
  then show "takeWhile (\<lambda>c. c \<noteq> 0x20 \<and> c \<noteq> 0x0A) (w @ c # xs) = w" "dropWhile (\<lambda>c. c \<noteq> 0x20 \<and> c \<noteq> 0x0A) (w @ c # xs) = c # xs"
    using assms(2) by (induction w) auto
qed

lemma words_Nil [simp]: "words n [] = []"
  by (cases n) simp_all

lemma words_plain:
  assumes "plain w" "c = 0x20 \<or> c = 0x0A"
  shows "words (Suc n) (w @ c # xs) = w # words n xs"
proof -
  obtain d ds where w: "w = d # ds" "d \<noteq> 0x20" "d \<noteq> 0x22" "d \<noteq> 0x0A" using assms(1) by (cases w) (auto simp: plain_def)
  show ?thesis
    using take_plain [OF assms, of xs] w(2-4) by (simp add: words.simps(2) w(1))
qed

lemma words_two:
  assumes "plain v" "plain w"
  shows "words 10 (dropWhile (\<lambda>c. c = 0x20 \<or> c = 0x0A) (v @ 0x20 # w @ [0x0A])) = [v, w]"
proof -
  have start: "dropWhile (\<lambda>c. c = 0x20 \<or> c = 0x0A) (v @ 0x20 # w @ [0x0A]) = v @ 0x20 # w @ [0x0A]"
    using assms(1) by (cases v) (auto simp: plain_def)
  have "words (Suc (Suc 8)) (v @ 0x20 # w @ [0x0A]) = [v, w]"
    using words_plain [OF assms(1), of "0x20" "Suc 8" "w @ [0x0A]"] words_plain [OF assms(2), of "0x0A" 8 "[]"] by (simp only: words_Nil) simp
  moreover have "(10 :: nat) = Suc (Suc 8)" by simp
  ultimately show ?thesis by (simp only: start)
qed

text \<open>A line typed at the prompt reaches the command buffer, and only the console has changed.\<close>

lemma typed_line:
  assumes "cstr (current_path s) 0 path" "\<forall>i<100. command s i = 0" "characters polls (keys (con (sys (prog s)))) = cs @ [0x0A]"
    "0x0A \<notin> set cs" "\<forall>n\<le>length cs. length (edited (take n cs)) < 99"
  shows "\<exists>rest cmd u. console_only (prog s) u \<and> cstr cmd 0 (edited cs @ [0x0A]) \<and> terminal fuel polls s =
    map_option (\<lambda>s. (rest, s\<lparr>command := memset (command s) 0 0 100\<rparr>)) (process_command fuel (s\<lparr>prog := u, command := cmd\<rparr>))"
proof -
  from prompt_only [OF assms(1)] obtain u1 where u1: "prompt s = Some (s\<lparr>prog := u1\<rparr>)" "console_only (prog s) u1"
    "same_keys (keys (con (sys (prog s)))) (keys (con (sys u1)))" by blast
  have "line_ok (command s) []" using assms(2) by (simp add: line_ok_def)
  from read_line_edits [OF this u1(3) assms(3,4)] assms(5) obtain rest cmd idx u2 where
    rd: "read_line polls (command s, 0, u1) = Some (rest, cmd, idx, u2)" "cstr cmd 0 (edited cs @ [0x0A])"
    by (auto simp: edited_def ok_def)
  let ?u = "sys_putchar 0x0A 0xF u2"
  have "console_only (prog s) ?u"
    by (rule console_only_trans [OF console_only_trans [OF u1(2) read_line_only [OF rd(1)]] console_only_calls(1)])
  moreover have "terminal fuel polls s =
    map_option (\<lambda>s. (rest, s\<lparr>command := memset (command s) 0 0 100\<rparr>)) (process_command fuel (s\<lparr>prog := ?u, command := cmd\<rparr>))"
    using u1(1) rd(1) by (cases "process_command fuel (s\<lparr>prog := ?u, command := cmd\<rparr>)") (simp_all add: terminal_def)
  ultimately show ?thesis using rd(2) by blast
qed

lemma edited_set: "set (edited cs) \<subseteq> set cs - {0}"
proof -
  have "set (foldl edit acc cs) \<subseteq> set acc \<union> (set cs - {0})" for acc
  proof (induction cs arbitrary: acc)
    case (Cons c cs)
    have "set (edit acc c) \<subseteq> set acc \<union> ({c} - {0})" by (auto simp: edit_def dest: in_set_butlastD)
    then show ?case using Cons [of "edit acc c"] by auto
  qed simp
  from this [of "[]"] show ?thesis by (simp add: edited_def)
qed

text \<open>C9: Typing \<open>touch\<close> and a name makes the file: for every sequence of keys, corrections included, whose
  line is this command, the volume shows an empty file under the name and nothing else has changed.\<close>

theorem typed_touch:
  assumes "volume_ok (fs_of (prog s))" "cstr (current_path s) 0 path" "\<forall>i<100. command s i = 0"
    "characters polls (keys (con (sys (prog s)))) = cs @ [0x0A]" "0x0A \<notin> set cs" "\<forall>n\<le>length cs. length (edited (take n cs)) < 99"
    "edited cs = map of_char ''touch'' @ 0x20 # w" "w \<noteq> []" "0x20 \<notin> set w" "0x22 \<notin> set w" "current_inode s \<noteq> 2"
    "can_write (fs_of (prog s)) (named_request zeros (name_mem w) (length w) (current_inode s) 0 False) n"
  shows "ok (terminal fuel polls s) (\<lambda>(rest, s'). volume_ok (fs_of (prog s')) \<and> current_inode s' = current_inode s \<and>
    view (fs_of (prog s')) = (view (fs_of (prog s)))(n \<mapsto> File [], unat (current_inode s) \<mapsto>
      Folder ((names (fs_of (prog s)) (unat (current_inode s)))(w \<mapsto> (of_nat n, EXT2_FT_REG_FILE)))))"
proof -
  let ?t = "map of_char ''touch'' :: u8 list"
  have w: "plain w" "0 \<notin> set w" "length w < 256"
    using assms(5-10) edited_set [of cs] spec [OF assms(6), of "length cs"] by (auto simp: plain_def)
  have t: "plain ?t" by (simp add: plain_def)
  from typed_line [OF assms(2-6), of fuel] obtain rest cmd u where
    u: "console_only (prog s) u" "cstr cmd 0 (edited cs @ [0x0A])" "terminal fuel polls s =
      map_option (\<lambda>s. (rest, s\<lparr>command := memset (command s) 0 0 100\<rparr>)) (process_command fuel (s\<lparr>prog := u, command := cmd\<rparr>))"
    by blast
  have "words 10 (dropWhile (\<lambda>c. c = 0x20 \<or> c = 0x0A) (edited cs @ [0x0A])) = [?t, w]"
    unfolding assms(7) using words_two [OF t w(1)] by simp
  from run_named [of "s\<lparr>prog := u, command := cmd\<rparr>", OF _ this, of fuel] u(2) obtain argv m where
    argv: "list_all2 (\<lambda>a w. cstr a 0 w) argv [?t, w]" and
    run: "process_command fuel (s\<lparr>prog := u, command := cmd\<rparr>) =
      run_command fuel (named_command ?t) argv (s\<lparr>prog := u, command := m\<rparr>)" by auto
  obtain a b where ab: "argv = [a, b]" "cstr b 0 w" using argv by (auto simp: list_all2_Cons2)
  have touch: "named_command ?t = Touch" by (simp add: named_command_def command_words_def)
  note k = console_only_kernel [OF u(1)]
  have "cstr (name_mem w) 0 w" by (rule cstr_name_mem [OF w(2)])
  note room = can_write_name [OF ab(2) this w(3), where b' = zeros]
  have "can_write (fs_of u) (named_request (null_buffer u) b (length w) (current_inode s) 0 False) n"
    unfolding room k(1) by (rule assms(12))
  from touch_creates [OF assms(1) [folded k(1)] assms(11) ab(2) w(3) this, of a, unfolded k(1)] obtain u' where
    u': "touch (current_inode s) [a, b] u = Some u'" "volume_ok (fs_of u')" "view (fs_of u') = (view (fs_of (prog s)))(n \<mapsto> File [],
      unat (current_inode s) \<mapsto> Folder ((names (fs_of (prog s)) (unat (current_inode s)))(w \<mapsto> (of_nat n, EXT2_FT_REG_FILE))))"
    by (auto simp: ok_def)
  have "process_command fuel (s\<lparr>prog := u, command := cmd\<rparr>) = Some (s\<lparr>prog := u', command := m\<rparr>)"
    unfolding run touch ab(1) using u'(1) by (simp add: run_command_def run_in_def)
  then show ?thesis using u(3) u'(2,3) by simp
qed

text \<open>The keys of \<open>touch a\<close> with a typing error in the middle, on the shell with the fresh volume.\<close>

definition touch_polls :: "u8 list list" where
  "touch_polls = [[0x14], [0x18], [0x16], [0x2E], [0x31], [0x0E], [0x23], [], [0x39], [0x1E], [0x9E, 0x1C]]"

lemma touch_keys: "characters touch_polls (keyboard_state_activate k) =
    [0x74, 0x6F, 0x75, 0x63, 0x6E, 0x08, 0x68, 0, 0x20, 0x61] @ [0x0A]"
  by (simp add: touch_polls_def keyboard_state_activate_def get_keyboard_buffer_def keyboard_isr_def key_make_def scancodes
      keyboard_scancode_1_to_ascii_map_def break_bit clean_bits One_nat_def)

lemma typed_touch_witness:
  "ok (terminal 0 touch_polls (sample_shell [])) (\<lambda>(rest, s'). volume_ok (fs_of (prog s')) \<and> current_inode s' = 1 \<and>
    view (fs_of (prog s')) = (view fresh_fs)(2 \<mapsto> File [], 1 \<mapsto> Folder ((names fresh_fs 1)([0x61] \<mapsto> (2, EXT2_FT_REG_FILE)))))"
proof -
  let ?cs = "[0x74, 0x6F, 0x75, 0x63, 0x6E, 0x08, 0x68, 0, 0x20, 0x61] :: u8 list"
  have s: "prog (sample_shell []) = sample_user" "current_inode (sample_shell []) = 1" "\<forall>i<100. command (sample_shell []) i = 0"
    "current_path (sample_shell []) = lit ''/''" by (simp_all add: sample_shell_def blit_def)
  have path: "cstr (lit ''/'') 0 [0x2F]" by (simp add: cstr_def lit_def One_nat_def)
  have keys: "characters touch_polls (keys (con (sys sample_user))) = ?cs @ [0x0A]"
    by (simp add: sample_user_def sys_activate_keyboard_def touch_keys)
  have line: "edited ?cs = map of_char ''touch'' @ 0x20 # [0x61]" by (simp add: edited_def edit_def)
  have short: "\<forall>n\<le>length ?cs. length (edited (take n ?cs)) < 99"
  proof (intro allI impI)
    fix n
    have "length (edited (take n ?cs)) \<le> 10" using edited_length [of "take n ?cs"] by simp
    then show "length (edited (take n ?cs)) < 99" by linarith
  qed
  have room: "can_write fresh_fs (named_request zeros (name_mem [0x61]) (length [0x61 :: u8]) 1 0 False) 2"
    by (rule can_write_empty) simp_all
  from typed_touch [of "sample_shell []" "[0x2F]" touch_polls ?cs "[0x61]" 2 0, unfolded s fs_sample, OF fresh_volume path _ keys _ short line _ _ _ _ room]
  show ?thesis using s(3) by (simp add: One_nat_def)
qed

subsection \<open>Changing the directory\<close>

lemma strcmp_zero:
  assumes "cstr s i xs" "cstr t i ys"
  shows "\<exists>d. strcmp_from s t i = Some d \<and> (d = 0 \<longleftrightarrow> xs = ys)"
  using assms
proof (induction xs arbitrary: i ys)
  case Nil
  then show ?case by (subst strcmp_from.simps) (cases ys; auto simp: uint_0_iff)
next
  case (Cons x xs)
  then have x: "s i = x" "x \<noteq> 0" "cstr s (Suc i) xs" by (simp_all add: cstr_Cons)
  show ?case
  proof (cases "t i = x")
    case True
    then obtain zs where "ys = x # zs" "cstr t (Suc i) zs" using Cons.prems(2) x(2) by (cases ys) (auto simp: cstr_Nil cstr_Cons)
    then show ?thesis using Cons.IH [OF x(3)] True x(1,2) by (subst strcmp_from.simps) (simp add: One_nat_def)
  next
    case False
    then show ?thesis using Cons.prems(2) x(1) by (subst strcmp_from.simps) (cases ys; auto simp: uint_0_iff word_uint_eq_iff [symmetric])
  qed
qed

lemma text_cstr: "0 \<notin> set w \<Longrightarrow> cstr (text_of w) 0 w"
  by (auto simp: cstr_def text_of_def blit_def zeros_def in_set_conv_nth)

lemma dot_cstr: "cstr (lit ''.'') 0 [0x2E]" "cstr (lit ''..'') 0 [0x2E, 0x2E]"
  by (auto simp: cstr_def lit_def less_Suc_eq_0_disj One_nat_def)

text \<open>The walk down from a directory: every component but the last result is a directory of the volume.\<close>

fun descends :: "fs \<Rightarrow> u32 \<Rightarrow> u8 list list \<Rightarrow> u32 \<Rightarrow> bool" where
  "descends st p [] q \<longleftrightarrow> p = q"
| "descends st p (w # ws) q \<longleftrightarrow> folder st p \<and> w \<noteq> [0x2E] \<and> w \<noteq> [0x2E, 0x2E] \<and>
     (case names st (unat p) w of Some (r, ft) \<Rightarrow> ft = EXT2_FT_DIR \<and> r \<noteq> 0 \<and> descends st r ws q | None \<Rightarrow> False)"

lemma child_found:
  assumes "volume_ok (fs_of u)" "folder (fs_of u) p" "names (fs_of u) (unat p) w = Some (r, EXT2_FT_DIR)" "length w < 63"
  shows "\<exists>u'. find_child_inode p (text_of w) (of_nat (length w)) u = Some (r, u') \<and> fs_of u' = fs_of u \<and> sys u' = sys u"
proof -
  have p: "p \<noteq> 0" using assms(2) live_nonzero [of p "fs_of u"] by (auto simp: folder_def)
  obtain data u1 where u1: "unset_array u = (data, u1)" by (cases "unset_array u")
  then have fs: "fs_of u1 = fs_of u" "sys u1 = sys u" using unset_int_simps [of u] by simp_all
  from read_dot [OF assms(1,2) [folded fs(1)], of DIR_BUFFER data 0] obtain out where
    rd: "sys_read_directory (dot_request data p DIR_BUFFER) 0 u1 = Some (out, status 0 0, u1)" and
    out: "chain_ok out 0" "dir_map out = names (fs_of u) (unat p)"
    by (auto simp: ok_def fs(1))
  have "find_child out (text_of w) (length w) 0 = r"
    using find_child_bound [OF out(1)] out(2) assms(3) by (simp add: dir_map_def text_of_def blit_def)
  then show ?thesis using rd u1 fs p assms(4) by (simp add: find_child_inode_def unat_of_nat)
qed

lemma cd_steps_descend:
  assumes "volume_ok (fs_of u)" "descends (fs_of u) p ws q" "\<forall>w\<in>set ws. w \<noteq> [] \<and> length w < 63 \<and> 0 \<notin> set w"
  shows "\<exists>u'. cd_steps ws p u = Some (Some q, u') \<and> sys u' = sys u"
  using assms
proof (induction ws arbitrary: p u)
  case (Cons w ws)
  from Cons.prems(2) obtain r where d: "folder (fs_of u) p" "w \<noteq> [0x2E]" "w \<noteq> [0x2E, 0x2E]"
    "names (fs_of u) (unat p) w = Some (r, EXT2_FT_DIR)" "r \<noteq> 0" "descends (fs_of u) r ws q"
    by (auto split: option.splits)
  have w: "w \<noteq> []" "length w < 63" "cstr (text_of w) 0 w" using Cons.prems(3) text_cstr by auto
  from child_found [OF Cons.prems(1) d(1,4) w(2)] obtain u1 where
    u1: "find_child_inode p (text_of w) (of_nat (length w)) u = Some (r, u1)" "fs_of u1 = fs_of u" "sys u1 = sys u" by blast
  obtain a b where ab: "strcmp (text_of w) (lit ''.'') = Some a" "a \<noteq> 0" "strcmp (text_of w) (lit ''..'') = Some b" "b \<noteq> 0"
    using strcmp_zero [OF w(3) dot_cstr(1)] strcmp_zero [OF w(3) dot_cstr(2)] d(2,3) by (auto simp: strcmp_def)
  have "\<exists>u'. cd_steps ws r u1 = Some (Some q, u') \<and> sys u' = sys u1"
    by (rule Cons.IH) (use Cons.prems d(6) u1(2) in auto)
  then show ?case using strlen_cstr [OF w(3)] w(1) ab u1(1,3) d(5) by simp
qed simp

lemma components_parts: "w \<in> set (components xs) \<Longrightarrow> w \<noteq> [] \<and> length w < 63 \<and> set w \<subseteq> set xs"
proof -
  have "\<forall>w\<in>set (split_slash xs). set w \<subseteq> set xs"
  proof (induction xs)
    case (Cons c cs)
    then show ?case by (cases "split_slash cs") auto
  qed simp
  then show "w \<in> set (components xs) \<Longrightarrow> w \<noteq> [] \<and> length w < 63 \<and> set w \<subseteq> set xs" by (auto simp: components_def fits_def)
qed

text \<open>C19: \<open>cd\<close> with a path of existing directories goes to the directory the names lead to, from the root
  for a path with a leading slash, and neither prints anything nor changes the volume; of a longer path only the
  first 16 components count.\<close>

theorem cd_descends:
  assumes "volume_ok (fs_of u)" "cstr path 0 xs" "take 16 (components xs) = ws"
    "descends (fs_of u) (if xs \<noteq> [] \<and> hd xs = 0x2F then 1 else current) ws q"
  shows "\<exists>u'. cd current [cmd, path] u = Some (q, u') \<and> sys u' = sys u"
proof -
  have "path 0 = 0x2F \<longleftrightarrow> xs \<noteq> [] \<and> hd xs = 0x2F" using assms(2) by (cases xs) (auto simp: cstr_Nil cstr_Cons)
  moreover have "0 \<notin> set xs" using assms(2) by (auto simp: cstr_def in_set_conv_nth)
  then have "\<forall>w\<in>set ws. w \<noteq> [] \<and> length w < 63 \<and> 0 \<notin> set w"
    using components_parts assms(3) by (fastforce dest: in_set_takeD)
  from cd_steps_descend [OF assms(1,4) this] obtain u' where
    "cd_steps ws (if xs \<noteq> [] \<and> hd xs = 0x2F then 1 else current) u = Some (Some q, u')" "sys u' = sys u" by blast
  ultimately show ?thesis
    using path_splits [OF assms(2), of 16] assms(3) by (simp add: cd_def One_nat_def numeral_2_eq_2)
qed

lemma cd_descends_witness:
  "ok (mkdir 1 [\<lambda>_. 0, name_mem [0x61]] sample_user) (\<lambda>u. \<exists>u'. cd 7 [\<lambda>_. 0, name_mem [0x2F, 0x61]] u = Some (2, u') \<and> sys u' = sys u)"
proof -
  have c: "cstr (name_mem [0x61]) 0 [0x61]" "cstr (name_mem [0x2F, 0x61]) 0 [0x2F, 0x61]" by (rule cstr_name_mem, simp)+
  have "can_write (fs_of sample_user) (named_request (null_buffer sample_user) (name_mem [0x61]) (length [0x61 :: u8]) 1 0 True) 2"
    using can_write_empty [of "[0x61]"] by simp
  from mkdir_creates [OF _ _ c(1) _ this] fresh_volume obtain u where
    u: "mkdir 1 [\<lambda>_. 0, name_mem [0x61]] sample_user = Some u" "volume_ok (fs_of u)"
      "view (fs_of u) = (view fresh_fs)(2 \<mapsto> Folder [[0x2E] \<mapsto> (2, EXT2_FT_DIR), [0x2E, 0x2E] \<mapsto> (1, EXT2_FT_DIR)],
        1 \<mapsto> Folder ((names fresh_fs 1)([0x61] \<mapsto> (2, EXT2_FT_DIR))))"
    by (auto simp: ok_def simp del: say_simps)
  have "view (fs_of u) 1 = Some (Folder ((names fresh_fs 1)([0x61] \<mapsto> (2, EXT2_FT_DIR))))" using u(3) by simp
  from view_folder [OF this] have d: "descends (fs_of u) 1 [[0x61]] 2"
    using fresh_names(1) by (simp add: folder_def)
  have ws: "take 16 (components [0x2F, 0x61]) = [[0x61]]" by (simp add: components_def fits_def)
  have "descends (fs_of u) (if [0x2F, 0x61] \<noteq> [] \<and> hd [0x2F, 0x61] = (0x2F :: u8) then 1 else 7) [[0x61]] 2" using d by (simp del: descends.simps)
  from cd_descends [OF u(2) c(2) ws this, of "\<lambda>_. 0"]
  have "\<exists>u'. cd 7 [\<lambda>_. 0, name_mem [0x2F, 0x61]] u = Some (2, u') \<and> sys u' = sys u" .
  then show ?thesis using u(1) by simp
qed

subsection \<open>Writing a text and showing it\<close>

text \<open>\<open>echo\<close> with a redirection: the text becomes a file, and since the status has no address, the byte
  at the address 0 of the program is overwritten by it.\<close>

lemma echo_file:
  assumes v: "volume_ok (fs_of u)" "current \<noteq> 2" and c: "cstr txt 0 ts" "cstr gt 0 (0x3E # gs)" "cstr name 0 w" "w \<noteq> []" "length w < 256"
    "length ts \<le> 0x100000" and w: "can_write (fs_of u) (named_request txt name (length w) current (of_nat (length ts)) False) n"
  shows "\<exists>u'. echo current [cmd, txt, gt, name] u = Some u' \<and> volume_ok (fs_of u') \<and>
    view (fs_of u') = (view (fs_of u))(n \<mapsto> File ts, unat current \<mapsto>
      Folder ((names (fs_of u) (unat current))(w \<mapsto> (of_nat n, EXT2_FT_REG_FILE)))) \<and>
    has_file (fs_of u') current w (of_nat n) ts \<and> junk u' = junk u \<and> used u' = used u \<and>
    con (sys u') = putchar 0x0A 0xF (con (sys u)) \<and> current_mem (sys u') 0 = 0"
proof -
  let ?r = "named_request txt name (length w) current (of_nat (length ts)) False"
  have k: "unat (of_nat (length ts) :: u32) = length ts" using c(6) by (simp add: unat_of_nat_u32)
  have data: "map txt [0..<length ts] = ts" using cstr_at [OF c(1)] by (intro nth_equalityI) simp_all
  from write_call [OF v(1) w c(3,5)] obtain st where
    run: "ext2_write (fs_of u) (Some ?r) = Some (0, st)" and st: "volume_ok st" "n \<notin> live (fs_of u)"
      "view st = (view (fs_of u))(n \<mapsto> new_contents ?r (of_nat n), unat current \<mapsto>
        Folder ((names (fs_of u) (unat current))(w \<mapsto> (of_nat n, new_type ?r))))" by blast
  have new: "new_contents ?r (of_nat n) = File ts" "new_type ?r = EXT2_FT_REG_FILE"
    by (simp_all add: new_contents_def new_type_def k data)
  note wn = written_names [OF v(1) w, of st, unfolded named_fields, unfolded named_bytes [OF c(3,5)], OF st(3,2)]
  have stored: "has_file st current w (of_nat n) ts"
    using wn(1,2,6,7) new wn(5) by (simp add: has_file_def)
  have gt: "memcmp gt 0 (lit ''>'') 0 1 = 0" using c(2) by (simp add: memcmp_eq_0_iff lit_def One_nat_def)
  let ?m = "sys (set_fs st u)"
  let ?m' = "?m\<lparr>user_mem := (user_mem ?m)(cr3 (kern ?m) := (current_mem ?m)(0 := 0))\<rparr>"
  have stored0: "set_status 0 0 ?m = Some ?m'" using set_status_user [of 0 0 ?m] by simp
  let ?u = "sys_putchar 0x0A 0xF ((set_fs st u)\<lparr>sys := ?m'\<rparr>)"
  have "echo current [cmd, txt, gt, name] u = Some ?u"
    using v(2) gt strlen_cstr [OF c(1)] strlen_cstr [OF c(3)] c(4) run stored0
    by (simp add: echo_def numeral_2_eq_2 numeral_3_eq_3 One_nat_def sys_write_unchecked_def Let_def)
  moreover have "fs_of ?u = st" "junk ?u = junk u" "used ?u = used u" "con (sys ?u) = putchar 0x0A 0xF (con (sys u))"
    by (simp_all add: fs_of_def sys_putchar_def set_fs_def)
  moreover have "current_mem (sys ?u) 0 = 0"
    by (simp add: sys_putchar_def current_mem_def)
  ultimately show ?thesis using st(1,3) new stored by (intro exI [of _ ?u]) simp
qed

lemma puts_same:
  assumes "\<And>j. j < n \<Longrightarrow> m (i + j) = m' (i + j)"
  shows "puts_from m i n x s = puts_from m' i n x s"
  using assms
proof (induction n arbitrary: i s)
  case (Suc n)
  have "m i = m' i" using Suc.prems [of 0] by simp
  moreover have "puts_from m (i + 1) n x s' = puts_from m' (i + 1) n x s'" for s'
    by (rule Suc.IH) (use Suc.prems [of "Suc _"] in \<open>simp add: One_nat_def\<close>)
  ultimately show ?case by simp
qed simp

lemma cstr_behind:
  assumes "cstr m (length xs) ys" "0 \<notin> set xs"
  shows "cstr (blit m 0 xs) 0 (xs @ ys)"
  unfolding cstr_def
proof (intro conjI allI impI)
  show "blit m 0 xs (0 + length (xs @ ys)) = 0" using assms(1) by (simp add: cstr_def blit_def)
  fix i assume "i < length (xs @ ys)"
  then have "i < length xs \<or> (\<exists>j. i = length xs + j \<and> j < length ys)" by (metis le_Suc_ex length_append nat_add_left_cancel_less not_le)
  then show "blit m 0 xs (0 + i) = (xs @ ys) ! i" "(xs @ ys) ! i \<noteq> 0"
    using assms by (auto simp: cstr_def blit_def nth_append in_set_conv_nth)
qed

text \<open>\<open>cat\<close> puts no NUL behind the bytes it read: it shows them and what lies behind them on its stack, up
  to the first NUL there.\<close>

lemma cat_file:
  assumes "volume_ok (fs_of u)" "current \<noteq> 2" "has_file (fs_of u) current w ino ts" "cstr name 0 w" "length w < 256"
    "length ts \<le> 8192" "0 \<notin> set ts" "cstr (junk u (used u)) (length ts) rest"
  shows "\<exists>u'. cat current [cmd, name] u = Some u' \<and> fs_of u' = fs_of u \<and>
    con (sys u') = con (sys (say (nl @ nl) 0 (sys_puts (text_of (ts @ rest)) (of_nat (length (ts @ rest))) 0xF u)))"
proof -
  obtain bf u1 where u1: "unset_array u = (bf, u1)" by (cases "unset_array u")
  then have same: "fs_of u1 = fs_of u" "con (sys u1) = con (sys u)" "bf = junk u (used u)"
    using unset_int_simps [of u] by (simp_all add: unset_array_def)
  let ?bf = "blit bf 0 ts" let ?L = "length (ts @ rest)"
  have "ext2_read (fs_of u1) (named_request bf name (length w) current size_of False) = Some (0, ?bf)" if "length ts \<le> unat size_of" for size_of
    by (rule read_file) (use assms(1,3-5) same(1) that in simp_all)
  from this [of "0x100000"] this [of "of_nat 8192"] assms(6) have
    rd: "sys_read (named_request bf name (length w) current 0x100000 False) 0 u1 = Some (?bf, 0, u1)" and
    fits: "overruns (BLOCK_SIZE * 16) (named_request bf name (length w) current 0x100000 False) u1 = Some False"
    by (simp_all add: sys_read_def overruns_def named_request_def)
  have "cstr bf (length ts) rest" using assms(8) same(3) by simp
  then have shown: "cstr ?bf 0 (ts @ rest)" by (rule cstr_behind [OF _ assms(7)])
  have "unat (of_nat ?L :: u32) \<le> ?L" by (simp only: unat_of_nat) (rule mod_less_eq_dividend)
  then have "puts_from ?bf 0 (unat (of_nat ?L :: u32)) 0xF s = puts_from (text_of (ts @ rest)) 0 (unat (of_nat ?L :: u32)) 0xF s" for s
    by (intro puts_same) (use cstr_at [OF shown] in \<open>simp add: text_of_def blit_def\<close>)
  then show ?thesis
    using assms(2) strlen_cstr [OF assms(4)] strlen_cstr [OF shown] u1 rd fits same(1,2)
    by (simp add: cat_def say_str_def numeral_2_eq_2 One_nat_def puts_def)
qed

text \<open>C10: What \<open>echo\<close> wrote to a file \<open>cat\<close> shows: a text of up to 8192 bytes, the size of the buffer of
  \<open>cat\<close>, goes through two programs and the file system, and its characters are the ones printed, followed by
  \<open>rest\<close>, what lies behind them on the stack of \<open>cat\<close> up to the first NUL there, since \<open>cat\<close> does not end the
  text it read. On the way the byte at the address 0 of the shell becomes 0.\<close>

theorem echo_then_cat:
  assumes "volume_ok (fs_of u)" "current \<noteq> 2" "cstr txt 0 ts" "cstr gt 0 (0x3E # gs)" "cstr name 0 w" "w \<noteq> []" "length w < 256"
    "length ts \<le> 8192" "can_write (fs_of u) (named_request txt name (length w) current (of_nat (length ts)) False) n"
    "cstr (junk u (used u)) (length ts) rest"
  shows "ok (echo current [cmd, txt, gt, name] u) (\<lambda>u1. current_mem (sys u1) 0 = 0 \<and> con (sys u1) = putchar 0x0A 0xF (con (sys u)) \<and>
    ok (cat current [cmd', name] u1) (\<lambda>u2. volume_ok (fs_of u2) \<and> view (fs_of u2) = (view (fs_of u))(n \<mapsto> File ts, unat current \<mapsto>
        Folder ((names (fs_of u) (unat current))(w \<mapsto> (of_nat n, EXT2_FT_REG_FILE)))) \<and>
      con (sys u2) = con (sys (say (nl @ nl) 0 (sys_puts (text_of (ts @ rest)) (of_nat (length (ts @ rest))) 0xF u1)))))"
proof -
  have "length ts \<le> 0x100000" using assms(8) by simp
  from echo_file [OF assms(1-7) this assms(9), of cmd] obtain u1 where
    u1: "echo current [cmd, txt, gt, name] u = Some u1" "volume_ok (fs_of u1)" "has_file (fs_of u1) current w (of_nat n) ts"
      "junk u1 = junk u" "used u1 = used u" "con (sys u1) = putchar 0x0A 0xF (con (sys u))" "current_mem (sys u1) 0 = 0" and
    view: "view (fs_of u1) = (view (fs_of u))(n \<mapsto> File ts, unat current \<mapsto>
        Folder ((names (fs_of u) (unat current))(w \<mapsto> (of_nat n, EXT2_FT_REG_FILE))))"
    by blast
  have "0 \<notin> set ts" using assms(3) by (auto simp: cstr_def in_set_conv_nth)
  from cat_file [OF u1(2) assms(2) u1(3) assms(5,7,8) this, of rest cmd'] obtain u2 where
    "cat current [cmd', name] u1 = Some u2" "fs_of u2 = fs_of u1"
    "con (sys u2) = con (sys (say (nl @ nl) 0 (sys_puts (text_of (ts @ rest)) (of_nat (length (ts @ rest))) 0xF u1)))"
    using assms(10) u1(4,5) by auto
  with u1(1,2,6,7) view show ?thesis by (simp del: say_simps)
qed

text \<open>The same programs where every fresh piece of the stack holds an old text: \<open>hi\<close> is shown as \<open>hie\<close>.\<close>

definition stale_user :: user where
  "stale_user = sample_user\<lparr>junk := \<lambda>_. lit ''see''\<rparr>"

lemma echo_then_cat_witness:
  "ok (echo 1 [\<lambda>_. 0, name_mem [0x68, 0x69], name_mem [0x3E], name_mem [0x61]] stale_user) (\<lambda>u1. current_mem (sys u1) 0 = 0 \<and>
    con (sys u1) = putchar 0x0A 0xF (con (sys stale_user)) \<and>
    ok (cat 1 [\<lambda>_. 0, name_mem [0x61]] u1) (\<lambda>u2. volume_ok (fs_of u2) \<and> view (fs_of u2) = (view fresh_fs)(2 \<mapsto> File [0x68, 0x69], 1 \<mapsto>
        Folder ((names fresh_fs 1)([0x61] \<mapsto> (2, EXT2_FT_REG_FILE)))) \<and>
      con (sys u2) = con (sys (say (nl @ nl) 0 (sys_puts (text_of [0x68, 0x69, 0x65]) 3 0xF u1)))))"
proof -
  have fs: "fs_of stale_user = fresh_fs" "junk stale_user (used stale_user) = lit ''see''"
    by (simp_all add: stale_user_def fs_of_def sample_user_def sys_activate_keyboard_def)
  have c: "cstr (name_mem [0x68, 0x69]) 0 [0x68, 0x69]" "cstr (name_mem [0x3E]) 0 [0x3E]" "cstr (name_mem [0x61]) 0 [0x61]"
    by (rule cstr_name_mem, simp)+
  have "can_write fresh_fs (sample_request [0x61] [0x68, 0x69]) 2" by (rule can_write_fresh) simp_all
  then have w: "can_write (fs_of stale_user) (named_request (name_mem [0x68, 0x69]) (name_mem [0x61]) (length [0x61 :: u8]) 1
      (of_nat (length [0x68, 0x69 :: u8])) False) 2"
    using request_sample [of "[0x61]" "[0x68, 0x69]" fresh_fs "name_mem [0x68, 0x69]" 2] by (simp add: fs)
  have junk: "cstr (junk stale_user (used stale_user)) (length [0x68, 0x69 :: u8]) [0x65]"
    by (simp add: fs cstr_Cons cstr_Nil lit_def numeral_2_eq_2 [symmetric])
  have len: "length [0x61 :: u8] < 256" "length [0x68, 0x69 :: u8] \<le> 8192" "[0x61 :: u8] \<noteq> []" "(1 :: u32) \<noteq> 2" by simp_all
  from echo_then_cat [OF _ len(4) c len(3,1,2) w junk, of "\<lambda>_. 0" "\<lambda>_. 0"] fresh_volume
  show ?thesis by (simp add: fs numeral_2_eq_2 [symmetric] One_nat_def del: say_simps)
qed

end
