(* ===== verification/Demo_Theorems.thy ===== *)
theory Demo_Theorems
  imports Demos Shell_Theorems
begin

section \<open>Properties of the player\<close>

text \<open>
  The format of the player's data, as an encoder that the repository does not have would write it, and
  what the player makes of it: which frames it draws, in which order, and what each shows.
\<close>

declare One_nat_def [simp del]

subsection \<open>What a frame shows\<close>

text \<open>The two bits of a frame for the block of 8 by 8 pixels around a point.\<close>

definition frame_value :: "u8 list list \<Rightarrow> int \<Rightarrow> int \<Rightarrow> u8" where
  "frame_value cur x y =
     (let col = nat (x div 8 mod 8); byte = cur ! nat (y div 64 * 7 + x div 64) ! nat (y div 8 mod 8 * 2 + int (col div 4))
      in drop_bit (6 - col mod 4 * 2) byte AND 3)"

definition lit_pixel :: "nat \<Rightarrow> int \<Rightarrow> int \<Rightarrow> user \<Rightarrow> bool" where
  "lit_pixel p x y u = pixel (screen (con (sys u))) p x y"

lemma lit_fill:
  assumes "on_screen x y" "p < 4" "0 \<le> a" "a < 80" "0 \<le> b" "b < 60"
  shows "lit_pixel p x y (sys_fill (a * 8) (b * 8) c u) = (if x div 8 = a \<and> y div 8 = b then bit c p else lit_pixel p x y u)"
proof -
  have "a * 8 \<le> x \<and> x < a * 8 + 8 \<longleftrightarrow> x div 8 = a" "b * 8 \<le> y \<and> y < b * 8 + 8 \<longleftrightarrow> y div 8 = b" by auto
  moreover have "lit_pixel p x y (sys_fill (a * 8) (b * 8) c u) = (if a * 8 \<le> x \<and> x < a * 8 + 8 \<and> b * 8 \<le> y \<and> y < b * 8 + 8
      then bit c p else lit_pixel p x y u)"
    using assms(3-6) by (simp add: lit_pixel_def sys_fill_def pixel_fill8x8 [OF assms(1,2)])
  ultimately show ?thesis by auto
qed

text \<open>Steps that each set one part of the screen to what \<open>V\<close> says set the union of the parts.\<close>

lemma lit_fold:
  assumes "\<And>i u. i \<in> set is \<Longrightarrow> lit_pixel p x y (f i u) = (if Q i then V else lit_pixel p x y u)"
  shows "lit_pixel p x y (fold f is u) = (if \<exists>i\<in>set is. Q i then V else lit_pixel p x y u)"
  using assms by (induction "is" arbitrary: u) auto

lemma column_parts:
  "q div 8 = (b :: int) \<longleftrightarrow> q = b * 8 \<or> q = b * 8 + 1 \<or> q = b * 8 + 2 \<or> q = b * 8 + 3 \<or> q = b * 8 + 4 \<or> q = b * 8 + 5 \<or>
    q = b * 8 + 6 \<or> q = b * 8 + 7"
  by presburger

lemma lit_row:
  assumes s: "on_screen x y" "p < 4" and i: "row < 5" "dy < 8" "bx < 7"
  shows "lit_pixel p x y (render_row cur row dy bx u) =
    (if x div 64 = int bx \<and> y div 8 = int row * 8 + int dy then bit (pixel_color (frame_value cur x y)) p else lit_pixel p x y u)"
proof -
  let ?V = "bit (pixel_color (frame_value cur x y)) p"
  let ?Y = "int row * 8 * 8 + int dy * 8"
  have four: "lit_pixel p x y (fold (\<lambda>px. sys_fill (int bx * 8 * 8 + (int px + int first) * 8) ?Y
        (pixel_color (drop_bit (6 - px * 2) (cur ! (row * 7 + bx) ! (dy * 2 + first div 4)) AND 3))) [0..<4] v) =
      (if \<exists>px\<in>set [0..<4]. x div 8 = int bx * 8 + int px + int first \<and> y div 8 = int row * 8 + int dy then ?V else lit_pixel p x y v)"
    if first: "first = 0 \<or> first = 4" for first v
  proof (rule lit_fold)
    fix px w
    assume "px \<in> set [0..<4 :: nat]"
    then have px: "px < 4" by simp
    let ?a = "int bx * 8 + int px + int first" let ?b = "int row * 8 + int dy"
    let ?c = "pixel_color (drop_bit (6 - px * 2) (cur ! (row * 7 + bx) ! (dy * 2 + first div 4)) AND 3)"
    have val: "frame_value cur x y = drop_bit (6 - px * 2) (cur ! (row * 7 + bx) ! (dy * 2 + first div 4)) AND 3"
      if "x div 8 = ?a" "y div 8 = ?b"
    proof -
      have "(int bx * 8 + int (px + first)) mod 8 = int (px + first)" using px first by (subst mod_mult_self3) auto
      then have "x div 8 mod 8 = int (px + first)" using that(1) by (simp add: add.assoc)
      then have x: "x div 64 = int bx" "nat (x div 8 mod 8) = px + first" using that(1) px first by auto
      have y: "y div 64 = int row" "y div 8 mod 8 = int dy" using that(2) i by auto
      have "nat (y div 64 * 7 + x div 64) = row * 7 + bx" using x y by (simp add: nat_add_distrib nat_mult_distrib)
      moreover have "(px + first) div 4 = first div 4" "(px + first) mod 4 = px" using px first by auto
      moreover have "nat (y div 8 mod 8 * 2 + int (first div 4)) = dy * 2 + first div 4" using y by (simp add: nat_add_distrib nat_mult_distrib)
      ultimately show ?thesis by (simp add: frame_value_def x(2) Let_def)
    qed
    have at: "int bx * 8 * 8 + (int px + int first) * 8 = ?a * 8" "?Y = ?b * 8" by simp_all
    have fill: "lit_pixel p x y (sys_fill (?a * 8) (?b * 8) ?c w) = (if x div 8 = ?a \<and> y div 8 = ?b then bit ?c p else lit_pixel p x y w)"
      by (rule lit_fill [OF s]) (use i px first in auto)
    show "lit_pixel p x y (sys_fill (int bx * 8 * 8 + (int px + int first) * 8) ?Y ?c w) =
        (if x div 8 = ?a \<and> y div 8 = ?b then ?V else lit_pixel p x y w)"
      by (simp only: at fill) (simp add: val)
  qed
  have parts: "(\<exists>px\<in>set [0..<4]. x div 8 = int bx * 8 + int px + int 4) \<or> (\<exists>px\<in>set [0..<4]. x div 8 = int bx * 8 + int px + int 0) \<longleftrightarrow>
      x div 64 = int bx"
    using column_parts [of "x div 8" "int bx"] by (simp add: zdiv_zmult2_eq [symmetric] eval_nat_numeral One_nat_def ac_simps)
  show ?thesis
    using four [of 4 "fold (\<lambda>px. sys_fill (int bx * 8 * 8 + (int px + int 0) * 8) ?Y
        (pixel_color (drop_bit (6 - px * 2) (cur ! (row * 7 + bx) ! (dy * 2 + 0 div 4)) AND 3))) [0..<4] u"] four [of 0 u] parts
    by (simp add: render_row_def Let_def del: set_upt) blast
qed

lemma lit_render:
  assumes s: "on_screen x y" "p < 4"
  shows "lit_pixel p x y (render cur u) = (if x < 448 \<and> y < 320 then bit (pixel_color (frame_value cur x y)) p else lit_pixel p x y u)"
proof -
  let ?V = "bit (pixel_color (frame_value cur x y)) p"
  have one: "lit_pixel p x y (fold (\<lambda>bx. render_row cur row dy bx) [0..<7] v) =
      (if \<exists>bx\<in>set [0..<7]. x div 64 = int bx \<and> y div 8 = int row * 8 + int dy then ?V else lit_pixel p x y v)"
    if "row < 5" "dy < 8" for row dy v
    by (rule lit_fold) (use lit_row [OF s that] in simp)
  have two: "lit_pixel p x y (fold (\<lambda>dy. fold (\<lambda>bx. render_row cur row dy bx) [0..<7]) [0..<8] v) =
      (if \<exists>dy\<in>set [0..<8]. \<exists>bx\<in>set [0..<7]. x div 64 = int bx \<and> y div 8 = int row * 8 + int dy then ?V else lit_pixel p x y v)"
    if "row < 5" for row v
    by (rule lit_fold) (use one [OF that] in simp)
  have three: "lit_pixel p x y (render cur u) =
      (if \<exists>row\<in>set [0..<5]. \<exists>dy\<in>set [0..<8]. \<exists>bx\<in>set [0..<7]. x div 64 = int bx \<and> y div 8 = int row * 8 + int dy then ?V else lit_pixel p x y u)"
    unfolding render_def player_consts by (rule lit_fold) (use two in simp)
  have "(\<exists>row\<in>set [0..<5]. \<exists>dy\<in>set [0..<8]. \<exists>bx\<in>set [0..<7]. x div 64 = int bx \<and> y div 8 = int row * 8 + int dy) \<longleftrightarrow> x < 448 \<and> y < 320"
    (is "?L \<longleftrightarrow> ?R")
  proof
    assume ?R
    with s(1) have *: "nat (y div 64) < 5" "nat (y div 8 mod 8) < 8" "nat (x div 64) < 7" "x div 64 = int (nat (x div 64))"
      by (auto simp: on_screen_def)
    moreover have "y div 8 = y div 64 * 8 + y div 8 mod 8" using div_mult_mod_eq [of "y div 8" 8] by (simp add: zdiv_zmult2_eq [symmetric])
    then have "y div 8 = int (nat (y div 64)) * 8 + int (nat (y div 8 mod 8))" using s(1) by (simp add: on_screen_def)
    ultimately show ?L by (metis atLeastLessThan_iff set_upt zero_le)
  qed auto
  then show ?thesis using three by simp
qed

text \<open>C38: Drawing a frame fills the upper left 448 by 320 pixels of the screen: every point gets the grey
  its two bits stand for, and every other pixel stays.\<close>

theorem render_shows:
  "shown (screen (con (sys (render cur u)))) = {(p, x, y). p < 4 \<and> on_screen x y \<and>
    (if x < 448 \<and> y < 320 then bit (pixel_color (frame_value cur x y)) p else (p, x, y) \<in> shown (screen (con (sys u))))}"
  using lit_render [where cur = cur and u = u] by (auto simp: shown_def lit_pixel_def)

subsection \<open>The frames of the data\<close>

definition frame_ok :: "u8 list list \<Rightarrow> bool" where
  "frame_ok f \<longleftrightarrow> length f = BLOCK_COUNT \<and> (\<forall>b\<in>set f. length b = 16)"

text \<open>A frame on its own, and a frame as the blocks in which it differs from the one before.\<close>

definition key_frame :: "u8 list list \<Rightarrow> u8 list" where
  "key_frame f = 255 # concat f"

definition deltas :: "u8 list list \<Rightarrow> nat list \<Rightarrow> u8 list" where
  "deltas f ks = concat (map (\<lambda>k. of_nat k # f ! k) ks)"

definition differing :: "u8 list list \<Rightarrow> u8 list list \<Rightarrow> nat list" where
  "differing prev f = filter (\<lambda>k. prev ! k \<noteq> f ! k) [0..<BLOCK_COUNT]"

definition delta_frame :: "u8 list list \<Rightarrow> u8 list list \<Rightarrow> u8 list" where
  "delta_frame prev f = of_nat (length (differing prev f)) # deltas f (differing prev f)"

lemma video_block_at: "length b = 16 \<Longrightarrow> video_block (pre @ b @ post) (length pre) = Some (b, length pre + 16)"
  by (simp add: video_block_def)

lemma full_frame_at:
  "\<forall>b\<in>set bs. length b = 16 \<Longrightarrow> full_frame (pre @ concat bs @ post) (length pre) (length bs) = Some (bs, length pre + length (concat bs))"
proof (induction bs arbitrary: pre)
  case (Cons b bs)
  have "full_frame ((pre @ b) @ concat bs @ post) (length (pre @ b)) (length bs) = Some (bs, length (pre @ b) + length (concat bs))"
    by (rule Cons.IH) (use Cons.prems in simp)
  then show ?case using Cons.prems video_block_at [of b pre "concat bs @ post"] by simp
qed simp

lemma apply_deltas_at:
  assumes "frame_ok f" "length cur = BLOCK_COUNT" "\<forall>k\<in>set ks. k < BLOCK_COUNT"
  shows "apply_deltas (pre @ deltas f ks @ post) (length pre) (length ks) cur =
    Some (fold (\<lambda>k cur. cur[k := f ! k]) ks cur, length pre + length (deltas f ks))"
  using assms(2,3)
proof (induction ks arbitrary: pre cur)
  case Nil
  then show ?case by (simp add: deltas_def)
next
  case (Cons k ks)
  let ?pre = "pre @ of_nat k # f ! k"
  have k: "k < BLOCK_COUNT" "unat (of_nat k :: u8) = k" using Cons.prems(2) by (simp_all add: unat_of_nat)
  have b: "length (f ! k) = 16" using assms(1) k(1) by (simp add: frame_ok_def)
  have eq: "pre @ deltas f (k # ks) @ post = ?pre @ deltas f ks @ post" by (simp add: deltas_def)
  have get: "arr_get (?pre @ deltas f ks @ post) (length pre) = Some (of_nat k)" by (simp add: arr_get_def nth_append)
  have take: "video_block (?pre @ deltas f ks @ post) (length pre + 1) = Some (f ! k, length ?pre)"
    using video_block_at [of "f ! k" "pre @ [of_nat k]" "deltas f ks @ post"] b by (simp add: One_nat_def)
  have "apply_deltas (?pre @ deltas f ks @ post) (length ?pre) (length ks) (cur[k := f ! k]) =
      Some (fold (\<lambda>k cur. cur[k := f ! k]) ks (cur[k := f ! k]), length ?pre + length (deltas f ks))"
    by (rule Cons.IH) (use Cons.prems in simp_all)
  then show ?case using k Cons.prems(1)
    by (simp only: eq list.size(4) add_Suc_right apply_deltas.simps get take) (simp add: deltas_def arr_put_def One_nat_def)
qed

lemma fold_differing:
  assumes "length cur = length f"
  shows "length (fold (\<lambda>k cur. cur[k := f ! k]) ks cur) = length f"
    "i < length f \<Longrightarrow> fold (\<lambda>k cur. cur[k := f ! k]) ks cur ! i = (if i \<in> set ks then f ! i else cur ! i)"
  using assms by (induction ks arbitrary: cur) (auto simp: nth_list_update)

lemma length_differing: "length (differing prev f) \<le> 35"
  using length_filter_le [of "\<lambda>k. prev ! k \<noteq> f ! k" "[0..<35]"] by (simp add: differing_def del: length_filter_le)

lemma decode_at:
  assumes "frame_ok prev" "frame_ok f"
  shows "decode_frame (pre @ key_frame f @ post) (length pre) prev = Some (f, length pre + length (key_frame f))"
    "decode_frame (pre @ delta_frame prev f @ post) (length pre) prev = Some (f, length pre + length (delta_frame prev f))"
proof -
  have len: "length f = 35" "length prev = 35" "\<forall>b\<in>set f. length b = 16" using assms by (simp_all add: frame_ok_def)
  have "full_frame ((pre @ [255]) @ concat f @ post) (length (pre @ [255])) 35 = Some (f, length (pre @ [255]) + length (concat f))"
    using full_frame_at [OF len(3), of "pre @ [255]" post] len(1) by simp
  then show "decode_frame (pre @ key_frame f @ post) (length pre) prev = Some (f, length pre + length (key_frame f))"
    by (simp add: decode_frame_def key_frame_def arr_get_def nth_append One_nat_def)
  let ?ks = "differing prev f" let ?n = "of_nat (length ?ks) :: u8"
  have n: "unat ?n = length ?ks" "?n \<noteq> 255"
  proof -
    show n: "unat ?n = length ?ks" using length_differing [of prev f] by (simp add: unat_of_nat)
    have "unat (255 :: u8) = 255" by (simp add: One_nat_def)
    then have "?n = 255 \<Longrightarrow> length (differing prev f) = 255" using n by metis
    then show "?n \<noteq> 255" using length_differing [of prev f] by linarith
  qed
  have ks: "\<forall>k\<in>set ?ks. k < BLOCK_COUNT" by (simp add: differing_def)
  have "fold (\<lambda>k cur. cur[k := f ! k]) ?ks prev = f"
    using fold_differing [where cur = prev and f = f and ks = ?ks] len by (intro nth_equalityI) (auto simp: differing_def)
  then have "apply_deltas ((pre @ [?n]) @ deltas f ?ks @ post) (length (pre @ [?n])) (length ?ks) prev =
      Some (f, length (pre @ [?n]) + length (deltas f ?ks))"
    using apply_deltas_at [OF assms(2) _ ks, of prev "pre @ [?n]" post] len(2) by simp
  then show "decode_frame (pre @ delta_frame prev f @ post) (length pre) prev = Some (f, length pre + length (delta_frame prev f))"
    using n by (simp add: decode_frame_def delta_frame_def arr_get_def nth_append One_nat_def)
qed

text \<open>A film: the frames with how each is stored.\<close>

fun film :: "u8 list list \<Rightarrow> (bool \<times> u8 list list) list \<Rightarrow> u8 list" where
  "film prev [] = []"
| "film prev ((key, f) # fs) = (if key then key_frame f else delta_frame prev f) @ film f fs"

lemma play_film:
  assumes "frame_ok prev" "\<forall>(key, f)\<in>set fs. frame_ok f" "length fs \<le> n"
  shows "play n (pre @ film prev fs) (length pre) prev u = Some (fold (\<lambda>(key, f). render f) fs u)"
  using assms
proof (induction fs arbitrary: n prev pre u)
  case Nil
  then show ?case by (cases n) simp_all
next
  case (Cons kf fs)
  obtain key f where kf: "kf = (key, f)" by (cases kf)
  obtain m where n: "n = Suc m" "length fs \<le> m" using Cons.prems(3) by (cases n) auto
  let ?x = "if key then key_frame f else delta_frame prev f"
  have f: "frame_ok f" "\<forall>(key, f)\<in>set fs. frame_ok f" using Cons.prems(2) kf by auto
  have x: "?x \<noteq> []" by (simp add: key_frame_def delta_frame_def)
  have "decode_frame (pre @ ?x @ film f fs) (length pre) prev = Some (f, length (pre @ ?x))"
    using decode_at [OF Cons.prems(1) f(1), of pre "film f fs"] by simp
  moreover have "play m ((pre @ ?x) @ film f fs) (length (pre @ ?x)) f (render f u) = Some (fold (\<lambda>(key, f). render f) fs (render f u))"
    by (rule Cons.IH [OF f n(2)])
  moreover have "length pre < length (pre @ ?x @ film f fs)" using x by simp
  ultimately show ?case by (simp add: n(1) kf del: length_append)
qed

lemma film_length: "length fs \<le> length (film prev fs)"
proof (induction fs arbitrary: prev)
  case (Cons kf fs)
  then show ?case using Cons [of "snd kf"] by (cases kf) (simp add: key_frame_def delta_frame_def trans_le_add2)
qed simp

text \<open>C39: The player draws the frames of a film in their order and ends: the decoder undoes the coding of
  whole frames and of differences, never reading or writing outside its arrays.\<close>

theorem film_plays:
  assumes "\<forall>(key, f)\<in>set fs. frame_ok f"
  shows "bad_apple (film blank_frame fs) u = Some (fold (\<lambda>(key, f). render f) fs (sys_clear u))"
proof -
  have "frame_ok blank_frame" by (simp add: frame_ok_def blank_frame_def)
  from play_film [OF this assms film_length, of blank_frame "[]"] show ?thesis by (simp add: bad_apple_def)
qed

lemma film_plays_witness:
  "bad_apple (film blank_frame [(True, replicate 35 (replicate 16 0xFF)), (False, blank_frame)]) sample_user =
    Some (render blank_frame (render (replicate 35 (replicate 16 0xFF)) (sys_clear sample_user)))"
proof -
  have "\<forall>(key, f)\<in>set [(True, replicate 35 (replicate 16 0xFF)), (False, blank_frame)]. frame_ok f"
    by (simp add: frame_ok_def blank_frame_def)
  from film_plays [OF this, of sample_user] show ?thesis by simp
qed

end
